(* ===== verification/Prelude.thy ===== *)
theory Prelude
  imports Complex_Main "HOL-Library.Char_ord" "HOL-Library.Sublist" "HOL-Library.Multiset"
begin

text \<open>
  JavaScript values and the parts of the language's standard library that the program uses:
  truthiness, property reads, string search and splitting, the string-to-number conversion
  of the relational operators, number-to-string conversion, and the order in which
  \<open>for (k in obj)\<close> visits the keys of an object. Strings are lists of characters
  (code units below 256). Numbers are exact rationals with the infinities and NaN; the
  rounding of decimal literals with more than 15 significant digits is not modelled.
\<close>

named_theorems js_eval \<open>evaluation of JavaScript primitives on concrete values\<close>

subsection \<open>Values\<close>

datatype jnum = NaN | PInf | NInf | Fin rat

datatype js =
    JUndef
  | JNull
  | JBool bool
  | JNum jnum
  | JStr string
  | JArr "js list"
  | JObj "(string \<times> js) list"

datatype exn = TypeError | URIError | Thrown js

fun typeof_js :: "js \<Rightarrow> string" where
  "typeof_js JUndef = ''undefined''"
| "typeof_js JNull = ''object''"
| "typeof_js (JBool _) = ''boolean''"
| "typeof_js (JNum _) = ''number''"
| "typeof_js (JStr _) = ''string''"
| "typeof_js (JArr _) = ''object''"
| "typeof_js (JObj _) = ''object''"

fun truthy_num :: "jnum \<Rightarrow> bool" where
  "truthy_num NaN = False"
| "truthy_num (Fin q) = (q \<noteq> 0)"
| "truthy_num PInf = True"
| "truthy_num NInf = True"

fun truthy :: "js \<Rightarrow> bool" where
  "truthy JUndef = False"
| "truthy JNull = False"
| "truthy (JBool b) = b"
| "truthy (JNum n) = truthy_num n"
| "truthy (JStr s) = (s \<noteq> [])"
| "truthy (JArr _) = True"
| "truthy (JObj _) = True"

text \<open>\<open>v == null\<close> (loose): true of null and undefined only.\<close>

fun nullish :: "js \<Rightarrow> bool" where
  "nullish JUndef = True"
| "nullish JNull = True"
| "nullish _ = False"

text \<open>\<open>v === true\<close>.\<close>

definition is_true :: "js \<Rightarrow> bool" where
  "is_true v \<longleftrightarrow> v = JBool True"

text \<open>
  Own data properties. Reading a property of \<open>undefined\<close> or \<open>null\<close> throws; every
  other value without that property gives \<open>undefined\<close>.
\<close>

fun get :: "js \<Rightarrow> string \<Rightarrow> js" where
  "get (JObj kvs) k = (case map_of kvs k of Some v \<Rightarrow> v | None \<Rightarrow> JUndef)"
| "get _ _ = JUndef"

definition read_prop :: "js \<Rightarrow> string \<Rightarrow> exn + js" where
  "read_prop v k = (if nullish v then Inl TypeError else Inr (get v k))"

lemma read_prop_Inr_iff: "read_prop v k = Inr x \<longleftrightarrow> \<not> nullish v \<and> x = get v k"
  by (auto simp: read_prop_def)

lemma truthy_not_nullish: "truthy v \<Longrightarrow> \<not> nullish v"
  by (cases v) auto

subsection \<open>Strings\<close>

text \<open>\<open>s.indexOf(p) !== -1\<close>: \<open>p\<close> occurs in \<open>s\<close>.\<close>

fun occurs :: "string \<Rightarrow> string \<Rightarrow> bool" where
  "occurs p [] = (p = [])"
| "occurs p (c # cs) = (prefix p (c # cs) \<or> occurs p cs)"

lemma occurs_iff_sublist: "occurs p s \<longleftrightarrow> (\<exists>a b. s = a @ p @ b)"
proof (induction s)
  case Nil
  then show ?case by auto
next
  case (Cons c cs)
  have "(\<exists>a b. c # cs = a @ p @ b) \<longleftrightarrow> prefix p (c # cs) \<or> (\<exists>a b. cs = a @ p @ b)"
  proof
    assume "\<exists>a b. c # cs = a @ p @ b"
    then obtain a b where ab: "c # cs = a @ p @ b" by blast
    show "prefix p (c # cs) \<or> (\<exists>a b. cs = a @ p @ b)"
      using ab by (cases a) (auto simp: prefix_def)
  next
    assume "prefix p (c # cs) \<or> (\<exists>a b. cs = a @ p @ b)"
    then show "\<exists>a b. c # cs = a @ p @ b"
    proof
      assume "prefix p (c # cs)"
      then obtain b where "c # cs = [] @ p @ b" by (auto simp: prefix_def)
      then show ?thesis by blast
    next
      assume "\<exists>a b. cs = a @ p @ b"
      then obtain a b where "c # cs = (c # a) @ p @ b" by auto
      then show ?thesis by blast
    qed
  qed
  with Cons.IH show ?case by simp
qed

lemma occurs_append_left: "occurs p (p @ s)"
  using occurs_iff_sublist by (metis append_Nil)

text \<open>\<open>s.split(c)\<close> for a one-character separator: never the empty list.\<close>

fun split_on :: "char \<Rightarrow> string \<Rightarrow> string list" where
  "split_on c [] = [[]]"
| "split_on c (x # xs) =
     (if x = c then [] # split_on c xs
      else (case split_on c xs of [] \<Rightarrow> [[x]] | w # ws \<Rightarrow> (x # w) # ws))"

lemma split_on_not_Nil [simp]: "split_on c s \<noteq> []"
  by (induction s) (auto split: list.splits)

lemma split_on_no_sep: "c \<notin> set s \<Longrightarrow> split_on c s = [s]"
  by (induction s) auto

lemma split_on_append_sep: "split_on c (a @ c # b) = split_on c a @ split_on c b"
  by (induction a) (auto split: list.splits)

lemma last_split_on: "c \<notin> set b \<Longrightarrow> last (split_on c (a @ c # b)) = b"
  by (simp add: split_on_append_sep split_on_no_sep)

lemma split_on_two:
  "c \<notin> set a \<Longrightarrow> c \<notin> set b \<Longrightarrow> split_on c (a @ c # b) = [a, b]"
  by (simp add: split_on_append_sep split_on_no_sep)

text \<open>Array read past the end gives \<open>undefined\<close>, here \<open>None\<close>.\<close>

fun nth_opt :: "'a list \<Rightarrow> nat \<Rightarrow> 'a option" where
  "nth_opt [] _ = None"
| "nth_opt (x # xs) 0 = Some x"
| "nth_opt (x # xs) (Suc n) = nth_opt xs n"

lemma nth_opt_eq: "nth_opt xs n = (if n < length xs then Some (xs ! n) else None)"
  by (induction xs n rule: nth_opt.induct) auto

subsection \<open>Numbers\<close>

definition is_digit :: "char \<Rightarrow> bool" where
  "is_digit c \<longleftrightarrow> c \<in> set ''0123456789''"

definition digit_val :: "char \<Rightarrow> nat" where
  "digit_val c =
     (if is_digit c then of_char c - 48
      else if c \<in> set ''abcdef'' then of_char c - 87
      else if c \<in> set ''ABCDEF'' then of_char c - 55 else 99)"

definition digits_val :: "nat \<Rightarrow> string \<Rightarrow> nat" where
  "digits_val base s = fold (\<lambda>c n. base * n + digit_val c) s 0"

text \<open>A value whose magnitude reaches \<open>2^1024 - 2^970\<close> rounds to an infinity.\<close>

definition of_exact :: "rat \<Rightarrow> jnum" where
  "of_exact q = (if q \<ge> 2 ^ 1024 - 2 ^ 970 then PInf
                 else if q \<le> - (2 ^ 1024 - 2 ^ 970) then NInf else Fin q)"

definition is_space_js :: "char \<Rightarrow> bool" where
  "is_space_js c \<longleftrightarrow> of_char c \<in> {9, 10, 11, 12, 13, 32, 160 :: nat}"

definition trim_js :: "string \<Rightarrow> string" where
  "trim_js s = rev (dropWhile is_space_js (rev (dropWhile is_space_js s)))"

definition exp_part :: "string \<Rightarrow> int option" where
  "exp_part s =
     (case s of [] \<Rightarrow> Some 0
      | c # t \<Rightarrow>
          if c = CHR ''e'' \<or> c = CHR ''E'' then
            (let (sg, ds) = (case t of [] \<Rightarrow> (1, [])
                              | d # u \<Rightarrow> if d = CHR ''-'' then (-1, u)
                                          else if d = CHR ''+'' then (1, u) else (1, t))
             in if ds \<noteq> [] \<and> list_all is_digit ds then Some (sg * int (digits_val 10 ds)) else None)
          else None)"

definition pow10 :: "int \<Rightarrow> rat" where
  "pow10 e = (if e \<ge> 0 then 10 ^ nat e else 1 / 10 ^ nat (- e))"

text \<open>StrUnsignedDecimalLiteral without Infinity: digits, an optional fraction, an exponent.\<close>

definition dec_literal :: "string \<Rightarrow> rat option" where
  "dec_literal s =
     (let ip = takeWhile is_digit s; r = dropWhile is_digit s;
          (fp, r2) = (case r of [] \<Rightarrow> ([], []) | c # t \<Rightarrow>
                        if c = CHR ''.'' then (takeWhile is_digit t, dropWhile is_digit t)
                        else ([], r))
      in if ip = [] \<and> fp = [] then None
         else map_option (\<lambda>e. of_nat (digits_val 10 (ip @ fp)) * pow10 (e - int (length fp)))
                (exp_part r2))"

definition radix_literal :: "nat \<Rightarrow> string \<Rightarrow> jnum" where
  "radix_literal base ds =
     (if ds \<noteq> [] \<and> list_all (\<lambda>c. digit_val c < base) ds
      then of_exact (of_nat (digits_val base ds)) else NaN)"

definition signed_literal :: "rat \<Rightarrow> string \<Rightarrow> jnum" where
  "signed_literal sg s =
     (if s = ''Infinity'' then (if sg > 0 then PInf else NInf)
      else (case dec_literal s of None \<Rightarrow> NaN | Some q \<Rightarrow> of_exact (sg * q)))"

definition str_to_number :: "string \<Rightarrow> jnum" where
  "str_to_number s0 =
     (let s = trim_js s0 in
      if s = [] then Fin 0
      else if take 2 s \<in> {''0x'', ''0X''} then radix_literal 16 (drop 2 s)
      else if take 2 s \<in> {''0o'', ''0O''} then radix_literal 8 (drop 2 s)
      else if take 2 s \<in> {''0b'', ''0B''} then radix_literal 2 (drop 2 s)
      else if hd s = CHR ''-'' then signed_literal (-1) (tl s)
      else if hd s = CHR ''+'' then signed_literal 1 (tl s)
      else signed_literal 1 s)"

text \<open>The relational \<open>a > b\<close> on numbers: false when either side is NaN.\<close>

fun num_less :: "jnum \<Rightarrow> jnum \<Rightarrow> bool" where
  "num_less NaN _ = False"
| "num_less _ NaN = False"
| "num_less (Fin a) (Fin b) = (a < b)"
| "num_less NInf NInf = False"
| "num_less NInf _ = True"
| "num_less _ NInf = False"
| "num_less PInf _ = False"
| "num_less (Fin _) PInf = True"

text \<open>\<open>Math.round\<close>: the nearest integer, ties upwards.\<close>

definition math_round :: "rat \<Rightarrow> int" where
  "math_round q = \<lfloor>q + 1 / 2\<rfloor>"

lemma math_round_int [simp]: "math_round (of_int n) = n"
  by (simp add: math_round_def floor_eq_iff)

lemma math_round_near: "\<bar>of_int (math_round q) - q\<bar> \<le> 1 / 2"
  unfolding math_round_def by linarith

definition digit_chr :: "nat \<Rightarrow> char" where
  "digit_chr n = ''0123456789'' ! n"

fun show_nat_fuel :: "nat \<Rightarrow> nat \<Rightarrow> string" where
  "show_nat_fuel 0 n = []"
| "show_nat_fuel (Suc f) n =
     (if n < 10 then [digit_chr n] else show_nat_fuel f (n div 10) @ [digit_chr (n mod 10)])"

text \<open>A natural number has at most \<open>n + 1\<close> decimal digits.\<close>

definition show_nat :: "nat \<Rightarrow> string" where
  "show_nat n = show_nat_fuel (Suc n) n"

definition show_int :: "int \<Rightarrow> string" where
  "show_int i = (if i < 0 then CHR ''-'' # show_nat (nat (- i)) else show_nat (nat i))"

text \<open>
  \<open>String(n)\<close>: integers below \<open>10^21\<close> in magnitude are printed exactly; other finite
  values go through the parameter \<open>fmt\<close>, the shortest-digits printer of the engine.
\<close>

fun num_to_string :: "(rat \<Rightarrow> string) \<Rightarrow> jnum \<Rightarrow> string" where
  "num_to_string fmt NaN = ''NaN''"
| "num_to_string fmt PInf = ''Infinity''"
| "num_to_string fmt NInf = ''-Infinity''"
| "num_to_string fmt (Fin q) =
     (if q = of_int \<lfloor>q\<rfloor> \<and> \<bar>q\<bar> < 10 ^ 21 then show_int \<lfloor>q\<rfloor> else fmt q)"

lemma fold_digits_append:
  "digits_val b (xs @ [c]) = b * digits_val b xs + digit_val c"
  by (simp add: digits_val_def)

lemma digit_char:
  assumes "n < 10"
  shows "is_digit (digit_chr n) \<and> digit_val (digit_chr n) = n"
proof -
  from assms have "n \<in> {0, 1, 2, 3, 4, 5, 6, 7, 8, 9}" by auto
  then show ?thesis
    by (elim insertE emptyE) (simp_all add: is_digit_def digit_val_def digit_chr_def)
qed

lemma show_nat_fuel_val:
  "n < f \<Longrightarrow> digits_val 10 (show_nat_fuel f n) = n \<and> list_all is_digit (show_nat_fuel f n)
     \<and> show_nat_fuel f n \<noteq> []"
proof (induction f arbitrary: n)
  case 0
  then show ?case by simp
next
  case (Suc f)
  show ?case
  proof (cases "n < 10")
    case True
    then show ?thesis using digit_char [OF True] by (simp add: digits_val_def)
  next
    case False
    with Suc.prems have "n div 10 < f" by linarith
    from Suc.IH [OF this] digit_char [of "n mod 10"] False
    show ?thesis by (simp add: fold_digits_append)
  qed
qed

lemma digits_val_show_nat [simp]: "digits_val 10 (show_nat n) = n"
  and show_nat_digits: "list_all is_digit (show_nat n)"
  and show_nat_not_Nil [simp]: "show_nat n \<noteq> []"
  using show_nat_fuel_val [of n "Suc n"] by (auto simp: show_nat_def)

lemma show_nat_digit: "n < 10 \<Longrightarrow> show_nat n = [digit_chr n]"
  by (simp add: show_nat_def)

lemma show_nat_fuel_enough: "n < f \<Longrightarrow> n < g \<Longrightarrow> show_nat_fuel f n = show_nat_fuel g n"
proof (induction f arbitrary: n g)
  case (Suc f)
  then obtain g' where g: "g = Suc g'" by (cases g) auto
  show ?case
  proof (cases "n < 10")
    case False
    then have "n div 10 < f" "n div 10 < g'" using Suc.prems g by linarith+
    from Suc.IH [OF this] show ?thesis using g by simp
  qed (simp add: g)
qed simp

lemma show_nat_step: "show_nat n = (if n < 10 then [digit_chr n] else show_nat (n div 10) @ [digit_chr (n mod 10)])"
proof (cases "n < 10")
  case False
  then have "show_nat_fuel n (n div 10) = show_nat_fuel (Suc (n div 10)) (n div 10)"
    by (intro show_nat_fuel_enough) simp_all
  then show ?thesis using False unfolding show_nat_def by (simp del: show_nat_fuel.simps add: show_nat_fuel.simps(2) [of n n])
qed (simp add: show_nat_def)

lemmas show_nat_numeral = show_nat_step [of "numeral k" for k]

lemma show_nat_inject: "show_nat m = show_nat n \<longleftrightarrow> m = n"
  by (metis digits_val_show_nat)

lemma show_nat_no_char: "\<not> is_digit c \<Longrightarrow> c \<notin> set (show_nat n)"
  using show_nat_digits by (auto simp: list_all_iff)

lemma dec_literal_digits:
  assumes "list_all is_digit s" and "s \<noteq> []"
  shows "dec_literal s = Some (of_nat (digits_val 10 s))"
proof -
  have tw: "takeWhile is_digit s = s" and dw: "dropWhile is_digit s = []"
    using assms by (auto simp: list_all_iff takeWhile_eq_all_conv)
  show ?thesis using assms(2)
    by (simp add: dec_literal_def tw dw exp_part_def pow10_def Let_def)
qed

lemma digit_not_space: "is_digit c \<Longrightarrow> \<not> is_space_js c"
  by (auto simp: is_digit_def is_space_js_def)

lemma trim_js_digits: "list_all is_digit s \<Longrightarrow> trim_js s = s"
proof -
  assume d: "list_all is_digit s"
  have "dropWhile is_space_js t = t" if "list_all is_digit t" for t
    using that digit_not_space by (cases t) auto
  moreover have "list_all is_digit (rev s)" using d by simp
  ultimately show ?thesis using d by (simp add: trim_js_def)
qed

lemma digit_ge: "is_digit c \<Longrightarrow> c \<notin> set ''+-xXoObBI''"
  by (auto simp: is_digit_def)

lemma str_to_number_digits:
  assumes "list_all is_digit s" and "s \<noteq> []"
  shows "str_to_number s = of_exact (of_nat (digits_val 10 s))"
proof -
  obtain c t where s: "s = c # t" using assms(2) by (cases s) auto
  have c: "c \<notin> set ''+-xXoObBI''" using assms(1) s digit_ge by simp
  have pre: "take 2 s \<notin> {[a, b] | a b. b \<in> set ''+-xXoObBI''}"
    using assms(1) s digit_ge by (cases t) auto
  have "take 2 s \<noteq> [CHR ''0'', b]" if "b \<in> set ''+-xXoObBI''" for b
    using pre that by blast
  then have rx: "take 2 s \<notin> {''0x'', ''0X''}" "take 2 s \<notin> {''0o'', ''0O''}"
      "take 2 s \<notin> {''0b'', ''0B''}" by auto
  have sg: "hd s \<noteq> CHR ''-''" "hd s \<noteq> CHR ''+''" "s \<noteq> ''Infinity''" using c s by auto
  show ?thesis
    using assms rx sg
    by (simp add: str_to_number_def Let_def trim_js_digits signed_literal_def
        dec_literal_digits del: One_nat_def)
qed

lemma str_to_number_show_nat:
  "n < 10 ^ 20 \<Longrightarrow> str_to_number (show_nat n) = Fin (of_nat n)"
proof -
  assume "n < 10 ^ 20"
  then have "(of_nat n :: rat) < of_nat (10 ^ 20)" by (simp only: of_nat_less_iff)
  then have "(of_nat n :: rat) < 2 ^ 1024 - 2 ^ 970" by simp
  moreover have "(of_nat n :: rat) > - (2 ^ 1024 - 2 ^ 970)"
  proof -
    have "- (2 ^ 1024 - 2 ^ 970) < (0 :: rat)" by simp
    also have "0 \<le> (of_nat n :: rat)" by simp
    finally show ?thesis .
  qed
  ultimately show ?thesis
    using str_to_number_digits [OF show_nat_digits show_nat_not_Nil, of n]
    by (simp only: of_exact_def digits_val_show_nat not_le [symmetric] if_False simp_thms)
qed

subsection \<open>Key order of objects\<close>

text \<open>
  \<open>for (k in obj)\<close> visits the array-index keys (canonical decimal numerals below
  \<open>2^32 - 1\<close>) in ascending order and then the other keys in insertion order.
\<close>

definition is_index_key :: "string \<Rightarrow> bool" where
  "is_index_key s \<longleftrightarrow> s \<noteq> [] \<and> list_all is_digit s \<and> (hd s \<noteq> CHR ''0'' \<or> tl s = [])
     \<and> digits_val 10 s < 2 ^ 32 - 1"

definition key_order :: "string list \<Rightarrow> string list" where
  "key_order ks = sort_key (digits_val 10) (filter is_index_key ks)
                    @ filter (\<lambda>k. \<not> is_index_key k) ks"

lemma set_key_order [simp]: "set (key_order ks) = set ks"
  by (auto simp: key_order_def)

lemma mset_key_order: "mset (key_order ks) = mset ks"
  by (simp add: key_order_def)

lemma distinct_key_order [simp]: "distinct (key_order ks) = distinct ks"
  by (metis mset_eq_imp_distinct_iff mset_key_order)

lemma length_key_order [simp]: "length (key_order ks) = length ks"
  by (metis mset_key_order size_mset)

text \<open>Property stores of an object kept as an association list in insertion order.\<close>

fun al_set :: "string \<Rightarrow> 'a \<Rightarrow> (string \<times> 'a) list \<Rightarrow> (string \<times> 'a) list" where
  "al_set k v [] = [(k, v)]"
| "al_set k v ((k', v') # m) = (if k = k' then (k, v) # m else (k', v') # al_set k v m)"

definition al_del :: "'k \<Rightarrow> ('k \<times> 'a) list \<Rightarrow> ('k \<times> 'a) list" where
  "al_del k m = filter (\<lambda>kv. fst kv \<noteq> k) m"

lemma map_of_al_set [simp]: "map_of (al_set k v m) = (map_of m)(k \<mapsto> v)"
  by (induction k v m rule: al_set.induct) auto

lemma dom_keys_al_set: "fst ` set (al_set k v m) = insert k (fst ` set m)"
  by (induction k v m rule: al_set.induct) auto

lemma distinct_al_set [simp]: "distinct (map fst m) \<Longrightarrow> distinct (map fst (al_set k v m))"
  by (induction k v m rule: al_set.induct) (auto simp: dom_keys_al_set)

lemma map_of_al_del [simp]: "map_of (al_del k m) = (map_of m)(k := None)"
  by (induction m) (auto simp: al_del_def fun_eq_iff)

lemma distinct_al_del [simp]: "distinct (map fst m) \<Longrightarrow> distinct (map fst (al_del k m))"
  by (induction m) (auto simp: al_del_def)

end
