(* ===== verification/Worker.thy ===== *)
theory Worker
  imports Prelude
begin

text \<open>
  The socket server's own logic (\<open>serversc/lhc/worker.js\<close>): the \<open>login\<close> handler
  that turns a signed hash into an authentication token, the SUBSCRIBE middleware that
  authorises channels and announces visitors, and the \<open>disconnect\<close> handler that
  announces their departure. The \<open>sha1\<close> digest of Node's crypto module is a parameter.
  A handler returns the calls it makes on the library, in order, and the exception that
  leaves it, if any; the code of a class body is strict, so assigning a property of a
  primitive throws.
\<close>

subsection \<open>Data\<close>

record auth_token =
  tok :: string
  exp_at :: int
  chanelName :: js
  instance_id :: jnum
  isChatToken :: bool
  isVisitor :: bool
  chanelNameChat :: "string option"

text \<open>
  Calls on the library: answering the login packet (\<open>respond()\<close> and
  \<open>respond(err)\<close>), storing a token on the socket, publishing a packet on a channel and
  reporting a middleware decision (\<open>next()\<close> and \<open>next(err)\<close>).
\<close>

datatype call =
    Respond "string option"
  | SetAuthToken auth_token
  | Publish string js
  | Next "string option"

type_synonym outcome = "call list \<times> exn option"

definition vi_online :: "bool \<Rightarrow> js" where
  "vi_online st = JObj [(''op'', JStr ''vi_online''), (''status'', JBool st)]"

definition vi_online_vid :: "bool \<Rightarrow> string \<Rightarrow> js" where
  "vi_online_vid st vid =
     JObj [(''op'', JStr ''vi_online''), (''status'', JBool st), (''vid'', JStr vid)]"

subsection \<open>The login handler\<close>

text \<open>
  The first block of the handler: a nested \<open>hash\<close> object is unpacked into
  \<open>hash\<close> and \<open>instance_id\<close>, and \<open>instance_id\<close> defaults to 0. The result is the
  hash (any value) and the instance id, or the early outcome.
\<close>

definition num_or_zero :: "js \<Rightarrow> jnum" where
  "num_or_zero v = (case v of JNum n \<Rightarrow> n | _ \<Rightarrow> Fin 0)"

definition is_primitive :: "js \<Rightarrow> bool" where
  "is_primitive v \<longleftrightarrow> (case v of JArr _ \<Rightarrow> False | JObj _ \<Rightarrow> False | _ \<Rightarrow> True)"

definition login_fields :: "js \<Rightarrow> outcome + js \<times> jnum" where
  "login_fields token =
     (case read_prop token ''hash'' of Inl e \<Rightarrow> Inl ([], Some e)
      | Inr h \<Rightarrow>
        if typeof_js h = ''object'' then
          (case read_prop h ''hash'' of Inl e \<Rightarrow> Inl ([], Some e)
           | Inr hh \<Rightarrow>
             if typeof_js hh \<noteq> ''string'' then Inl ([Respond (Some ''Login failed'')], None)
             else Inr (hh, num_or_zero (get h ''instance_id'')))
        else if typeof_js (get token ''instance_id'') \<noteq> ''number'' then
          (if is_primitive token then Inl ([], Some TypeError) else Inr (h, Fin 0))
        else Inr (h, num_or_zero (get token ''instance_id'')))"

text \<open>\<open>v.indexOf('chat_') !== -1\<close>: strings and arrays have the method, nothing else does.\<close>

definition index_of_chat :: "js \<Rightarrow> exn + bool" where
  "index_of_chat v =
     (case v of JStr s \<Rightarrow> Inr (occurs ''chat_'' s)
      | JArr xs \<Rightarrow> Inr (JStr ''chat_'' \<in> set xs)
      | _ \<Rightarrow> Inl TypeError)"

text \<open>\<open>v.split('_')\<close>: strings only; then \<open>parts[parts.length - 1]\<close>.\<close>

definition last_part :: "js \<Rightarrow> exn + string" where
  "last_part v = (case v of JStr s \<Rightarrow> Inr (last (split_on CHR ''_'' s)) | _ \<Rightarrow> Inl TypeError)"

definition sec_now :: "int \<Rightarrow> int" where
  "sec_now ms = math_round (of_int ms / 1000)"

lemma sec_now_seconds [simp]: "sec_now (1000 * n) = n"
  by (simp add: sec_now_def)

lemma sec_now_0 [simp]: "sec_now 0 = 0"
  using sec_now_seconds [of 0] by (simp del: sec_now_seconds)

definition visitor_exp :: int where "visitor_exp = 120 * 60"
definition operator_exp :: int where "operator_exp = 60 * 12 * 60"

text \<open>
  The string that is digested for a visitor: the time stamp, the role, the shared secret,
  and for a chat channel the last part of its name.
\<close>

definition visitor_input :: "string \<Rightarrow> string \<Rightarrow> js \<Rightarrow> exn + string \<times> bool" where
  "visitor_input secretHash stamp ch =
     (case index_of_chat ch of Inl e \<Rightarrow> Inl e
      | Inr True \<Rightarrow>
          (case last_part ch of Inl e \<Rightarrow> Inl e
           | Inr p \<Rightarrow> Inr (stamp @ ''Visitor'' @ secretHash @ ''_'' @ p, True))
      | Inr False \<Rightarrow> Inr (stamp @ ''Visitor'' @ secretHash, False))"

definition login :: "(string \<Rightarrow> string) \<Rightarrow> string \<Rightarrow> int \<Rightarrow> js \<Rightarrow> outcome" where
  "login sha1 secretHash now_ms token =
     (case login_fields token of Inl out \<Rightarrow> out
      | Inr (JStr hash, iid) \<Rightarrow>
          (let parts = split_on CHR ''.'' hash; secNow = sec_now now_ms in
           (case nth_opt parts 1 of
              None \<Rightarrow> ([Respond (Some ''Login failed'')], None)
            | Some stamp \<Rightarrow>
                if num_less (Fin (of_int (secNow - 60 * 60))) (str_to_number stamp) then
                  (case visitor_input secretHash stamp (get token ''chanelName'') of
                     Inl e \<Rightarrow> ([], Some e)
                   | Inr (vin, isChat) \<Rightarrow>
                       (let validateVisitorHash = sha1 vin;
                            validateOperatorHash = sha1 (stamp @ ''Operator'' @ secretHash);
                            vis = (hd parts = validateVisitorHash)
                        in if vis \<or> hd parts = validateOperatorHash then
                             ([Respond None,
                               SetAuthToken
                                 \<lparr>tok = hash,
                                  exp_at = secNow + (if vis then visitor_exp else operator_exp),
                                  chanelName = get token ''chanelName'', instance_id = iid,
                                  isChatToken = isChat, isVisitor = vis,
                                  chanelNameChat = None\<rparr>], None)
                           else ([Respond (Some ''Login failed'')], None)))
                else ([Respond (Some ''Login failed'')], None)))
      | Inr (_, _) \<Rightarrow> ([Respond (Some ''Login failed'')], None))"

subsection \<open>The disconnect handler\<close>

text \<open>
  \<open>parts[parts.length - 1]\<close> of the token's channel name, published on the online-users
  channel of the token's instance.
\<close>

definition ous_packet :: "(rat \<Rightarrow> string) \<Rightarrow> auth_token \<Rightarrow> bool \<Rightarrow> outcome" where
  "ous_packet fmt t st =
     (case last_part (chanelName t) of Inl e \<Rightarrow> ([], Some e)
      | Inr vid \<Rightarrow>
          ([Publish (''ous_'' @ num_to_string fmt (instance_id t)) (vi_online_vid st vid)], None))"

definition chat_joined :: "auth_token \<Rightarrow> string option" where
  "chat_joined t = (case chanelNameChat t of None \<Rightarrow> None | Some c \<Rightarrow> if c = [] then None else Some c)"

definition on_disconnect :: "(rat \<Rightarrow> string) \<Rightarrow> bool \<Rightarrow> auth_token option \<Rightarrow> outcome" where
  "on_disconnect fmt onlineTrack auth =
     (case auth of None \<Rightarrow> ([], None)
      | Some t \<Rightarrow>
          (case chat_joined t of
             Some c \<Rightarrow> if isVisitor t then ([Publish c (vi_online False)], None) else ([], None)
           | None \<Rightarrow> if isVisitor t \<and> onlineTrack then ous_packet fmt t False else ([], None)))"

subsection \<open>The SUBSCRIBE middleware\<close>

definition unauthorized :: "string \<Rightarrow> string" where
  "unauthorized ch = ''You are not authorized to subscribe to '' @ ch"

text \<open>
  The middleware writes \<open>chanelNameChat\<close> into the socket's token, so it returns the
  token beside its outcome. After the branch for a visitor without a chat token has
  blocked the request it goes on to the final \<open>next()\<close>, as the code does.
\<close>

definition on_subscribe ::
  "(rat \<Rightarrow> string) \<Rightarrow> bool \<Rightarrow> auth_token option \<Rightarrow> string \<Rightarrow> auth_token option \<times> outcome" where
  "on_subscribe fmt onlineTrack auth ch =
     (case auth of None \<Rightarrow> (None, [Next (Some (unauthorized ch))], None)
      | Some t \<Rightarrow>
          if occurs ''chat_'' ch \<and> isVisitor t then
            (if isChatToken t then
               (Some (t\<lparr>chanelNameChat := Some ch\<rparr>),
                [Publish ch (vi_online True), Next None], None)
             else (Some t, [Next (Some (unauthorized ch)), Next None], None))
          else if isVisitor t \<and> onlineTrack then
            (case ous_packet fmt t True of
               (cs, Some e) \<Rightarrow> (Some t, cs, Some e)
             | (cs, None) \<Rightarrow> (Some t, cs @ [Next None], None))
          else (Some t, [Next None], None))"

subsection \<open>What a login grants\<close>

definition granted :: "outcome \<Rightarrow> auth_token list" where
  "granted out = List.map_filter (\<lambda>c. case c of SetAuthToken t \<Rightarrow> Some t | _ \<Rightarrow> None) (fst out)"

definition responses :: "outcome \<Rightarrow> string option list" where
  "responses out = List.map_filter (\<lambda>c. case c of Respond r \<Rightarrow> Some r | _ \<Rightarrow> None) (fst out)"

definition decisions :: "outcome \<Rightarrow> string option list" where
  "decisions out = List.map_filter (\<lambda>c. case c of Next r \<Rightarrow> Some r | _ \<Rightarrow> None) (fst out)"

definition published :: "outcome \<Rightarrow> (string \<times> js) list" where
  "published out = List.map_filter (\<lambda>c. case c of Publish ch d \<Rightarrow> Some (ch, d) | _ \<Rightarrow> None) (fst out)"

lemmas outcome_views = granted_def responses_def decisions_def published_def List.map_filter_simps

lemma login_fields_Inl:
  "login_fields token = Inl out \<Longrightarrow>
     out = ([Respond (Some ''Login failed'')], None) \<or> out = ([], Some TypeError)"
  by (auto simp: login_fields_def read_prop_def split: sum.splits if_splits)

text \<open>The only ways through the handler: a failed login, an exception, or a grant.\<close>

lemma login_cases:
  obtains (failed) "login sha1 secret now token = ([Respond (Some ''Login failed'')], None)"
  | (threw) e where "login sha1 secret now token = ([], Some e)"
  | (grant) hash iid stamp vin isChat vis where
      "login_fields token = Inr (JStr hash, iid)"
      "nth_opt (split_on CHR ''.'' hash) 1 = Some stamp"
      "num_less (Fin (of_int (sec_now now - 60 * 60))) (str_to_number stamp)"
      "visitor_input secret stamp (get token ''chanelName'') = Inr (vin, isChat)"
      "vis = (hd (split_on CHR ''.'' hash) = sha1 vin)"
      "vis \<or> hd (split_on CHR ''.'' hash) = sha1 (stamp @ ''Operator'' @ secret)"
      "login sha1 secret now token =
         ([Respond None,
           SetAuthToken \<lparr>tok = hash, exp_at = sec_now now + (if vis then visitor_exp else operator_exp),
             chanelName = get token ''chanelName'', instance_id = iid, isChatToken = isChat,
             isVisitor = vis, chanelNameChat = None\<rparr>], None)"
proof (cases "login_fields token")
  case (Inl out)
  then have "login sha1 secret now token = out" by (simp add: login_def)
  with login_fields_Inl [OF Inl] failed threw show thesis by auto
next
  case (Inr hi)
  show thesis
  proof (cases "fst hi")
    case (JStr hash)
    obtain iid where hi: "hi = (JStr hash, iid)" using JStr by (cases hi) auto
    note L = login_def [of sha1 secret now token, unfolded Inr hi, simplified]
    show thesis
    proof (cases "nth_opt (split_on CHR ''.'' hash) 1")
      case None
      then show thesis using failed L by simp
    next
      case (Some stamp)
      show thesis
      proof (cases "num_less (Fin (of_int (sec_now now - 60 * 60))) (str_to_number stamp)")
        case False
        then show thesis using failed L Some by (simp add: Let_def)
      next
        case fresh: True
        show thesis
        proof (cases "visitor_input secret stamp (get token ''chanelName'')")
          case (Inl e)
          then show thesis using threw L Some fresh by (simp add: Let_def)
        next
          case (Inr vc)
          obtain vin isChat where vc: "vc = (vin, isChat)" by (cases vc)
          show thesis
          proof (cases "hd (split_on CHR ''.'' hash) = sha1 vin \<or>
                        hd (split_on CHR ''.'' hash) = sha1 (stamp @ ''Operator'' @ secret)")
            case True
            show thesis
              by (rule grant [OF _ Some fresh Inr [unfolded vc] refl True])
                (use L Some fresh Inr vc True hi \<open>login_fields token = Inr hi\<close> in
                  \<open>simp_all add: Let_def\<close>)
          next
            case False
            then show thesis using failed L Some fresh Inr vc by (simp add: Let_def)
          qed
        qed
      qed
    qed
  qed (use Inr failed in \<open>cases hi, simp add: login_def\<close>)+
qed

text \<open>
  A token is \<open>signed\<close> when its hash carries the digest of its time stamp, its role and
  the shared secret, bound to the last part of the channel name for a chat token.
\<close>

definition signed_token :: "(string \<Rightarrow> string) \<Rightarrow> string \<Rightarrow> auth_token \<Rightarrow> string \<Rightarrow> bool" where
  "signed_token sha1 secret t stamp \<longleftrightarrow>
     nth_opt (split_on CHR ''.'' (tok t)) 1 = Some stamp \<and>
     (if \<not> isVisitor t then hd (split_on CHR ''.'' (tok t)) = sha1 (stamp @ ''Operator'' @ secret)
      else if isChatToken t then
        (\<exists>s. chanelName t = JStr s \<and> occurs ''chat_'' s \<and>
          hd (split_on CHR ''.'' (tok t))
            = sha1 (stamp @ ''Visitor'' @ secret @ ''_'' @ last (split_on CHR ''_'' s)))
      else hd (split_on CHR ''.'' (tok t)) = sha1 (stamp @ ''Visitor'' @ secret))"

lemma visitor_input_cases:
  assumes "visitor_input secret stamp ch = Inr (vin, isChat)"
  shows "(isChat \<and> (\<exists>s. ch = JStr s \<and> occurs ''chat_'' s \<and>
            vin = stamp @ ''Visitor'' @ secret @ ''_'' @ last (split_on CHR ''_'' s)))
       \<or> (\<not> isChat \<and> vin = stamp @ ''Visitor'' @ secret)"
  using assms
  by (cases ch) (auto simp: visitor_input_def index_of_chat_def last_part_def split: if_splits bool.splits)

text \<open>
  C1: Every token the login handler stores on a socket is signed with the shared secret
  for the role it grants, its time stamp is less than an hour old, and it expires after two
  hours for a visitor and after twelve for an operator.
\<close>

theorem login_token_sound:
  assumes "t \<in> set (granted (login sha1 secret now token))"
  shows "\<exists>stamp. signed_token sha1 secret t stamp
       \<and> num_less (Fin (of_int (sec_now now - 60 * 60))) (str_to_number stamp)
       \<and> exp_at t = sec_now now + (if isVisitor t then 120 * 60 else 60 * 12 * 60)
       \<and> chanelNameChat t = None"
proof (rule login_cases [of sha1 secret now token])
  fix hash iid stamp vin isChat vis
  assume st: "nth_opt (split_on CHR ''.'' hash) 1 = Some stamp"
    and fr: "num_less (Fin (of_int (sec_now now - 60 * 60))) (str_to_number stamp)"
    and vi: "visitor_input secret stamp (get token ''chanelName'') = Inr (vin, isChat)"
    and vis: "vis = (hd (split_on CHR ''.'' hash) = sha1 vin)"
    and ok: "vis \<or> hd (split_on CHR ''.'' hash) = sha1 (stamp @ ''Operator'' @ secret)"
    and L: "login sha1 secret now token =
         ([Respond None,
           SetAuthToken \<lparr>tok = hash, exp_at = sec_now now + (if vis then visitor_exp else operator_exp),
             chanelName = get token ''chanelName'', instance_id = iid, isChatToken = isChat,
             isVisitor = vis, chanelNameChat = None\<rparr>], None)"
  from assms L have t: "t = \<lparr>tok = hash, exp_at = sec_now now + (if vis then visitor_exp else operator_exp),
             chanelName = get token ''chanelName'', instance_id = iid, isChatToken = isChat,
             isVisitor = vis, chanelNameChat = None\<rparr>"
    by (simp add: outcome_views)
  have "signed_token sha1 secret t stamp"
    using visitor_input_cases [OF vi] st vis ok by (auto simp: t signed_token_def)
  moreover have "exp_at t = sec_now now + (if isVisitor t then 120 * 60 else 60 * 12 * 60)
      \<and> chanelNameChat t = None"
    by (simp add: t visitor_exp_def operator_exp_def)
  ultimately show ?thesis using fr by blast
qed (use assms in \<open>simp_all add: outcome_views\<close>)

text \<open>
  The login packet is answered at most once: the handler either reports a failure, or
  acknowledges and then stores exactly one token, or throws before it has answered.
\<close>

theorem login_answers_once:
  "login sha1 secret now token \<in>
     {([Respond (Some ''Login failed'')], None)}
     \<union> range (\<lambda>t. ([Respond None, SetAuthToken t], None))
     \<union> range (\<lambda>e. ([], Some e))"
  by (rule login_cases [of sha1 secret now token]) auto

text \<open>A hash issued for a chat, and one issued for the site (\<open>bootstrap.php\<close>), in a packet without an instance.\<close>

lemma issued_chat_hash:
  assumes hex: "\<And>x. CHR ''.'' \<notin> set (sha1 x)"
    and fresh: "int ts > sec_now now - 60 * 60" and ts: "ts < 10 ^ 20"
    and ch: "occurs ''chat_'' ch" "last (split_on CHR ''_'' ch) = chat_id"
    and h: "hash = sha1 (show_nat ts @ ''Visitor'' @ secret @ ''_'' @ chat_id) @ ''.'' @ show_nat ts"
  shows "login sha1 secret now
           (JObj [(''hash'', JStr hash), (''chanelName'', JStr ch), (''instance_id'', JNum iid)])
         = ([Respond None,
             SetAuthToken \<lparr>tok = hash, exp_at = sec_now now + 120 * 60, chanelName = JStr ch,
               instance_id = iid, isChatToken = True, isVisitor = True, chanelNameChat = None\<rparr>], None)"
proof -
  have sp: "split_on CHR ''.'' hash
      = [sha1 (show_nat ts @ ''Visitor'' @ secret @ ''_'' @ chat_id), show_nat ts]"
    using h hex show_nat_no_char [of "CHR ''.''" ts] by (simp add: split_on_two is_digit_def)
  have num: "str_to_number (show_nat ts) = Fin (of_nat ts)"
    using ts by (rule str_to_number_show_nat)
  have lt: "(of_int (sec_now now - 60 * 60) :: rat) < of_nat ts"
    using fresh by (metis of_int_less_iff of_int_of_nat_eq)
  show ?thesis
    using lt ch
    by (simp add: login_def login_fields_def read_prop_def num_or_zero_def sp num Let_def
        visitor_input_def index_of_chat_def last_part_def visitor_exp_def)
qed

lemma issued_site_hash:
  assumes hex: "\<And>x. CHR ''.'' \<notin> set (sha1 x)"
    and fresh: "int ts > sec_now now - 60 * 60" and ts: "ts < 10 ^ 20" and ch: "\<not> occurs ''chat_'' ch"
    and h: "hash = sha1 (show_nat ts @ ''Visitor'' @ secret) @ ''.'' @ show_nat ts"
  shows "login sha1 secret now (JObj [(''hash'', JStr hash), (''chanelName'', JStr ch)])
         = ([Respond None,
             SetAuthToken \<lparr>tok = hash, exp_at = sec_now now + 120 * 60, chanelName = JStr ch,
               instance_id = Fin 0, isChatToken = False, isVisitor = True, chanelNameChat = None\<rparr>], None)"
proof -
  have sp: "split_on CHR ''.'' hash = [sha1 (show_nat ts @ ''Visitor'' @ secret), show_nat ts]"
    using h hex show_nat_no_char [of "CHR ''.''" ts] by (simp add: split_on_two is_digit_def)
  have num: "str_to_number (show_nat ts) = Fin (of_nat ts)"
    using ts by (rule str_to_number_show_nat)
  have lt: "(of_int (sec_now now - 60 * 60) :: rat) < of_nat ts"
    using fresh by (metis of_int_less_iff of_int_of_nat_eq)
  show ?thesis
    using lt ch
    by (simp add: login_def login_fields_def read_prop_def is_primitive_def num_or_zero_def sp num Let_def
        visitor_input_def index_of_chat_def last_part_def visitor_exp_def)
qed

text \<open>
  C5: A hash issued by the site (\<open>tokenvisitor.php\<close>: digest, dot, time stamp) logs a
  visitor in on any chat channel whose last part is the chat's id, with the chat and
  visitor flags set and the requested channel recorded.
\<close>

theorem login_accepts_issued_chat_hash:
  assumes hex: "\<And>x. CHR ''.'' \<notin> set (sha1 x)"
    and fresh: "int ts > sec_now now - 60 * 60" and ts: "ts < 10 ^ 20"
    and ch: "occurs ''chat_'' ch" "last (split_on CHR ''_'' ch) = chat_id"
    and h: "hash = sha1 (show_nat ts @ ''Visitor'' @ secret @ ''_'' @ chat_id) @ ''.'' @ show_nat ts"
  shows "login sha1 secret now
           (JObj [(''hash'', JStr hash), (''chanelName'', JStr ch), (''instance_id'', JNum iid)])
         = ([Respond None,
             SetAuthToken \<lparr>tok = hash, exp_at = sec_now now + 120 * 60, chanelName = JStr ch,
               instance_id = iid, isChatToken = True, isVisitor = True, chanelNameChat = None\<rparr>], None)"
  using assms by (rule issued_chat_hash)

theorem login_accepts_issued_chat_hash_witness:
  "login (\<lambda>x. map (\<lambda>_. CHR ''a'') x) ''s'' 0
     (JObj [(''hash'', JStr (''aaaaaaaaaaaa'' @ ''.'' @ ''7'')),
            (''chanelName'', JStr ''chat_3_12''), (''instance_id'', JNum (Fin 3))])
   = ([Respond None,
       SetAuthToken \<lparr>tok = ''aaaaaaaaaaaa.7'', exp_at = 7200, chanelName = JStr ''chat_3_12'',
         instance_id = Fin 3, isChatToken = True, isVisitor = True, chanelNameChat = None\<rparr>], None)"
proof -
  have s7: "show_nat 7 = ''7''" by (simp add: show_nat_digit digit_chr_def)
  have hex: "\<And>x. CHR ''.'' \<notin> set (map (\<lambda>_. CHR ''a'') x)" by auto
  show ?thesis
    using login_accepts_issued_chat_hash [where ?sha1.0 = "map (\<lambda>_. CHR ''a'')", OF hex, where now = 0 and ts = 7 and ch = "''chat_3_12''" and chat_id = "''12''"
        and hash = "''aaaaaaaaaaaa.7''" and secret = "''s''" and iid = "Fin 3"]
    by (simp add: s7)
qed

theorem login_token_sound_witness:
  "\<exists>stamp. signed_token (\<lambda>_. ''d'') ''s''
      \<lparr>tok = ''d.7'', exp_at = 7200, chanelName = JStr ''chat_1'', instance_id = Fin 0,
        isChatToken = True, isVisitor = True, chanelNameChat = None\<rparr> stamp"
proof -
  let ?t = "\<lparr>tok = ''d.7'', exp_at = 7200, chanelName = JStr ''chat_1'', instance_id = Fin 0,
        isChatToken = True, isVisitor = True, chanelNameChat = None\<rparr>"
  have n7: "str_to_number ''7'' = Fin 7"
    using str_to_number_show_nat [of 7] by (simp add: show_nat_digit digit_chr_def)
  let ?tok = "JObj [(''hash'', JStr ''d.7''), (''chanelName'', JStr ''chat_1'')]"
  have f: "login_fields ?tok = Inr (JStr ''d.7'', Fin 0)"
    by (simp add: login_fields_def read_prop_def is_primitive_def)
  have v: "visitor_input ''s'' ''7'' (JStr ''chat_1'') = Inr (''7Visitors_1'', True)"
    by (simp add: visitor_input_def index_of_chat_def last_part_def)
  have "?t \<in> set (granted (login (\<lambda>_. ''d'') ''s'' 0 ?tok))"
    by (simp add: login_def f Let_def n7 v visitor_exp_def outcome_views)
  from login_token_sound [OF this] show ?thesis by blast
qed

text \<open>
  C27: A login packet that any unauthenticated client can send throws out of the handler
  instead of being answered: a null hash, a packet that is a plain string, and a hash whose
  time stamp reads \<open>Infinity\<close> sent without a channel name (the freshness test accepts
  that time stamp whatever the clock says).
\<close>

theorem login_crashes_on_malformed_packet:
  "login sha1 secret now (JObj [(''hash'', JNull)]) = ([], Some TypeError)
   \<and> login sha1 secret now (JStr s) = ([], Some TypeError)
   \<and> login sha1 secret now (JObj [(''hash'', JStr ''x.Infinity'')]) = ([], Some TypeError)"
proof -
  have inf: "str_to_number ''Infinity'' = PInf"
    by (simp add: str_to_number_def trim_js_def is_space_js_def signed_literal_def)
  have 3: "login_fields (JObj [(''hash'', JStr ''x.Infinity'')]) = Inr (JStr ''x.Infinity'', Fin 0)"
    by (simp add: login_fields_def read_prop_def is_primitive_def)
  show ?thesis
    by (simp add: login_def 3 inf Let_def visitor_input_def index_of_chat_def)
      (simp add: login_fields_def read_prop_def is_primitive_def)
qed

text \<open>
  An instance id that is text is replaced by the number 0, wherever the login packet
  carries it: two installations that use different texts share the online-users channel
  \<open>ous_0\<close>.
\<close>

theorem text_instance_id_becomes_zero:
  "login_fields (JObj [(''hash'', JStr h), (''instance_id'', JStr a)]) = Inr (JStr h, Fin 0)
   \<and> login_fields (JObj [(''hash'', JObj [(''hash'', JStr h), (''instance_id'', JStr a)])])
       = Inr (JStr h, Fin 0)
   \<and> fst (ous_packet fmt (t\<lparr>instance_id := Fin 0, chanelName := JStr c\<rparr>) st)
       = [Publish ''ous_0'' (vi_online_vid st (last (split_on CHR ''_'' c)))]"
  by (simp add: login_fields_def read_prop_def num_or_zero_def is_primitive_def ous_packet_def
      last_part_def show_int_def show_nat_digit digit_chr_def)

subsection \<open>What a subscription is allowed\<close>

text \<open>
  A socket without a token is never allowed on a channel and nothing is announced for
  it, on subscription or on disconnection.
\<close>

theorem unauthenticated_socket_blocked:
  "on_subscribe fmt track None ch = (None, [Next (Some (unauthorized ch))], None)
   \<and> on_disconnect fmt track None = ([], None)"
  by (simp add: on_subscribe_def on_disconnect_def)

text \<open>
  For a visitor whose token is not a chat token, a subscription to a chat channel is
  reported to the library twice, first as blocked and then as allowed.
\<close>

theorem blocked_visitor_also_allowed:
  assumes "isVisitor t" and "\<not> isChatToken t" and "occurs ''chat_'' ch"
  shows "on_subscribe fmt track (Some t) ch
       = (Some t, [Next (Some (unauthorized ch)), Next None], None)"
  using assms by (simp add: on_subscribe_def)

theorem blocked_visitor_also_allowed_witness:
  "on_subscribe (\<lambda>_. ''?'') True (Some \<lparr>tok = ''d.7'', exp_at = 7200, chanelName = JStr ''uo_1'',
      instance_id = Fin 0, isChatToken = False, isVisitor = True, chanelNameChat = None\<rparr>) ''chat_5''
   = (Some \<lparr>tok = ''d.7'', exp_at = 7200, chanelName = JStr ''uo_1'',
      instance_id = Fin 0, isChatToken = False, isVisitor = True, chanelNameChat = None\<rparr>,
      [Next (Some (unauthorized ''chat_5'')), Next None], None)"
  by (rule blocked_visitor_also_allowed) simp_all

text \<open>
  A chat token opens every chat channel: the middleware allows a subscription to any
  channel whose name contains \<open>chat_\<close> and announces the visitor as online there, without
  comparing it with the channel the token was issued for.
\<close>

theorem chat_token_opens_any_chat:
  assumes "isVisitor t" and "isChatToken t" and "occurs ''chat_'' ch"
  shows "on_subscribe fmt track (Some t) ch
       = (Some (t\<lparr>chanelNameChat := Some ch\<rparr>), [Publish ch (vi_online True), Next None], None)
     \<and> on_subscribe fmt track (Some (t\<lparr>chanelName := other\<rparr>)) ch
       = (Some (t\<lparr>chanelName := other, chanelNameChat := Some ch\<rparr>),
          [Publish ch (vi_online True), Next None], None)"
  using assms by (simp add: on_subscribe_def)

theorem chat_token_opens_any_chat_witness:
  "fst (snd (on_subscribe (\<lambda>_. ''?'') True (Some \<lparr>tok = ''d.7'', exp_at = 7200, chanelName = JStr ''chat_1'',
      instance_id = Fin 0, isChatToken = True, isVisitor = True, chanelNameChat = None\<rparr>) ''chat_2''))
   = [Publish ''chat_2'' (vi_online True), Next None]"
  using chat_token_opens_any_chat [of "\<lparr>tok = ''d.7'', exp_at = 7200, chanelName = JStr ''chat_1'',
      instance_id = Fin 0, isChatToken = True, isVisitor = True, chanelNameChat = None\<rparr>" "''chat_2''"]
  by simp

text \<open>
  C10: Presence is symmetric: what the first allowed subscription of a socket announces as
  online, its disconnection announces as offline on the same channel, for the same visitor.
\<close>

theorem presence_symmetric:
  assumes fresh: "chanelNameChat t = None" and ne: "ch \<noteq> []"
    and sub: "on_subscribe fmt track (Some t) ch = (Some t', out)"
    and ok: "decisions out = [None]"
  shows "(published out = [] \<and> published (on_disconnect fmt track (Some t')) = [])
     \<or> (published out = [(ch, vi_online True)]
          \<and> published (on_disconnect fmt track (Some t')) = [(ch, vi_online False)])
     \<or> (\<exists>c vid. published out = [(c, vi_online_vid True vid)]
          \<and> published (on_disconnect fmt track (Some t')) = [(c, vi_online_vid False vid)])"
proof (cases "occurs ''chat_'' ch \<and> isVisitor t")
  case True
  show ?thesis
    using True sub ok ne
    by (auto simp: on_subscribe_def on_disconnect_def chat_joined_def outcome_views split: if_splits)
next
  case False
  show ?thesis
  proof (cases "isVisitor t \<and> track")
    case vt: True
    show ?thesis
      using vt False sub ok fresh
      by (cases "last_part (chanelName t)")
        (auto simp: on_subscribe_def on_disconnect_def chat_joined_def ous_packet_def outcome_views)
  next
    case False
    show ?thesis
      using False \<open>\<not> (occurs ''chat_'' ch \<and> isVisitor t)\<close> sub fresh
      by (auto simp: on_subscribe_def on_disconnect_def chat_joined_def outcome_views)
  qed
qed

theorem presence_symmetric_witness:
  "published (on_disconnect (\<lambda>_. ''?'') True (Some \<lparr>tok = ''d.7'', exp_at = 7200, chanelName = JStr ''uo_9'',
      instance_id = Fin 0, isChatToken = False, isVisitor = True, chanelNameChat = None\<rparr>))
   = [(''ous_0'', vi_online_vid False ''9'')]"
proof -
  let ?t = "\<lparr>tok = ''d.7'', exp_at = 7200, chanelName = JStr ''uo_9'',
      instance_id = Fin 0, isChatToken = False, isVisitor = True, chanelNameChat = None\<rparr>"
  have s: "on_subscribe (\<lambda>_. ''?'') True (Some ?t) ''uo_9''
      = (Some ?t, [Publish ''ous_0'' (vi_online_vid True ''9''), Next None], None)"
    by (simp add: on_subscribe_def ous_packet_def last_part_def show_int_def show_nat_digit digit_chr_def)
  show ?thesis
    using presence_symmetric [of ?t "''uo_9''", OF _ _ s]
    by (auto simp: outcome_views vi_online_vid_def vi_online_def on_disconnect_def chat_joined_def
        ous_packet_def last_part_def show_int_def show_nat_digit digit_chr_def)
qed

end
