(* ===== verification/Linked_List.thy ===== *)
theory Linked_List
  imports Prelude
begin

text \<open>
  The doubly linked list of the client's emit buffer (\<open>linked-list.js\<close> in the bundled
  \<open>socketcluster.js\<close>). Items and lists live in an explicit heap, so that the aliasing of
  \<open>next\<close>, \<open>prev\<close>, \<open>list\<close>, \<open>head\<close> and \<open>tail\<close> is the code's own. The
  representation predicate says which sequence of items a list holds; every operation is
  shown to be its counterpart on that sequence.
\<close>

subsection \<open>Heap and operations\<close>

record heap =
  nx :: "nat \<Rightarrow> nat option"
  pv :: "nat \<Rightarrow> nat option"
  ow :: "nat \<Rightarrow> nat option"
  hd_of :: "nat \<Rightarrow> nat option"
  tl_of :: "nat \<Rightarrow> nat option"

definition empty_heap :: heap where
  "empty_heap = \<lparr>nx = (\<lambda>_. None), pv = (\<lambda>_. None), ow = (\<lambda>_. None),
                 hd_of = (\<lambda>_. None), tl_of = (\<lambda>_. None)\<rparr>"

text \<open>
  An argument of \<open>append\<close> and \<open>prepend\<close>: a falsy value, a value without the item
  methods, or an item. The operations return false, throw, or return an item.
\<close>

datatype arg = Falsy | NotItem | Item nat

datatype ret = RFalse | RItem nat

type_synonym result = "exn + heap \<times> ret"

definition list_error :: "string \<Rightarrow> exn" where
  "list_error sfx = Thrown (JStr
     (''An argument without append, prepend, or detach methods was given to `List'' @ sfx))"

definition detach :: "heap \<Rightarrow> nat \<Rightarrow> heap" where
  "detach h self =
     (case ow h self of None \<Rightarrow> h
      | Some l \<Rightarrow>
          (let prev = pv h self; next = nx h self;
               h1 = (if tl_of h l = Some self then h\<lparr>tl_of := (tl_of h)(l := prev)\<rparr> else h);
               h2 = (if hd_of h1 l = Some self then h1\<lparr>hd_of := (hd_of h1)(l := next)\<rparr> else h1);
               h3 = (if tl_of h2 l = hd_of h2 l then h2\<lparr>tl_of := (tl_of h2)(l := None)\<rparr> else h2);
               h4 = (case prev of None \<Rightarrow> h3 | Some p \<Rightarrow> h3\<lparr>nx := (nx h3)(p := next)\<rparr>);
               h5 = (case next of None \<Rightarrow> h4 | Some n \<Rightarrow> h4\<lparr>pv := (pv h4)(n := prev)\<rparr>)
           in h5\<lparr>pv := (pv h5)(self := None), nx := (nx h5)(self := None),
                 ow := (ow h5)(self := None)\<rparr>))"

definition item_append :: "heap \<Rightarrow> nat \<Rightarrow> arg \<Rightarrow> result" where
  "item_append h self a =
     (case a of Falsy \<Rightarrow> Inl (list_error ''Item#append`.'')
      | NotItem \<Rightarrow> Inl (list_error ''Item#append`.'')
      | Item item \<Rightarrow>
          (case ow h self of None \<Rightarrow> Inr (h, RFalse)
           | Some l \<Rightarrow>
               (let next = nx h self;
                    h1 = detach h item;
                    h2 = (case next of None \<Rightarrow> h1
                          | Some n \<Rightarrow> h1\<lparr>nx := (nx h1)(item := Some n), pv := (pv h1)(n := Some item)\<rparr>);
                    h3 = h2\<lparr>pv := (pv h2)(item := Some self), ow := (ow h2)(item := Some l),
                            nx := (nx h2)(self := Some item)\<rparr>;
                    h4 = (if tl_of h3 l = Some self \<or> tl_of h3 l = None
                          then h3\<lparr>tl_of := (tl_of h3)(l := Some item)\<rparr> else h3)
                in Inr (h4, RItem item))))"

definition item_prepend :: "heap \<Rightarrow> nat \<Rightarrow> arg \<Rightarrow> result" where
  "item_prepend h self a =
     (case a of Falsy \<Rightarrow> Inl (list_error ''Item#prepend`.'')
      | NotItem \<Rightarrow> Inl (list_error ''Item#prepend`.'')
      | Item item \<Rightarrow>
          (case ow h self of None \<Rightarrow> Inr (h, RFalse)
           | Some l \<Rightarrow>
               (let prev = pv h self;
                    h1 = detach h item;
                    h2 = (case prev of None \<Rightarrow> h1
                          | Some p \<Rightarrow> h1\<lparr>pv := (pv h1)(item := Some p), nx := (nx h1)(p := Some item)\<rparr>);
                    h3 = h2\<lparr>nx := (nx h2)(item := Some self), ow := (ow h2)(item := Some l),
                            pv := (pv h2)(self := Some item)\<rparr>;
                    h4 = (if hd_of h3 l = Some self
                          then h3\<lparr>hd_of := (hd_of h3)(l := Some item)\<rparr> else h3);
                    h5 = (if tl_of h4 l = None
                          then h4\<lparr>tl_of := (tl_of h4)(l := Some self)\<rparr> else h4)
                in Inr (h5, RItem item))))"

text \<open>The first item of an empty list becomes its head; the tail stays null.\<close>

definition attach_first :: "heap \<Rightarrow> nat \<Rightarrow> nat \<Rightarrow> result" where
  "attach_first h l item =
     (let h1 = detach h item
      in Inr (h1\<lparr>ow := (ow h1)(item := Some l), hd_of := (hd_of h1)(l := Some item)\<rparr>, RItem item))"

definition list_append :: "heap \<Rightarrow> nat \<Rightarrow> arg \<Rightarrow> result" where
  "list_append h l a =
     (case a of Falsy \<Rightarrow> Inr (h, RFalse)
      | NotItem \<Rightarrow> Inl (list_error ''#append`.'')
      | Item item \<Rightarrow>
          (case tl_of h l of Some t \<Rightarrow> item_append h t a
           | None \<Rightarrow> (case hd_of h l of Some d \<Rightarrow> item_append h d a
                      | None \<Rightarrow> attach_first h l item)))"

definition list_prepend :: "heap \<Rightarrow> nat \<Rightarrow> arg \<Rightarrow> result" where
  "list_prepend h l a =
     (case a of Falsy \<Rightarrow> Inr (h, RFalse)
      | NotItem \<Rightarrow> Inl (list_error ''#prepend`.'')
      | Item item \<Rightarrow>
          (case hd_of h l of Some d \<Rightarrow> item_prepend h d a
           | None \<Rightarrow> attach_first h l item))"

text \<open>\<open>toArray\<close>: the walk along \<open>next\<close>; None when the fuel runs out.\<close>

fun walk :: "nat \<Rightarrow> heap \<Rightarrow> nat option \<Rightarrow> nat list option" where
  "walk _ h None = Some []"
| "walk 0 h (Some x) = None"
| "walk (Suc f) h (Some x) = map_option ((#) x) (walk f h (nx h x))"

definition to_array :: "nat \<Rightarrow> heap \<Rightarrow> nat \<Rightarrow> nat list option" where
  "to_array fuel h l = walk fuel h (hd_of h l)"

text \<open>\<open>List.from\<close>: null and undefined entries (here Falsy) are skipped.\<close>

fun list_from :: "heap \<Rightarrow> nat \<Rightarrow> arg list \<Rightarrow> exn + heap" where
  "list_from h l [] = Inr h"
| "list_from h l (Falsy # as) = list_from h l as"
| "list_from h l (a # as) =
     (case list_append h l a of Inl e \<Rightarrow> Inl e | Inr (h', _) \<Rightarrow> list_from h' l as)"

subsection \<open>Segments\<close>

definition hd_opt :: "nat list \<Rightarrow> nat option \<Rightarrow> nat option" where
  "hd_opt xs d = (case xs of [] \<Rightarrow> d | x # _ \<Rightarrow> Some x)"

definition last_opt :: "nat list \<Rightarrow> nat option \<Rightarrow> nat option" where
  "last_opt xs d = (if xs = [] then d else Some (last xs))"

lemma hd_opt_simps [simp]: "hd_opt [] d = d" "hd_opt (x # xs) d = Some x"
  by (simp_all add: hd_opt_def)

lemma last_opt_simps [simp]:
  "last_opt [] d = d" "last_opt (x # xs) d = last_opt xs (Some x)" "last_opt (xs @ [x]) d = Some x"
  by (simp_all add: last_opt_def)

lemma hd_opt_append [simp]: "hd_opt (xs @ ys) d = hd_opt xs (hd_opt ys d)"
  by (cases xs) simp_all

text \<open>\<open>seg h p xs n\<close>: the items \<open>xs\<close> are linked both ways, between \<open>p\<close> and \<open>n\<close>.\<close>

fun seg :: "heap \<Rightarrow> nat option \<Rightarrow> nat list \<Rightarrow> nat option \<Rightarrow> bool" where
  "seg h p [] n = True"
| "seg h p (x # xs) n = (pv h x = p \<and> nx h x = hd_opt xs n \<and> seg h (Some x) xs n)"

lemma seg_append:
  "seg h p (xs @ ys) n \<longleftrightarrow> seg h p xs (hd_opt ys n) \<and> seg h (last_opt xs p) ys n"
  by (induction xs arbitrary: p) auto

lemma seg_cong:
  assumes "\<And>x. x \<in> set xs \<Longrightarrow> nx h' x = nx h x \<and> pv h' x = pv h x"
  shows "seg h' p xs n = seg h p xs n"
  using assms by (induction xs arbitrary: p) auto

text \<open>Relinking the last item forwards and the first item backwards.\<close>

lemma seg_relink_last:
  assumes "seg h p (xs @ [y]) n" and "y \<notin> set xs"
    and "\<And>x. x \<in> set (xs @ [y]) \<Longrightarrow> pv h' x = pv h x"
    and "\<And>x. x \<in> set xs \<Longrightarrow> nx h' x = nx h x" and "nx h' y = m"
  shows "seg h' p (xs @ [y]) m"
proof -
  have "seg h' p xs (Some y)"
    using assms by (subst seg_cong [of xs h' h]) (auto simp: seg_append)
  with assms show ?thesis by (auto simp: seg_append)
qed

lemma seg_relink_first:
  assumes "seg h p (y # ys) n" and "y \<notin> set ys"
    and "\<And>x. x \<in> set (y # ys) \<Longrightarrow> nx h' x = nx h x"
    and "\<And>x. x \<in> set ys \<Longrightarrow> pv h' x = pv h x" and "pv h' y = q"
  shows "seg h' q (y # ys) n"
  using assms seg_cong [of ys h' h] by auto

subsection \<open>Representation\<close>

definition tail_of :: "nat list \<Rightarrow> nat option" where
  "tail_of xs = (if length xs \<le> 1 then None else Some (last xs))"

definition detached :: "heap \<Rightarrow> nat \<Rightarrow> bool" where
  "detached h x \<longleftrightarrow> ow h x = None \<and> nx h x = None \<and> pv h x = None"

definition holds :: "heap \<Rightarrow> nat \<Rightarrow> nat list \<Rightarrow> bool" where
  "holds h l xs \<longleftrightarrow> distinct xs \<and> seg h None xs None
     \<and> hd_of h l = hd_opt xs None \<and> tl_of h l = tail_of xs
     \<and> (\<forall>x. ow h x = Some l \<longleftrightarrow> x \<in> set xs)"

lemma detach_detached [simp]: "detached h x \<Longrightarrow> detach h x = h"
  by (simp add: detach_def detached_def)

lemma holds_empty: "holds empty_heap l []"
  by (simp add: holds_def empty_heap_def tail_of_def)

text \<open>Everything an operation on list \<open>l\<close> leaves alone.\<close>

definition same_outside :: "nat set \<Rightarrow> nat \<Rightarrow> heap \<Rightarrow> heap \<Rightarrow> bool" where
  "same_outside X l h h' \<longleftrightarrow>
     (\<forall>x. x \<notin> X \<longrightarrow> nx h' x = nx h x \<and> pv h' x = pv h x \<and> ow h' x = ow h x)
     \<and> (\<forall>k. k \<noteq> l \<longrightarrow> hd_of h' k = hd_of h k \<and> tl_of h' k = tl_of h k)"

lemma tail_of_append2 [simp]: "tail_of (xs @ [y, z]) = Some z"
  by (simp add: tail_of_def)

lemma tail_of_Cons_append [simp]: "tail_of (x # xs @ [y]) = Some y"
  by (simp add: tail_of_def)

lemma tail_of_simps [simp]: "tail_of [] = None" "tail_of [x] = None"
    "tail_of (x # y # zs) = Some (last (y # zs))"
  by (simp_all add: tail_of_def)

lemma tail_of_snoc: "xs \<noteq> [] \<Longrightarrow> tail_of (xs @ [x]) = Some x"
  by (cases xs) (auto simp: tail_of_def)

text \<open>\<open>detach\<close> of an item of the list, by where the item stands.\<close>

lemma detach_fields:
  assumes "holds h l (as @ s # bs)"
  shows "nx (detach h s) = (let n1 = (case last_opt as None of None \<Rightarrow> nx h | Some p \<Rightarrow> (nx h)(p := hd_opt bs None))
                            in n1(s := None))"
    and "pv (detach h s) = (let p1 = (case hd_opt bs None of None \<Rightarrow> pv h | Some n \<Rightarrow> (pv h)(n := last_opt as None))
                            in p1(s := None))"
    and "ow (detach h s) = (ow h)(s := None)"
    and "hd_of (detach h s) = (hd_of h)(l := hd_opt (as @ bs) None)"
    and "tl_of (detach h s) = (tl_of h)(l := tail_of (as @ bs))"
proof -
  from assms have D: "distinct (as @ s # bs)" and S: "seg h None (as @ s # bs) None"
    and H: "hd_of h l = hd_opt (as @ s # bs) None" and T: "tl_of h l = tail_of (as @ s # bs)"
    and O: "ow h s = Some l"
    by (auto simp: holds_def)
  from S have ps: "pv h s = last_opt as None" and ns: "nx h s = hd_opt bs None"
    by (auto simp: seg_append)
  show "nx (detach h s) = (let n1 = (case last_opt as None of None \<Rightarrow> nx h | Some p \<Rightarrow> (nx h)(p := hd_opt bs None))
                            in n1(s := None))"
    "pv (detach h s) = (let p1 = (case hd_opt bs None of None \<Rightarrow> pv h | Some n \<Rightarrow> (pv h)(n := last_opt as None))
                            in p1(s := None))"
    "ow (detach h s) = (ow h)(s := None)"
    using O ps ns by (auto simp: detach_def Let_def split: option.splits)
  have hd: "hd_of (detach h s) l = hd_opt (as @ bs) None"
    using O ps ns H D
    by (cases as) (auto simp: detach_def Let_def split: option.splits)
  have tl: "tl_of (detach h s) l = tail_of (as @ bs)"
  proof (cases "bs = []")
    case True
    then show ?thesis using O ps ns H T D
      by (cases as rule: rev_cases; cases "butlast as")
        (auto simp: detach_def Let_def last_opt_def tail_of_def hd_opt_def split: option.splits list.splits)
  next
    case False
    then have l: "last (as @ s # bs) = last bs" "last bs \<noteq> s" using D by auto
    then have t: "tl_of h l = Some (last bs)" using T False by (simp add: tail_of_def)
    show ?thesis
      using O ps ns H t D l False
      by (cases as; cases bs rule: rev_cases)
        (auto simp: detach_def Let_def tail_of_def hd_opt_def append_eq_Cons_conv
          split: option.splits list.splits)
  qed
  have other: "hd_of (detach h s) k = hd_of h k \<and> tl_of (detach h s) k = tl_of h k" if "k \<noteq> l" for k
    using O that by (auto simp: detach_def Let_def split: option.splits)
  show "hd_of (detach h s) = (hd_of h)(l := hd_opt (as @ bs) None)"
    and "tl_of (detach h s) = (tl_of h)(l := tail_of (as @ bs))"
    using hd tl other by (auto simp: fun_eq_iff)
qed

lemma detach_same_outside:
  assumes "holds h l (as @ s # bs)"
  shows "same_outside (set (as @ s # bs)) l h (detach h s)"
  using detach_fields [OF assms]
  by (auto simp: same_outside_def Let_def last_opt_def hd_opt_def split: option.splits list.splits)

lemma detach_holds:
  assumes "holds h l (as @ s # bs)"
  shows "holds (detach h s) l (as @ bs) \<and> detached (detach h s) s"
proof
  let ?h = "detach h s"
  note F = detach_fields [OF assms]
  from assms have D: "distinct (as @ s # bs)" and S: "seg h None (as @ s # bs) None"
    by (auto simp: holds_def)
  have S1: "seg ?h None as (hd_opt bs None)"
  proof (cases as rule: rev_cases)
    case Nil
    then show ?thesis by simp
  next
    case (snoc as' p)
    have "seg h None (as' @ [p]) (Some s)" using S snoc by (simp add: seg_append)
    then show ?thesis unfolding snoc
      by (rule seg_relink_last) (use D snoc F in \<open>auto simp: Let_def hd_opt_def split: option.splits list.splits\<close>)
  qed
  have S2: "seg ?h (last_opt as None) bs None"
  proof (cases bs)
    case Nil
    then show ?thesis by simp
  next
    case (Cons n bs')
    have "seg h (Some s) (n # bs') None" using S Cons by (simp add: seg_append)
    moreover have "nx ?h y = nx h y" if "y \<in> set bs" for y
      using F(1) D that by (cases as rule: rev_cases) (auto simp: Let_def last_opt_def)
    moreover have "pv ?h y = pv h y" if "y \<in> set bs'" for y
      using F(2) D that Cons by (auto simp: Let_def)
    moreover have "pv ?h n = last_opt as None" and "n \<notin> set bs'"
      using F(2) D Cons by (auto simp: Let_def)
    ultimately show ?thesis using Cons seg_cong [of bs' ?h h] by auto
  qed
  show "holds ?h l (as @ bs)"
    using D S1 S2 F assms by (auto simp: holds_def seg_append)
  show "detached ?h s" using F by (simp add: detached_def Let_def)
qed

lemma item_append_holds:
  assumes H: "holds h l (as @ s # bs)" and x: "detached h x" "x \<notin> set (as @ s # bs)"
  shows "\<exists>h'. item_append h s (Item x) = Inr (h', RItem x) \<and> holds h' l (as @ s # x # bs)
       \<and> same_outside (insert x (set (as @ s # bs))) l h h'"
proof -
  from H have D: "distinct (as @ s # bs)" and S: "seg h None (as @ s # bs) None"
    and Hd: "hd_of h l = hd_opt (as @ s # bs) None" and T: "tl_of h l = tail_of (as @ s # bs)"
    and O: "ow h s = Some l" and own: "\<And>y. ow h y = Some l \<longleftrightarrow> y \<in> set (as @ s # bs)"
    by (auto simp: holds_def)
  from S have ns: "nx h s = hd_opt bs None" by (simp add: seg_append)
  let ?nx = "(case hd_opt bs None of None \<Rightarrow> nx h | Some n \<Rightarrow> (nx h)(x := Some n))(s := Some x)"
  let ?pv = "(case hd_opt bs None of None \<Rightarrow> pv h | Some n \<Rightarrow> (pv h)(n := Some x))(x := Some s)"
  let ?tl = "if tl_of h l = Some s \<or> tl_of h l = None then (tl_of h)(l := Some x) else tl_of h"
  let ?h = "\<lparr>nx = ?nx, pv = ?pv, ow = (ow h)(x := Some l), hd_of = hd_of h, tl_of = ?tl\<rparr>"
  have eq: "item_append h s (Item x) = Inr (?h, RItem x)"
    using O ns x by (auto simp: item_append_def Let_def split: option.splits)
  have Sa: "seg ?h None (as @ [s]) (Some x)"
  proof (rule seg_relink_last)
    show "seg h None (as @ [s]) (hd_opt bs None)" using S by (simp add: seg_append)
  qed (use D x in \<open>auto simp: hd_opt_def split: option.splits list.splits\<close>)
  have Sb: "seg ?h (Some x) bs None"
  proof (cases bs)
    case Nil
    then show ?thesis by simp
  next
    case (Cons n bs')
    have "seg h (Some s) (n # bs') None" using S Cons by (simp add: seg_append)
    then show ?thesis unfolding Cons
      by (rule seg_relink_first) (use D Cons x in auto)
  qed
  have "seg ?h None (as @ s # x # bs) None"
    using Sa Sb x D by (auto simp: seg_append detached_def hd_opt_def split: list.splits)
  moreover have "?tl l = tail_of (as @ s # x # bs)"
    using T D by (cases as; cases bs) (auto simp: tail_of_def)
  ultimately have "holds ?h l (as @ s # x # bs)"
    using D x Hd own by (auto simp: holds_def)
  moreover have "same_outside (insert x (set (as @ s # bs))) l h ?h"
    by (auto simp: same_outside_def hd_opt_def split: list.splits)
  ultimately show ?thesis using eq by blast
qed

lemma item_prepend_holds:
  assumes H: "holds h l (as @ s # bs)" and x: "detached h x" "x \<notin> set (as @ s # bs)"
  shows "\<exists>h'. item_prepend h s (Item x) = Inr (h', RItem x) \<and> holds h' l (as @ x # s # bs)
       \<and> same_outside (insert x (set (as @ s # bs))) l h h'"
proof -
  from H have D: "distinct (as @ s # bs)" and S: "seg h None (as @ s # bs) None"
    and Hd: "hd_of h l = hd_opt (as @ s # bs) None" and T: "tl_of h l = tail_of (as @ s # bs)"
    and O: "ow h s = Some l" and own: "\<And>y. ow h y = Some l \<longleftrightarrow> y \<in> set (as @ s # bs)"
    by (auto simp: holds_def)
  from S have ps: "pv h s = last_opt as None" by (simp add: seg_append)
  let ?nx = "(case last_opt as None of None \<Rightarrow> nx h | Some p \<Rightarrow> (nx h)(p := Some x))(x := Some s)"
  let ?pv = "(case last_opt as None of None \<Rightarrow> pv h | Some p \<Rightarrow> (pv h)(x := Some p))(s := Some x)"
  let ?hd = "if hd_of h l = Some s then (hd_of h)(l := Some x) else hd_of h"
  let ?tl = "if tl_of h l = None then (tl_of h)(l := Some s) else tl_of h"
  let ?h = "\<lparr>nx = ?nx, pv = ?pv, ow = (ow h)(x := Some l), hd_of = ?hd, tl_of = ?tl\<rparr>"
  have eq: "item_prepend h s (Item x) = Inr (?h, RItem x)"
    using O ps x by (auto simp: item_prepend_def Let_def split: option.splits)
  have Sb: "seg ?h (Some x) (s # bs) None"
  proof (rule seg_relink_first)
    show "seg h (last_opt as None) (s # bs) None" using S by (simp add: seg_append)
  next
    fix y assume y: "y \<in> set (s # bs)"
    have "last_opt as None = None \<or> (\<exists>p \<in> set as. last_opt as None = Some p)"
      by (auto simp: last_opt_def)
    then show "nx ?h y = nx h y" using D x y by auto
  qed (use D x in \<open>auto simp: last_opt_def\<close>)
  have Sa: "seg ?h None as (Some x)"
  proof (cases as rule: rev_cases)
    case Nil
    then show ?thesis by simp
  next
    case (snoc as' p)
    have "seg h None (as' @ [p]) (Some s)" using S snoc by (simp add: seg_append)
    then show ?thesis unfolding snoc
      by (rule seg_relink_last) (use D snoc x in auto)
  qed
  have "?nx x = Some s" "?pv x = last_opt as None"
    using x D by (auto simp: detached_def last_opt_def split: option.splits)
  with Sa Sb have "seg ?h None (as @ x # s # bs) None" by (simp add: seg_append)
  moreover have "?hd l = hd_opt (as @ x # s # bs) None"
    using Hd D by (cases as) auto
  moreover have "?tl l = tail_of (as @ x # s # bs)"
    using T D by (cases as; cases bs) (auto simp: tail_of_def)
  ultimately have "holds ?h l (as @ x # s # bs)"
    using D x own by (auto simp: holds_def)
  moreover have "same_outside (insert x (set (as @ s # bs))) l h ?h"
    by (auto simp: same_outside_def last_opt_def)
  ultimately show ?thesis using eq by blast
qed

lemma attach_first_holds:
  assumes "holds h l []" and "detached h x"
  shows "\<exists>h'. attach_first h l x = Inr (h', RItem x) \<and> holds h' l [x] \<and> same_outside {x} l h h'"
  using assms by (auto simp: attach_first_def holds_def same_outside_def detached_def tail_of_def)

lemma fresh_not_in: "holds h l xs \<Longrightarrow> detached h x \<Longrightarrow> x \<notin> set xs"
  unfolding holds_def detached_def by (metis option.distinct(1))

text \<open>
  \<open>append\<close> of a detached item puts it at the end of the sequence the list holds,
  returns it, and changes no item outside the list and no other list.
\<close>

lemma append_end_holds:
  assumes H: "holds h l xs" and x: "detached h x"
  shows "\<exists>h'. list_append h l (Item x) = Inr (h', RItem x) \<and> holds h' l (xs @ [x])
       \<and> same_outside (insert x (set xs)) l h h'"
proof (cases xs rule: rev_cases)
  case Nil
  then show ?thesis
    using H attach_first_holds [OF _ x, of l] by (auto simp: list_append_def holds_def)
next
  case (snoc as s)
  have eq: "list_append h l (Item x) = item_append h s (Item x)"
    using H snoc by (cases as) (auto simp: list_append_def holds_def tail_of_def)
  show ?thesis
    using item_append_holds [of h l as s "[]" x] H x fresh_not_in [OF H x]
    by (simp add: eq snoc)
qed

text \<open>
  \<open>prepend\<close> of a detached item puts it at the front of the sequence.
\<close>

lemma prepend_front_holds:
  assumes H: "holds h l xs" and x: "detached h x"
  shows "\<exists>h'. list_prepend h l (Item x) = Inr (h', RItem x) \<and> holds h' l (x # xs)
       \<and> same_outside (insert x (set xs)) l h h'"
proof (cases xs)
  case Nil
  then show ?thesis
    using H attach_first_holds [OF _ x, of l] by (auto simp: list_prepend_def holds_def)
next
  case (Cons s bs)
  have eq: "list_prepend h l (Item x) = item_prepend h s (Item x)"
    using H Cons by (auto simp: list_prepend_def holds_def)
  show ?thesis
    using item_prepend_holds [of h l "[]" s bs x] H x fresh_not_in [OF H x]
    by (simp add: eq Cons)
qed

lemma remove1_split: "distinct (as @ s # bs) \<Longrightarrow> remove1 s (as @ s # bs) = as @ bs"
  by (simp add: remove1_append)

text \<open>
  \<open>detach\<close> of an item of the list removes exactly that item from the sequence,
  leaves the item without neighbours or owner, and changes nothing outside the list.
\<close>

lemma detach_removes_item:
  assumes H: "holds h l xs" and s: "s \<in> set xs"
  shows "holds (detach h s) l (remove1 s xs) \<and> detached (detach h s) s
       \<and> same_outside (set xs) l h (detach h s)"
proof -
  from s obtain as bs where xs: "xs = as @ s # bs" by (meson split_list)
  have "distinct (as @ s # bs)" using H xs by (simp add: holds_def)
  then have r: "remove1 s xs = as @ bs" using remove1_split xs by simp
  show ?thesis
    using detach_holds [OF H [unfolded xs]] detach_same_outside [OF H [unfolded xs]] r xs by simp
qed

lemma walk_seg: "seg h p xs None \<Longrightarrow> length xs \<le> f \<Longrightarrow> walk f h (hd_opt xs None) = Some xs"
proof (induction xs arbitrary: p f)
  case Nil
  then show ?case by simp
next
  case (Cons x xs)
  then obtain g where f: "f = Suc g" by (cases f) auto
  from Cons.prems have "seg h (Some x) xs None" "length xs \<le> g" "nx h x = hd_opt xs None"
    using f by auto
  with Cons.IH [of "Some x" g] f show ?case by simp
qed

lemma to_array_holds: "holds h l xs \<Longrightarrow> to_array (length xs) h l = Some xs"
  using walk_seg [of h None xs "length xs"] by (simp add: to_array_def holds_def)

text \<open>
  C34: Inserting a detached item into a list that holds the sequence xs: \<open>append\<close> puts it at
  the end and \<open>prepend\<close> at the front, each returns the item, \<open>toArray\<close> then returns the new
  sequence within as many steps as it has items, and no item outside the list and no other
  list changes.
\<close>

theorem list_insertions:
  assumes "holds h l xs" and "detached h x"
  shows "(\<exists>h1. list_append h l (Item x) = Inr (h1, RItem x) \<and> holds h1 l (xs @ [x])
            \<and> to_array (Suc (length xs)) h1 l = Some (xs @ [x]) \<and> same_outside (insert x (set xs)) l h h1)
       \<and> (\<exists>h2. list_prepend h l (Item x) = Inr (h2, RItem x) \<and> holds h2 l (x # xs)
            \<and> to_array (Suc (length xs)) h2 l = Some (x # xs) \<and> same_outside (insert x (set xs)) l h h2)"
  using append_end_holds [OF assms] prepend_front_holds [OF assms]
    to_array_holds [of _ l "xs @ [x]"] to_array_holds [of _ l "x # xs"] by fastforce

text \<open>
  \<open>detach\<close> of an item removes exactly that item from the sequence its list holds,
  wherever it stands, leaves it without neighbours and owner, so that it can be inserted
  again, and changes nothing outside the list; detaching it again changes nothing.
\<close>

theorem detach_removes:
  assumes "holds h l xs" and "s \<in> set xs"
  shows "holds (detach h s) l (remove1 s xs) \<and> detached (detach h s) s
       \<and> same_outside (set xs) l h (detach h s) \<and> detach (detach h s) s = detach h s"
  using detach_removes_item [OF assms] by simp

lemma holds_singletons:
  "holds (empty_heap\<lparr>ow := (\<lambda>_. None)(1 := Some 0), hd_of := (\<lambda>_. None)(0 := Some 1)\<rparr>) 0 [1]"
  by (simp add: holds_def empty_heap_def tail_of_def)

theorem list_insertions_witness:
  "\<exists>h1 h2. list_append (empty_heap\<lparr>ow := (\<lambda>_. None)(1 := Some 0), hd_of := (\<lambda>_. None)(0 := Some 1)\<rparr>)
          0 (Item 2) = Inr (h1, RItem 2) \<and> to_array 2 h1 0 = Some [1, 2]
     \<and> list_prepend (empty_heap\<lparr>ow := (\<lambda>_. None)(1 := Some 0), hd_of := (\<lambda>_. None)(0 := Some 1)\<rparr>)
          0 (Item 2) = Inr (h2, RItem 2) \<and> to_array 2 h2 0 = Some [2, 1]"
  using list_insertions [OF holds_singletons, of 2]
  by (auto simp: detached_def empty_heap_def numeral_2_eq_2)

theorem detach_removes_witness:
  "holds (detach (empty_heap\<lparr>ow := (\<lambda>_. None)(1 := Some 0), hd_of := (\<lambda>_. None)(0 := Some 1)\<rparr>) 1) 0 []"
  using detach_removes [OF holds_singletons, of 1] by simp

lemma walk_cycle: "nx h x = Some x \<Longrightarrow> walk f h (Some x) = None"
  by (induction f) simp_all

text \<open>
  Appending, after an item, the very item that already follows it ties that item to
  itself: the walk of \<open>toArray\<close> over the list then never ends. (\<open>append\<close> reads the next
  item before it detaches its argument.)
\<close>

theorem reappending_successor_loops:
  assumes "holds h l [a, b]"
  shows "\<exists>h'. item_append h a (Item b) = Inr (h', RItem b) \<and> nx h' b = Some b
       \<and> (\<forall>fuel. to_array fuel h' l = None)"
proof -
  note F = detach_fields [of h l "[a]" b "[]", simplified, OF assms]
  from assms have ab: "a \<noteq> b" and o: "ow h a = Some l" and n: "nx h a = Some b"
    by (auto simp: holds_def)
  obtain h' where h': "item_append h a (Item b) = Inr (h', RItem b)"
    and nb: "nx h' b = Some b" and na: "nx h' a = Some b" and hd: "hd_of h' l = Some a"
    using o n ab F by (auto simp: item_append_def Let_def)
  have "walk fuel h' (Some a) = None" for fuel
    using walk_cycle [OF nb] na by (cases fuel) auto
  with h' nb hd show ?thesis by (auto simp: to_array_def)
qed

lemma holds_pair:
  "holds \<lparr>nx = (\<lambda>_. None)(1 := Some 2), pv = (\<lambda>_. None)(2 := Some 1),
          ow = (\<lambda>_. None)(1 := Some 0, 2 := Some 0), hd_of = (\<lambda>_. None)(0 := Some 1),
          tl_of = (\<lambda>_. None)(0 := Some 2)\<rparr> 0 [1, 2]"
  by (auto simp: holds_def tail_of_def)

theorem reappending_successor_loops_witness:
  "\<exists>h'. item_append \<lparr>nx = (\<lambda>_. None)(1 := Some 2), pv = (\<lambda>_. None)(2 := Some 1),
          ow = (\<lambda>_. None)(1 := Some 0, 2 := Some 0), hd_of = (\<lambda>_. None)(0 := Some 1),
          tl_of = (\<lambda>_. None)(0 := Some 2)\<rparr> 1 (Item 2) = Inr (h', RItem 2)
       \<and> (\<forall>fuel. to_array fuel h' 0 = None)"
  using reappending_successor_loops [OF holds_pair] by blast

subsection \<open>The queue contract\<close>

text \<open>
  What the emit buffer's client relies on: fresh elements are added at the end, an element
  can be removed from any place, and nothing else of the sequence changes.
\<close>

locale removable_queue =
  fixes rep :: "'s \<Rightarrow> 'x list \<Rightarrow> bool"
    and fresh :: "'s \<Rightarrow> 'x \<Rightarrow> bool"
    and add :: "'s \<Rightarrow> 'x \<Rightarrow> 's"
    and remove :: "'s \<Rightarrow> 'x \<Rightarrow> 's"
  assumes rep_distinct: "rep s xs \<Longrightarrow> distinct xs"
    and fresh_out: "rep s xs \<Longrightarrow> fresh s x \<Longrightarrow> x \<notin> set xs"
    and rep_add: "rep s xs \<Longrightarrow> fresh s x \<Longrightarrow> rep (add s x) (xs @ [x])"
    and fresh_add: "rep s xs \<Longrightarrow> fresh s x \<Longrightarrow> fresh s y \<Longrightarrow> y \<noteq> x \<Longrightarrow> fresh (add s x) y"
    and rep_remove: "rep s xs \<Longrightarrow> x \<in> set xs \<Longrightarrow> rep (remove s x) (remove1 x xs)"
    and fresh_remove: "rep s xs \<Longrightarrow> x \<in> set xs \<Longrightarrow> fresh (remove s x) x"
    and remove_fresh: "fresh s x \<Longrightarrow> remove s x = s"
begin

lemma add_all:
  "rep s xs \<Longrightarrow> distinct ys \<Longrightarrow> (\<And>y. y \<in> set ys \<Longrightarrow> fresh s y) \<Longrightarrow> rep (fold (\<lambda>y s. add s y) ys s) (xs @ ys)"
proof (induction ys arbitrary: s xs)
  case Nil
  then show ?case by simp
next
  case (Cons y ys)
  have r: "rep (add s y) (xs @ [y])" using Cons.prems by (simp add: rep_add)
  have f: "fresh (add s y) z" if "z \<in> set ys" for z
    using Cons.prems that by (metis distinct.simps(2) fresh_add list.set_intros(1,2))
  have "rep (fold (\<lambda>y s. add s y) ys (add s y)) ((xs @ [y]) @ ys)"
    by (rule Cons.IH [OF r]) (use Cons.prems(2) f in auto)
  then show ?case by simp
qed

lemma drain: "rep s (xs @ ys) \<Longrightarrow> rep (fold (\<lambda>x s. remove s x) xs s) ys"
proof (induction xs arbitrary: s)
  case Nil
  then show ?case by simp
next
  case (Cons x xs)
  then have "rep (remove s x) (xs @ ys)" using rep_remove [of s "x # xs @ ys" x] by simp
  then show ?case using Cons.IH by simp
qed

lemma remove_idem: "rep s xs \<Longrightarrow> x \<in> set xs \<Longrightarrow> remove (remove s x) x = remove s x"
  by (simp add: fresh_remove remove_fresh)

end

definition add_item :: "heap \<Rightarrow> nat \<Rightarrow> heap" where
  "add_item h x = (case list_append h 0 (Item x) of Inr (h', _) \<Rightarrow> h' | Inl _ \<Rightarrow> h)"

interpretation buffer: removable_queue "\<lambda>h. holds h 0" detached add_item detach
proof
  fix h xs x y
  assume H: "holds h 0 xs" and x: "detached h x"
  obtain h' where a: "add_item h x = h'" "holds h' 0 (xs @ [x])"
      and s: "same_outside (insert x (set xs)) 0 h h'"
    using append_end_holds [OF H x] by (auto simp: add_item_def)
  show "holds (add_item h x) 0 (xs @ [x])" using a by simp
  assume y: "detached h y" "y \<noteq> x"
  show "detached (add_item h x) y"
    using s y fresh_not_in [OF H y(1)] unfolding a(1) same_outside_def detached_def by auto
next
  fix h xs x
  show "holds h 0 xs \<Longrightarrow> distinct xs" by (simp add: holds_def)
  show "holds h 0 xs \<Longrightarrow> detached h x \<Longrightarrow> x \<notin> set xs" by (rule fresh_not_in)
  show "holds h 0 xs \<Longrightarrow> x \<in> set xs \<Longrightarrow> holds (detach h x) 0 (remove1 x xs)"
    and "holds h 0 xs \<Longrightarrow> x \<in> set xs \<Longrightarrow> detached (detach h x) x"
    using detach_removes_item [of h 0 xs x] by auto
  show "detached h x \<Longrightarrow> detach h x = h" by simp
qed

text \<open>
  The emit buffer is a queue: distinct items appended to an empty list are held in the
  order of their appends, and detaching them from the front in that order empties it.
\<close>

theorem buffer_is_fifo:
  assumes "distinct ys"
  shows "to_array (length ys) (fold (\<lambda>y h. add_item h y) ys empty_heap) 0 = Some ys
       \<and> holds (fold (\<lambda>y h. detach h y) ys (fold (\<lambda>y h. add_item h y) ys empty_heap)) 0 []"
proof -
  have f: "\<And>y. y \<in> set ys \<Longrightarrow> detached empty_heap y" by (simp add: detached_def empty_heap_def)
  have "holds (fold (\<lambda>y h. add_item h y) ys empty_heap) 0 ([] @ ys)"
    by (rule buffer.add_all [OF holds_empty assms f])
  then have h: "holds (fold (\<lambda>y h. add_item h y) ys empty_heap) 0 (ys @ [])" by simp
  have "seg (fold (\<lambda>y h. add_item h y) ys empty_heap) None ys None" 
    and "hd_of (fold (\<lambda>y h. add_item h y) ys empty_heap) 0 = hd_opt ys None"
    using h by (simp_all add: holds_def)
  then show ?thesis
    using buffer.drain [OF h] walk_seg [of _ None ys "length ys"] by (simp add: to_array_def)
qed

theorem buffer_is_fifo_witness:
  "to_array 3 (fold (\<lambda>y h. add_item h y) [4, 2, 9] empty_heap) 0 = Some [4, 2, 9]"
  using buffer_is_fifo [of "[4, 2, 9]"] by (simp add: numeral_3_eq_3)

end
