(* ===== verification/Base64.thy ===== *)
theory Base64
  imports Prelude "HOL-Library.Word"
begin

unbundle bit_operations_syntax

text \<open>
  The three base64 codecs in the bundle: \<open>base64-js\<close> (module 9, used by the Buffer that
  decodes authentication tokens), \<open>base-64\<close> (module 8, the fallback of
  \<open>encodeBase64\<close>/\<open>decodeBase64\<close>) and \<open>arrayBufferToBase64\<close> of the packet formatter
  (module 22). Bytes are 8-bit words; the shifts and masks are those of the code, on
  naturals, since no intermediate value exceeds 24 bits. All three encoders are shown equal
  to one recursive reference and both decoders its left inverse.
\<close>

subsection \<open>Alphabet\<close>

definition code64 :: string where
  "code64 = ''ABCDEFGHIJKLMNOPQRSTUVWXYZabcdefghijklmnopqrstuvwxyz0123456789+/''"

fun index_of :: "char \<Rightarrow> string \<Rightarrow> nat option" where
  "index_of c [] = None"
| "index_of c (x # xs) = (if x = c then Some 0 else map_option Suc (index_of c xs))"

definition lookup64 :: "nat \<Rightarrow> char" where
  "lookup64 n = code64 ! n"

text \<open>\<open>revLookup\<close> also knows the URL-safe characters; other characters are undefined.\<close>

definition revLookup :: "char \<Rightarrow> nat option" where
  "revLookup c = (if c = CHR ''-'' then Some 62 else if c = CHR ''_'' then Some 63 else index_of c code64)"

text \<open>An undefined operand of a bitwise operator is 0.\<close>

definition rev0 :: "char \<Rightarrow> nat" where
  "rev0 c = (case revLookup c of None \<Rightarrow> 0 | Some n \<Rightarrow> n)"

subsection \<open>base64-js\<close>

definition placeHoldersCount :: "string \<Rightarrow> exn + nat" where
  "placeHoldersCount b64 =
     (let len = length b64 in
      if len mod 4 > 0 then Inl (Thrown (JStr ''Invalid string. Length must be a multiple of 4''))
      else Inr (if len \<ge> 2 \<and> b64 ! (len - 2) = CHR ''='' then 2
                else if len \<ge> 1 \<and> b64 ! (len - 1) = CHR ''='' then 1 else 0))"

definition byteLength :: "string \<Rightarrow> exn + int" where
  "byteLength b64 =
     (case placeHoldersCount b64 of Inl e \<Rightarrow> Inl e
      | Inr p \<Rightarrow> Inr (int (length b64 * 3 div 4) - int p))"

text \<open>The loop over the complete groups of four characters, then the last group.\<close>

fun to_bytes_loop :: "string \<Rightarrow> 8 word list" where
  "to_bytes_loop (a # b # c # d # r) =
     (let tmp = push_bit 18 (rev0 a) OR push_bit 12 (rev0 b) OR push_bit 6 (rev0 c) OR rev0 d
      in word_of_nat (drop_bit 16 tmp AND 255) # word_of_nat (drop_bit 8 tmp AND 255)
           # word_of_nat (tmp AND 255) # to_bytes_loop r)"
| "to_bytes_loop _ = []"

definition to_bytes_last :: "nat \<Rightarrow> string \<Rightarrow> 8 word list" where
  "to_bytes_last ph g =
     (if ph = 2 then
        (let tmp = push_bit 2 (rev0 (g ! 0)) OR drop_bit 4 (rev0 (g ! 1))
         in [word_of_nat (tmp AND 255)])
      else if ph = 1 then
        (let tmp = push_bit 10 (rev0 (g ! 0)) OR push_bit 4 (rev0 (g ! 1)) OR drop_bit 2 (rev0 (g ! 2))
         in [word_of_nat (drop_bit 8 tmp AND 255), word_of_nat (tmp AND 255)])
      else [])"

definition toByteArray :: "string \<Rightarrow> exn + 8 word list" where
  "toByteArray b64 =
     (case placeHoldersCount b64 of Inl e \<Rightarrow> Inl e
      | Inr ph \<Rightarrow>
          (let l = (if ph > 0 then length b64 - 4 else length b64)
           in Inr (to_bytes_loop (take l b64) @ to_bytes_last ph (drop l b64))))"

definition tripletToBase64 :: "nat \<Rightarrow> string" where
  "tripletToBase64 num =
     [lookup64 (drop_bit 18 num AND 63), lookup64 (drop_bit 12 num AND 63),
      lookup64 (drop_bit 6 num AND 63), lookup64 (num AND 63)]"

definition byte_at :: "8 word list \<Rightarrow> nat \<Rightarrow> nat" where
  "byte_at u i = (if i < length u then unat (u ! i) else 0)"

function encodeChunk :: "8 word list \<Rightarrow> nat \<Rightarrow> nat \<Rightarrow> string" where
  "encodeChunk u i e =
     (if i < e then
        tripletToBase64 ((push_bit 16 (byte_at u i) AND 16711680)
                         + (push_bit 8 (byte_at u (i + 1)) AND 65280) + (byte_at u (i + 2) AND 255))
        @ encodeChunk u (i + 3) e
      else [])"
  by pat_completeness auto
termination
  by (relation "measure (\<lambda>(u, i, e). e - i)") auto

function encode_parts :: "8 word list \<Rightarrow> nat \<Rightarrow> nat \<Rightarrow> string" where
  "encode_parts u i len2 =
     (if i < len2 then
        encodeChunk u i (if i + 16383 > len2 then len2 else i + 16383) @ encode_parts u (i + 16383) len2
      else [])"
  by pat_completeness auto
termination
  by (relation "measure (\<lambda>(u, i, e). e - i)") auto

declare encodeChunk.simps [simp del] encode_parts.simps [simp del]

definition fromByteArray :: "8 word list \<Rightarrow> string" where
  "fromByteArray u =
     (let len = length u; extraBytes = len mod 3; len2 = len - extraBytes;
          out = (if extraBytes = 1 then
                   (let tmp = byte_at u (len - 1)
                    in [lookup64 (drop_bit 2 tmp), lookup64 (push_bit 4 tmp AND 63), CHR ''='', CHR ''=''])
                 else if extraBytes = 2 then
                   (let tmp = push_bit 8 (byte_at u (len - 2)) + byte_at u (len - 1)
                    in [lookup64 (drop_bit 10 tmp), lookup64 (drop_bit 4 tmp AND 63),
                        lookup64 (push_bit 2 tmp AND 63), CHR ''=''])
                 else [])
      in encode_parts u 0 len2 @ out)"

subsection \<open>base-64\<close>

text \<open>The input of \<open>encode\<close> is a list of UTF-16 code units.\<close>

function enc_loop :: "nat list \<Rightarrow> nat \<Rightarrow> nat \<Rightarrow> string" where
  "enc_loop s position len =
     (if position < len then
        (let buffer = push_bit 16 (s ! position) + push_bit 8 (s ! (position + 1)) + s ! (position + 2)
         in [lookup64 (drop_bit 18 buffer AND 63), lookup64 (drop_bit 12 buffer AND 63),
             lookup64 (drop_bit 6 buffer AND 63), lookup64 (buffer AND 63)]
            @ enc_loop s (position + 3) len)
      else [])"
  by pat_completeness auto
termination
  by (relation "measure (\<lambda>(s, p, len). len - p)") auto

declare enc_loop.simps [simp del]

definition encode64 :: "nat list \<Rightarrow> exn + string" where
  "encode64 s =
     (if list_ex (\<lambda>c. c > 255) s then
        Inl (Thrown (JStr ''The string to be encoded contains characters outside of the Latin1 range.''))
      else
        (let padding = length s mod 3; len = length s - padding in
         Inr (enc_loop s 0 len
           @ (if padding = 2 then
                (let buffer = push_bit 8 (s ! len) + s ! (len + 1)
                 in [lookup64 (drop_bit 10 buffer), lookup64 (drop_bit 4 buffer AND 63),
                     lookup64 (push_bit 2 buffer AND 63), CHR ''=''])
              else if padding = 1 then
                [lookup64 (drop_bit 2 (s ! len)), lookup64 (push_bit 4 (s ! len) AND 63), CHR ''='', CHR ''='']
              else []))))"

definition strip_pad :: "string \<Rightarrow> string" where
  "strip_pad s =
     (if suffix ''=='' s then take (length s - 2) s
      else if suffix ''='' s then take (length s - 1) s else s)"

fun dec_loop :: "string \<Rightarrow> nat \<Rightarrow> nat \<Rightarrow> nat list" where
  "dec_loop [] _ _ = []"
| "dec_loop (c # cs) bitCounter bitStorage =
     (let buffer = (case index_of c code64 of None \<Rightarrow> 0 | Some n \<Rightarrow> n);
          st = (if bitCounter mod 4 \<noteq> 0 then bitStorage * 64 + buffer else buffer);
          bc = Suc bitCounter
      in (if bitCounter mod 4 \<noteq> 0
          then [255 AND drop_bit (nat ((-2 * int bc) AND 6)) st] else []) @ dec_loop cs bc st)"

definition is_b64_space :: "char \<Rightarrow> bool" where
  "is_b64_space c \<longleftrightarrow> of_char c \<in> {9, 10, 12, 13, 32 :: nat}"

definition decode64 :: "string \<Rightarrow> exn + nat list" where
  "decode64 input0 =
     (let input1 = filter (\<lambda>c. \<not> is_b64_space c) input0;
          input = (if length input1 mod 4 = 0 then strip_pad input1 else input1)
      in if length input mod 4 = 1 \<or> list_ex (\<lambda>c. c \<notin> set code64) input then
           Inl (Thrown (JStr ''Invalid character: the string to be decoded is not correctly encoded.''))
         else Inr (dec_loop input 0 0))"

subsection \<open>The formatter's encoder\<close>

function ab_loop :: "8 word list \<Rightarrow> nat \<Rightarrow> string" where
  "ab_loop bytes i =
     (if i < length bytes then
        [lookup64 (drop_bit 2 (byte_at bytes i)),
         lookup64 (push_bit 4 (byte_at bytes i AND 3) OR drop_bit 4 (byte_at bytes (i + 1))),
         lookup64 (push_bit 2 (byte_at bytes (i + 1) AND 15) OR drop_bit 6 (byte_at bytes (i + 2))),
         lookup64 (byte_at bytes (i + 2) AND 63)] @ ab_loop bytes (i + 3)
      else [])"
  by pat_completeness auto
termination
  by (relation "measure (\<lambda>(b, i). length b - i)") auto

declare ab_loop.simps [simp del]

definition arrayBufferToBase64 :: "8 word list \<Rightarrow> string" where
  "arrayBufferToBase64 bytes =
     (let len = length bytes; base64 = ab_loop bytes 0
      in if len mod 3 = 2 then take (length base64 - 1) base64 @ ''=''
         else if len mod 3 = 1 then take (length base64 - 2) base64 @ ''=='' else base64)"

subsection \<open>Arithmetic of groups\<close>

lemma and63: "(x::nat) AND 63 = x mod 64"
  using take_bit_eq_mask [of 6 x] by (simp add: take_bit_eq_mod mask_eq_exp_minus_1)
lemma and255: "(x::nat) AND 255 = x mod 256"
  using take_bit_eq_mask [of 8 x] by (simp add: take_bit_eq_mod mask_eq_exp_minus_1)
lemma and15: "(x::nat) AND 15 = x mod 16"
  using take_bit_eq_mask [of 4 x] by (simp add: take_bit_eq_mod mask_eq_exp_minus_1)
lemma and3: "(x::nat) AND 3 = x mod 4"
  using take_bit_eq_mask [of 2 x] by (simp add: take_bit_eq_mod mask_eq_exp_minus_1)

lemma or_push: "b < 2 ^ k \<Longrightarrow> push_bit k a OR b = push_bit k a + (b::nat)"
  by (rule disjunctive_add [symmetric])
    (metis bit_push_bit_iff_nat bit_take_bit_iff linorder_not_le take_bit_nat_eq_self_iff)

lemma and_push: "push_bit k x AND push_bit k m = push_bit k (x AND (m::nat))"
  by (simp add: push_bit_and)
lemma hi: "x < 256 \<Longrightarrow> push_bit 16 x AND 16711680 = (65536 * x::nat)"
  using push_bit_and [of 16 x 255] by (simp add: and255 push_bit_eq_mult)
lemma hi8: "x < 256 \<Longrightarrow> push_bit 8 x AND 65280 = (256 * x::nat)"
  using push_bit_and [of 8 x 255] by (simp add: and255 push_bit_eq_mult)


lemma split_radix: "y < m \<Longrightarrow> (x * m + y) div m = x" "y < m \<Longrightarrow> (x * m + y) mod m = (y::nat)"
  by simp_all

lemma sextets:
  assumes "n = ((d0 * 64 + d1) * 64 + d2) * 64 + d3" "d0 < 64" "d1 < 64" "d2 < 64" "d3 < (64::nat)"
  shows "n div 262144 mod 64 = d0" "n div 4096 mod 64 = d1" "n div 64 mod 64 = d2" "n mod 64 = d3"
proof -
  have s1: "n div 64 = (d0 * 64 + d1) * 64 + d2" using assms by (simp only: split_radix)
  have s2: "n div 4096 = d0 * 64 + d1"
    using div_mult2_eq [of n 64 64] s1 split_radix(1) [OF assms(4), of "d0 * 64 + d1"] by simp
  have s3: "n div 262144 = d0"
    using div_mult2_eq [of n 4096 64] s2 split_radix(1) [OF assms(3), of d0] by simp
  show "n div 262144 mod 64 = d0" using s3 assms by simp
  show "n div 4096 mod 64 = d1" using s2 assms by (simp only: split_radix)
  show "n div 64 mod 64 = d2" using s1 assms by (simp only: split_radix)
  show "n mod 64 = d3" using assms by (simp only: split_radix)
qed

lemma octets:
  assumes "n = (a * 256 + b) * 256 + c" "a < 256" "b < 256" "c < (256::nat)"
  shows "n div 65536 mod 256 = a" "n div 256 mod 256 = b" "n mod 256 = c"
proof -
  have s1: "n div 256 = a * 256 + b" using assms by (simp only: split_radix)
  have s2: "n div 65536 = a"
    using div_mult2_eq [of n 256 256] s1 split_radix(1) [OF assms(3), of a] by simp
  show "n div 65536 mod 256 = a" using s2 assms by simp
  show "n div 256 mod 256 = b" using s1 assms by (simp only: split_radix)
  show "n mod 256 = c" using assms by (simp only: split_radix)
qed

lemma div_mod_scale: "x div m * (m * k) + x mod m * k = x * (k :: nat)"
proof -
  have "(x div m * m + x mod m) * k = x * k" by (simp only: div_mult_mod_eq)
  then show ?thesis by (simp only: add_mult_distrib mult.assoc)
qed

lemma split3:
  "65536 * a + 256 * b + c =
     ((a div 4 * 64 + (a mod 4 * 16 + b div 16)) * 64 + (b mod 16 * 4 + c div 64)) * 64 + (c::nat) mod 64"
proof -
  define a1 a0 b1 b0 c1 c0 where d: "a1 = a div 4" "a0 = a mod 4" "b1 = b div 16" "b0 = b mod 16"
    "c1 = c div 64" "c0 = c mod 64"
  have "a = 4 * a1 + a0" "b = 16 * b1 + b0" "c = 64 * c1 + c0" by (simp_all add: d)
  then have "65536 * a + 256 * b + c = 65536 * (4 * a1 + a0) + 256 * (16 * b1 + b0) + (64 * c1 + c0)"
    by (simp only:)
  then show ?thesis unfolding d [symmetric] by (simp add: algebra_simps)
qed

lemma unat8: "unat (w :: 8 word) < 256"
  using unsigned_less [of w] by simp

lemma lookup_facts:
  "list_all (\<lambda>n. revLookup (lookup64 n) = Some n \<and> index_of (lookup64 n) code64 = Some n
      \<and> lookup64 n \<in> set code64 \<and> lookup64 n \<noteq> CHR ''='' \<and> \<not> is_b64_space (lookup64 n)) [0..<64]"
  by code_simp

lemma lookup64_inv:
  assumes "n < 64"
  shows "rev0 (lookup64 n) = n" and "index_of (lookup64 n) code64 = Some n"
    and "lookup64 n \<in> set code64" and "lookup64 n \<noteq> CHR ''=''" and "\<not> is_b64_space (lookup64 n)"
  using lookup_facts assms by (auto simp: list_all_iff rev0_def)

subsection \<open>The reference encoder\<close>

fun ref64 :: "8 word list \<Rightarrow> string" where
  "ref64 (a # b # c # r) =
     [lookup64 (unat a div 4), lookup64 (unat a mod 4 * 16 + unat b div 16),
      lookup64 (unat b mod 16 * 4 + unat c div 64), lookup64 (unat c mod 64)] @ ref64 r"
| "ref64 [a, b] = [lookup64 (unat a div 4), lookup64 (unat a mod 4 * 16 + unat b div 16),
                   lookup64 (unat b mod 16 * 4), CHR ''='']"
| "ref64 [a] = [lookup64 (unat a div 4), lookup64 (unat a mod 4 * 16), CHR ''='', CHR ''='']"
| "ref64 [] = []"

lemma length_ref64: "length (ref64 bs) = 4 * ((length bs + 2) div 3)"
proof (induction bs rule: ref64.induct)
  case (1 a b c r)
  have "(5 + length r) div 3 = Suc ((length r + 2) div 3)" by presburger
  with 1 show ?case by simp
qed simp_all

lemma ref64_append: "3 dvd length xs \<Longrightarrow> ref64 (xs @ ys) = ref64 xs @ ref64 ys"
proof (induction xs rule: ref64.induct)
  case (1 a b c r)
  then have "3 dvd 3 + length r" by (simp add: numeral_3_eq_3)
  then have "3 dvd length r" by (simp only: dvd_add_triv_left_iff)
  with 1 show ?case by simp
next
  case (2 a b)
  then have "3 dvd (2 :: nat)" by (simp add: numeral_2_eq_2)
  then show ?case by simp
qed auto

lemma sextet_lt:
  assumes "a < 256" "b < 256" "c < (256 :: nat)"
  shows "a div 4 < 64" "a mod 4 * 16 + b div 16 < 64" "b mod 16 * 4 + c div 64 < 64" "c mod 64 < 64"
  using assms mod_less_divisor [of 4 a] mod_less_divisor [of 16 b] by (auto simp del: mod_less_divisor)

lemma triplet_ref:
  assumes "a < 256" "b < 256" "c < 256"
  shows "tripletToBase64 (65536 * a + 256 * b + c) =
     [lookup64 (a div 4), lookup64 (a mod 4 * 16 + b div 16), lookup64 (b mod 16 * 4 + c div 64), lookup64 (c mod 64)]"
proof -
  show ?thesis
    using sextets [OF split3 [of a b c] sextet_lt [OF assms]]
    by (simp add: tripletToBase64_def and63 drop_bit_eq_div)
qed

lemma triplet_group:
  assumes "a < (256 :: nat)" "b < 256" "c < 256"
  shows "(push_bit 16 a AND 16711680) + (push_bit 8 b AND 65280) + (c AND 255) = 65536 * a + 256 * b + c"
  using assms by (simp add: hi hi8 and255)

lemma byte_at_lt: "byte_at u i < 256"
  by (simp add: byte_at_def unat8)

lemma drop3: "i + 3 \<le> length u \<Longrightarrow> drop i u = u ! i # u ! (i + 1) # u ! (i + 2) # drop (i + 3) u"
  by (simp add: Cons_nth_drop_Suc numeral_3_eq_3)

lemma encodeChunk_ref:
  assumes "i + 3 * k = e" and "e \<le> length u"
  shows "encodeChunk u i e = ref64 (take (3 * k) (drop i u))"
  using assms
proof (induction k arbitrary: i)
  case 0
  then show ?case by (simp add: encodeChunk.simps)
next
  case (Suc k)
  then have lt: "i < e" and len: "i + 3 \<le> length u" and rest: "i + 3 + 3 * k = e" by auto
  have B: "byte_at u i = unat (u ! i)" "byte_at u (i + 1) = unat (u ! (i + 1))" "byte_at u (i + 2) = unat (u ! (i + 2))"
    using len by (auto simp: byte_at_def)
  have "encodeChunk u i e = tripletToBase64 (65536 * byte_at u i + 256 * byte_at u (i + 1) + byte_at u (i + 2))
      @ encodeChunk u (i + 3) e"
    using lt triplet_group [OF byte_at_lt byte_at_lt byte_at_lt] by (subst encodeChunk.simps) simp
  also have "\<dots> = tripletToBase64 (65536 * unat (u ! i) + 256 * unat (u ! (i + 1)) + unat (u ! (i + 2)))
      @ ref64 (take (3 * k) (drop (i + 3) u))"
    using Suc.IH [OF rest] Suc.prems by (simp only: B)
  also have "\<dots> = ref64 (u ! i # u ! (i + 1) # u ! (i + 2) # take (3 * k) (drop (i + 3) u))"
    by (simp only: triplet_ref [OF unat8 unat8 unat8] ref64.simps)
  also have "\<dots> = ref64 (take (3 * Suc k) (drop i u))"
    unfolding drop3 [OF len] by (simp add: numeral_3_eq_3)
  finally show ?case .
qed

lemma encode_parts_ref:
  assumes "i + 3 * k = len2" and "len2 \<le> length u"
  shows "encode_parts u i len2 = ref64 (take (3 * k) (drop i u))"
  using assms
proof (induction k arbitrary: i rule: less_induct)
  case (less k)
  show ?case
  proof (cases "k = 0")
    case True
    with less.prems show ?thesis by (subst encode_parts.simps) simp
  next
    case False
    show ?thesis
    proof (cases "i + 16383 > len2")
      case True
      have "encode_parts u (i + 16383) len2 = []" using True by (subst encode_parts.simps) simp
      moreover have "encodeChunk u i len2 = ref64 (take (3 * k) (drop i u))"
        using encodeChunk_ref less.prems by blast
      ultimately show ?thesis using True False less.prems by (subst encode_parts.simps) simp
    next
      case big: False
      define k' where "k' = k - 5461"
      have k: "k = 5461 + k'" using big less.prems by (simp add: k'_def)
      have "encode_parts u (i + 16383) len2 = ref64 (take (3 * k') (drop (i + 16383) u))"
        by (rule less.IH) (use k less.prems in auto)
      moreover have "encodeChunk u i (i + 16383) = ref64 (take (3 * 5461) (drop i u))"
        by (rule encodeChunk_ref) (use big less.prems in auto)
      moreover have "take (3 * k) (drop i u)
          = take (3 * 5461) (drop i u) @ take (3 * k') (drop (i + 16383) u)"
      proof -
        have "3 * k = 3 * 5461 + 3 * k'" using k by simp
        then have "take (3 * k) (drop i u)
            = take (3 * 5461) (drop i u) @ take (3 * k') (drop (3 * 5461) (drop i u))"
          by (simp only: take_add)
        then show ?thesis by (simp add: add.commute)
      qed
      moreover have "3 dvd length (take (3 * 5461) (drop i u))"
      proof -
        have "length (take (3 * 5461) (drop i u)) = 3 * 5461" using big less.prems by simp
        then show ?thesis by (simp only: dvd_triv_left)
      qed
      ultimately show ?thesis
        using big False less.prems by (subst encode_parts.simps) (simp add: ref64_append)
    qed
  qed
qed

lemma ref64_groups:
  assumes "n = length u - length u mod 3"
  shows "ref64 u = ref64 (take n u) @ ref64 (drop n u)"
proof -
  have "3 dvd n" using assms by (simp add: minus_mod_eq_mult_div)
  moreover have "n \<le> length u" using assms by simp
  ultimately show ?thesis
    using ref64_append [of "take n u" "drop n u"] by (simp add: min_def)
qed

lemma drop_rest:
  assumes "n = length u - length u mod 3"
  shows "length u mod 3 = 0 \<Longrightarrow> drop n u = []"
    and "length u mod 3 = 1 \<Longrightarrow> n = length u - 1 \<and> n < length u \<and> drop n u = [u ! n]"
    and "length u mod 3 = 2 \<Longrightarrow> n = length u - 2 \<and> n + 1 < length u \<and> drop n u = [u ! n, u ! (n + 1)]"
proof -
  have le: "length u mod 3 \<le> length u" by simp
  show "length u mod 3 = 0 \<Longrightarrow> drop n u = []" using assms by simp
  show "length u mod 3 = 1 \<Longrightarrow> n = length u - 1 \<and> n < length u \<and> drop n u = [u ! n]"
    using assms le Cons_nth_drop_Suc [of n u] by auto
  show "length u mod 3 = 2 \<Longrightarrow> n = length u - 2 \<and> n + 1 < length u \<and> drop n u = [u ! n, u ! (n + 1)]"
    using assms le Cons_nth_drop_Suc [of n u] Cons_nth_drop_Suc [of "Suc n" u] by auto
qed

text \<open>The two incomplete groups, in the shifts and masks of the code.\<close>

lemma tail1: "drop_bit 2 a = a div 4" "a < 256 \<Longrightarrow> push_bit 4 a AND 63 = (a mod 4 * 16 :: nat)"
proof -
  show "drop_bit 2 a = a div 4" by (simp add: drop_bit_eq_div)
  have "push_bit 4 a AND 63 = (16 * a) mod (16 * 4)" by (simp add: and63 push_bit_eq_mult mult.commute)
  also have "\<dots> = 16 * (a mod 4)" by (simp only: mult_mod_right)
  finally show "push_bit 4 a AND 63 = a mod 4 * 16" by simp
qed

lemma tail2:
  assumes "a < 256" "b < (256 :: nat)"
  shows "drop_bit 10 (push_bit 8 a + b) = a div 4"
    and "drop_bit 4 (push_bit 8 a + b) AND 63 = a mod 4 * 16 + b div 16"
    and "push_bit 2 (push_bit 8 a + b) AND 63 = b mod 16 * 4"
proof -
  have g: "65536 * a + 256 * b + 0 = 256 * (push_bit 8 a + b)"
    by (simp add: push_bit_eq_mult)
  have lt: "a div 4 < 64" "a mod 4 * 16 + b div 16 < 64" "b mod 16 * 4 + 0 div 64 < 64" "(0::nat) mod 64 < 64"
    using assms mod_less_divisor [of 4 a] mod_less_divisor [of 16 b] by (auto simp del: mod_less_divisor)
  note S = sextets [OF split3 [of a b 0] lt, unfolded g]
  have d: "256 * n div 262144 = n div 1024" "256 * n div 4096 = n div 16" "256 * n div 64 = 4 * n" for n :: nat
    using div_mult_mult1 [of 256 n 1024] div_mult_mult1 [of 256 n 16] div_mult_mult1 [of 64 "4 * n" 1]
    by auto
  have "(push_bit 8 a + b) div 1024 < 64" using assms by (simp add: push_bit_eq_mult)
  then show "drop_bit 10 (push_bit 8 a + b) = a div 4"
    using S(1) by (simp add: d drop_bit_eq_div)
  show "drop_bit 4 (push_bit 8 a + b) AND 63 = a mod 4 * 16 + b div 16"
    using S(2) [unfolded d] by (simp add: drop_bit_eq_div and63)
  have "push_bit 2 (push_bit 8 a + b) = 4 * (push_bit 8 a + b)" by (simp add: push_bit_eq_mult)
  then show "push_bit 2 (push_bit 8 a + b) AND 63 = b mod 16 * 4"
    using S(3) [unfolded d] by (simp add: and63 mult.commute)
qed

text \<open>The chunked encoder: chunks of 16383 bytes, then the padded rest.\<close>

lemma fromByteArray_ref:
  "fromByteArray u = ref64 u"
proof -
  define n where n: "n = length u - length u mod 3"
  have "3 dvd n" unfolding n by (simp add: minus_mod_eq_mult_div)
  then obtain k where k: "0 + 3 * k = n" by auto
  have nl: "n \<le> length u" unfolding n by simp
  have p: "encode_parts u 0 n = ref64 (take n u)"
    using encode_parts_ref [OF k nl] k by simp
  note D = drop_rest [OF n]
  have fb: "fromByteArray u = encode_parts u 0 n @
      (if length u mod 3 = 1 then
         [lookup64 (drop_bit 2 (byte_at u (length u - 1))),
          lookup64 (push_bit 4 (byte_at u (length u - 1)) AND 63), CHR ''='', CHR ''='']
       else if length u mod 3 = 2 then
         [lookup64 (drop_bit 10 (push_bit 8 (byte_at u (length u - 2)) + byte_at u (length u - 1))),
          lookup64 (drop_bit 4 (push_bit 8 (byte_at u (length u - 2)) + byte_at u (length u - 1)) AND 63),
          lookup64 (push_bit 2 (push_bit 8 (byte_at u (length u - 2)) + byte_at u (length u - 1)) AND 63),
          CHR ''='']
       else [])"
    unfolding fromByteArray_def Let_def n by (rule refl)
  consider "length u mod 3 = 0" | "length u mod 3 = 1" | "length u mod 3 = 2" by linarith
  then show ?thesis
  proof cases
    case 1
    show ?thesis using p D(1) [OF 1] ref64_groups [OF n] unfolding fb 1 by simp
  next
    case 2
    have m: "n = length u - 1" "n < length u" and d: "drop n u = [u ! n]" using D(2) 2 by auto
    have B: "byte_at u (length u - 1) = unat (u ! n)" using m by (simp add: byte_at_def)
    have "fromByteArray u = ref64 (take n u)
        @ [lookup64 (unat (u ! n) div 4), lookup64 (unat (u ! n) mod 4 * 16), CHR ''='', CHR ''='']"
      unfolding fb 2 B p by (simp add: tail1 tail1(2) [OF unat8])
    also have "\<dots> = ref64 (take n u) @ ref64 (drop n u)" unfolding d by simp
    finally show ?thesis using ref64_groups [OF n] by (simp only:)
  next
    case 3
    have m: "n = length u - 2" "n + 1 = length u - 1" "n + 1 < length u"
      and d: "drop n u = [u ! n, u ! (n + 1)]" using D(3) 3 by auto
    have B: "byte_at u (length u - 2) = unat (u ! n)" "byte_at u (length u - 1) = unat (u ! (n + 1))"
      using m(3) unfolding m(1) [symmetric] m(2) [symmetric] byte_at_def by simp_all
    have "fromByteArray u = ref64 (take n u)
        @ [lookup64 (unat (u ! n) div 4), lookup64 (unat (u ! n) mod 4 * 16 + unat (u ! (n + 1)) div 16),
           lookup64 (unat (u ! (n + 1)) mod 16 * 4), CHR ''='']"
      unfolding fb 3 B p by (simp add: tail2 [OF unat8 unat8])
    also have "\<dots> = ref64 (take n u) @ ref64 (drop n u)" unfolding d by simp
    finally show ?thesis using ref64_groups [OF n] by (simp only:)
  qed
qed

lemma fromByteArray_length: "length (fromByteArray u) mod 4 = 0"
  using length_ref64 [of u] fromByteArray_ref [of u] by simp

subsection \<open>base-64 and the formatter\<close>

lemma enc_loop_ref:
  assumes "i + 3 * k = e" and "e \<le> length u"
  shows "enc_loop (map unat u) i e = ref64 (take (3 * k) (drop i (u :: 8 word list)))"
  using assms
proof (induction k arbitrary: i)
  case 0
  then show ?case by (simp add: enc_loop.simps)
next
  case (Suc k)
  then have lt: "i < e" and len: "i + 3 \<le> length u" and rest: "i + 3 + 3 * k = e" by auto
  have B: "map unat u ! i = unat (u ! i)" "map unat u ! (i + 1) = unat (u ! (i + 1))"
    "map unat u ! (i + 2) = unat (u ! (i + 2))"
    using len by auto
  have "enc_loop (map unat u) i e
      = tripletToBase64 (65536 * unat (u ! i) + 256 * unat (u ! (i + 1)) + unat (u ! (i + 2)))
        @ enc_loop (map unat u) (i + 3) e"
    using lt unfolding B [symmetric]
    by (subst enc_loop.simps) (simp add: Let_def tripletToBase64_def push_bit_eq_mult mult.commute)
  also have "\<dots> = ref64 (u ! i # u ! (i + 1) # u ! (i + 2) # take (3 * k) (drop (i + 3) u))"
    using Suc.IH [OF rest] Suc.prems by (simp only: triplet_ref [OF unat8 unat8 unat8] ref64.simps)
  also have "\<dots> = ref64 (take (3 * Suc k) (drop i u))"
    unfolding drop3 [OF len] by (simp add: numeral_3_eq_3)
  finally show ?case .
qed

lemma encode64_ref:
  "encode64 (map unat (u :: 8 word list)) = Inr (ref64 u)"
proof -
  have none: "\<not> list_ex (\<lambda>c. c > 255) (map unat u)"
    using unat8 by (auto simp: list_ex_iff not_less less_Suc_eq_le [of _ 255, simplified])
  define n where n: "n = length u - length u mod 3"
  have "3 dvd n" unfolding n by (simp add: minus_mod_eq_mult_div)
  then obtain k where k: "0 + 3 * k = n" by auto
  have nl: "n \<le> length u" unfolding n by simp
  have p: "enc_loop (map unat u) 0 n = ref64 (take n u)"
    using enc_loop_ref [OF k nl] k by simp
  note D = drop_rest [OF n]
  have fb: "encode64 (map unat u) = Inr (enc_loop (map unat u) 0 n @
      (if length u mod 3 = 2 then
         [lookup64 (drop_bit 10 (push_bit 8 (map unat u ! n) + map unat u ! (n + 1))),
          lookup64 (drop_bit 4 (push_bit 8 (map unat u ! n) + map unat u ! (n + 1)) AND 63),
          lookup64 (push_bit 2 (push_bit 8 (map unat u ! n) + map unat u ! (n + 1)) AND 63), CHR ''='']
       else if length u mod 3 = 1 then
         [lookup64 (drop_bit 2 (map unat u ! n)), lookup64 (push_bit 4 (map unat u ! n) AND 63),
          CHR ''='', CHR ''='']
       else []))"
    unfolding encode64_def Let_def length_map n using none by (simp only: if_False)
  have "encode64 (map unat u) = Inr (ref64 (take n u) @ ref64 (drop n u))"
  proof -
    consider "length u mod 3 = 0" | "length u mod 3 = 1" | "length u mod 3 = 2" by linarith
    then show ?thesis
    proof cases
      case 1
      show ?thesis using p D(1) [OF 1] unfolding fb 1 by simp
    next
      case 2
      have nlt: "n < length u" and d: "drop n u = [u ! n]" using D(2) 2 by auto
      then have B: "map unat u ! n = unat (u ! n)" by simp
      show ?thesis unfolding d fb 2 B p by (simp add: tail1 tail1(2) [OF unat8])
    next
      case 3
      have nlt: "n + 1 < length u" and d: "drop n u = [u ! n, u ! (n + 1)]" using D(3) 3 by auto
      then have B: "map unat u ! n = unat (u ! n)" "map unat u ! (n + 1) = unat (u ! (n + 1))" by auto
      show ?thesis unfolding d fb 3 B p by (simp add: tail2 [OF unat8 unat8])
    qed
  qed
  then show ?thesis using ref64_groups [OF n] by simp
qed

text \<open>The formatter encodes missing bytes as 0 and overwrites the padding afterwards.\<close>

definition pad64 :: "nat \<Rightarrow> string \<Rightarrow> string" where
  "pad64 n s = (if n mod 3 = 2 then take (length s - 1) s @ ''=''
                else if n mod 3 = 1 then take (length s - 2) s @ ''=='' else s)"

lemma ab_length: "length (ab_loop u i) = 4 * ((length u - i + 2) div 3)"
proof (induction u i rule: ab_loop.induct)
  case (1 u i)
  show ?case
  proof (cases "i < length u")
    case True
    have "(length u - i + 2) div 3 = Suc ((length u - (i + 3) + 2) div 3)" using True by presburger
    then show ?thesis using 1 True by (subst ab_loop.simps) simp
  qed (subst ab_loop.simps, simp)
qed

lemma or_parts:
  "b < (256 :: nat) \<Longrightarrow> push_bit 4 (a AND 3) OR drop_bit 4 b = a mod 4 * 16 + b div 16"
  "c < (256 :: nat) \<Longrightarrow> push_bit 2 (b AND 15) OR drop_bit 6 c = b mod 16 * 4 + c div 64"
proof -
  have lt: "b < 256 \<Longrightarrow> b div 16 < 2 ^ 4" "c < 256 \<Longrightarrow> c div 64 < 2 ^ 2" by simp_all
  show "b < 256 \<Longrightarrow> push_bit 4 (a AND 3) OR drop_bit 4 b = a mod 4 * 16 + b div 16"
    using or_push [OF lt(1), of "a AND 3"] by (simp only: drop_bit_eq_div and3 push_bit_eq_mult) simp
  show "c < 256 \<Longrightarrow> push_bit 2 (b AND 15) OR drop_bit 6 c = b mod 16 * 4 + c div 64"
    using or_push [OF lt(2), of "b AND 15"] by (simp only: drop_bit_eq_div and15 push_bit_eq_mult) simp
qed

lemma pad64_Cons4: "x \<noteq> [] \<or> n mod 3 = 0 \<Longrightarrow> length g = 4 \<Longrightarrow> 3 \<le> n \<or> n mod 3 = 0 \<Longrightarrow> 
   2 \<le> length x \<or> n mod 3 = 0 \<Longrightarrow> pad64 n (g @ x) = g @ pad64 (n - 3) x"
  by (auto simp: pad64_def le_mod_geq)

lemma ab_group:
  "i < length u \<Longrightarrow> ab_loop u i =
     [lookup64 (byte_at u i div 4), lookup64 (byte_at u i mod 4 * 16 + byte_at u (i + 1) div 16),
      lookup64 (byte_at u (i + 1) mod 16 * 4 + byte_at u (i + 2) div 64), lookup64 (byte_at u (i + 2) mod 64)]
     @ ab_loop u (i + 3)"
  using or_parts [OF byte_at_lt [of u "i + 1"], of "byte_at u i"]
    or_parts(2) [OF byte_at_lt [of u "i + 2"], of "byte_at u (i + 1)"]
  by (subst ab_loop.simps) (simp only: if_True and63 tail1(1))

lemma ab_loop_ref: "pad64 (length u - i) (ab_loop u i) = ref64 (drop i u)"
proof (induction u i rule: ab_loop.induct)
  case (1 u i)
  consider "i \<ge> length u" | "i + 1 = length u" | "i + 2 = length u" | "i + 3 \<le> length u" by linarith
  then show ?case
  proof cases
    case 1
    then show ?thesis by (subst ab_loop.simps) (simp add: pad64_def)
  next
    case 2
    then have "drop i u = [u ! i]" and "ab_loop u (i + 3) = []"
      using Cons_nth_drop_Suc [of i u] by (auto simp: ab_loop.simps)
    with 2 show ?thesis by (simp add: ab_group pad64_def byte_at_def flip: 2)
  next
    case 3
    then have "drop i u = [u ! i, u ! (i + 1)]" and "ab_loop u (i + 3) = []"
      using Cons_nth_drop_Suc [of i u] Cons_nth_drop_Suc [of "i + 1" u] by (auto simp: ab_loop.simps)
    with 3 show ?thesis by (simp add: ab_group pad64_def byte_at_def flip: 3)
  next
    case 4
    have B: "byte_at u i = unat (u ! i)" "byte_at u (i + 1) = unat (u ! (i + 1))"
      "byte_at u (i + 2) = unat (u ! (i + 2))" using 4 by (auto simp: byte_at_def)
    have lt: "i < length u" using 4 by simp
    have "4 \<le> length (ab_loop u (i + 3)) \<or> length u - i = 3"
      unfolding ab_length using 4 by presburger
    then have "pad64 (length u - i) (ab_loop u i) =
      [lookup64 (byte_at u i div 4), lookup64 (byte_at u i mod 4 * 16 + byte_at u (i + 1) div 16),
        lookup64 (byte_at u (i + 1) mod 16 * 4 + byte_at u (i + 2) div 64), lookup64 (byte_at u (i + 2) mod 64)]
      @ pad64 (length u - i - 3) (ab_loop u (i + 3))"
      unfolding ab_group [OF lt] using 4 by (intro pad64_Cons4) auto
    then show ?thesis
      using "1.IH" [OF lt] unfolding drop3 [OF 4] B by simp
  qed
qed

lemma formatter_ref: "arrayBufferToBase64 u = fromByteArray u"
  using ab_loop_ref [of u 0] fromByteArray_ref [of u] by (simp add: arrayBufferToBase64_def pad64_def Let_def)

text \<open>
  C38: On the same bytes the chunked encoder of \<open>base64-js\<close>, the encoder of the packet
  formatter (which writes zero bytes and then overwrites the padding) and the encoder of
  \<open>base-64\<close> all produce the reference encoding, which is four characters per three bytes.
  Only \<open>base-64\<close> can fail, exactly on a code unit above 255.
\<close>

theorem encoders_agree:
  "fromByteArray u = ref64 u \<and> arrayBufferToBase64 u = ref64 u
   \<and> encode64 (map unat u) = Inr (ref64 u)
   \<and> length (ref64 u) = 4 * ((length u + 2) div 3)
   \<and> (list_ex (\<lambda>c. c > 255) s \<longleftrightarrow> encode64 s =
        Inl (Thrown (JStr ''The string to be encoded contains characters outside of the Latin1 range.'')))"
proof -
  have "arrayBufferToBase64 u = pad64 (length u - 0) (ab_loop u 0)"
    by (simp add: arrayBufferToBase64_def pad64_def Let_def)
  then show ?thesis 
    using ab_loop_ref [of u 0] fromByteArray_ref [of u] encode64_ref [of u] length_ref64 [of u]
    by (simp add: encode64_def Let_def)
qed

subsection \<open>Decoders\<close>

lemma to_bytes_group:
  "to_bytes_loop (lookup64 (unat a div 4) # lookup64 (unat a mod 4 * 16 + unat b div 16)
     # lookup64 (unat b mod 16 * 4 + unat c div 64) # lookup64 (unat c mod 64) # r)
   = a # b # c # to_bytes_loop (r :: string)"
proof -
  have lt: "unat a div 4 < 64" "unat a mod 4 * 16 + unat b div 16 < 64"
     "unat b mod 16 * 4 + unat c div 64 < 64" "unat c mod 64 < 64"
    by (rule sextet_lt; rule unat8)+
  have or4: "push_bit 18 x OR push_bit 12 y OR push_bit 6 z OR w = ((x * 64 + y) * 64 + z) * 64 + w"
    if "y < 64" "z < 64" "w < (64 :: nat)" for x y z w
  proof -
    have "push_bit 18 x OR push_bit 12 y OR push_bit 6 z OR w
        = push_bit 6 (push_bit 6 (push_bit 6 x OR y) OR z) OR w"
      by (simp add: push_bit_or or.assoc)
    then show ?thesis
      using that or_push [of y 6 x] or_push [of z 6 "push_bit 6 x + y"]
        or_push [of w 6 "push_bit 6 (push_bit 6 x + y) + z"]
      by (simp add: push_bit_eq_mult)
  qed
  define t where "t = (unat a * 256 + unat b) * 256 + unat c"
  have t: "push_bit 18 (unat a div 4) OR push_bit 12 (unat a mod 4 * 16 + unat b div 16)
       OR push_bit 6 (unat b mod 16 * 4 + unat c div 64) OR unat c mod 64 = t"
    unfolding or4 [OF lt(2-4)] split3 [symmetric] t_def by (simp add: algebra_simps)
  note o = octets [OF t_def unat8 unat8 unat8]
  show ?thesis
    by (simp only: to_bytes_loop.simps lookup64_inv(1) [OF lt(1)] lookup64_inv(1) [OF lt(2)]
        lookup64_inv(1) [OF lt(3)] lookup64_inv(1) [OF lt(4)] Let_def t)
      (simp add: and255 drop_bit_eq_div o)
qed

lemma not_dvd2: "\<not> 3 dvd Suc (Suc 0)" by presburger

lemma to_bytes_ref: "3 dvd length xs \<Longrightarrow> to_bytes_loop (ref64 xs) = xs"
proof (induction xs rule: ref64.induct)
  case (1 a b c r)
  then have "3 dvd 3 + length r" by (simp add: numeral_3_eq_3)
  then have "3 dvd length r" by (simp only: dvd_add_triv_left_iff)
  with 1 show ?case by (simp only: ref64.simps to_bytes_group append_Cons append_Nil)
qed (auto simp: not_dvd2)

lemma tails3:
  obtains xs ys where "bs = xs @ ys" "3 dvd length xs" "ys = [] \<or> (\<exists>a. ys = [a]) \<or> (\<exists>a b. ys = [a, b])"
proof -
  define n where n: "n = length bs - length bs mod 3"
  have "3 dvd n" unfolding n by (simp add: minus_mod_eq_mult_div)
  moreover have "n \<le> length bs" unfolding n by simp
  ultimately have len: "3 dvd length (take n bs)" by simp
  have "drop n bs = [] \<or> (\<exists>a. drop n bs = [a]) \<or> (\<exists>a b. drop n bs = [a, b])"
  proof -
    consider "length bs mod 3 = 0" | "length bs mod 3 = 1" | "length bs mod 3 = 2" by linarith
    then show ?thesis using drop_rest [OF n] by cases blast+
  qed
  with len show ?thesis using that [of "take n bs" "drop n bs"] by simp
qed

lemma full_groups: "3 dvd length xs \<Longrightarrow> set (ref64 xs) \<subseteq> set code64 \<and> length (ref64 xs) mod 4 = 0"
proof (induction xs rule: ref64.induct)
  case (1 a b c r)
  then have "3 dvd 3 + length r" by (simp add: numeral_3_eq_3)
  then have "3 dvd length r" by (simp only: dvd_add_triv_left_iff)
  moreover have "unat a div 4 < 64" "unat a mod 4 * 16 + unat b div 16 < 64"
     "unat b mod 16 * 4 + unat c div 64 < 64" "unat c mod 64 < 64"
    by (rule sextet_lt; rule unat8)+
  ultimately show ?case using 1 lookup64_inv(3) by simp
qed (auto simp: not_dvd2)

lemma tail_lt:
  "unat (a :: 8 word) div 4 < 64" "unat a mod 4 * 16 < 64"
  "unat a mod 4 * 16 + unat (b :: 8 word) div 16 < 64" "unat b mod 16 * 4 < 64"
  using unat8 [of a] unat8 [of b] mod_less_divisor [of 4 "unat a"]
      mod_less_divisor [of 16 "unat b"] by (auto simp del: mod_less_divisor)

lemma eq_not_in_code: "CHR ''='' \<notin> set code64" by (simp add: code64_def)

lemma no_eq: "3 dvd length xs \<Longrightarrow> CHR ''='' \<notin> set (ref64 xs)"
  using full_groups [of xs] eq_not_in_code by auto

text \<open>\<open>toByteArray\<close> undoes the encoding; a text whose length is not a multiple of 4 is an error.\<close>

lemma toByteArray_roundtrip:
  "toByteArray (fromByteArray bs) = Inr bs
   \<and> (length s mod 4 > 0 \<longleftrightarrow>
        toByteArray s = Inl (Thrown (JStr ''Invalid string. Length must be a multiple of 4'')))"
proof -
  obtain xs ys where bs: "bs = xs @ ys" and xs: "3 dvd length xs"
    and ys: "ys = [] \<or> (\<exists>a. ys = [a]) \<or> (\<exists>a b. ys = [a, b])" by (rule tails3)
  have p: "to_bytes_loop (ref64 xs) = xs" and l4: "length (ref64 xs) mod 4 = 0"
    using to_bytes_ref [OF xs] full_groups [OF xs] by auto
  have r: "fromByteArray bs = ref64 xs @ ref64 ys"
    unfolding bs using fromByteArray_ref [of "xs @ ys"] ref64_append [OF xs] by simp
  consider "ys = []" | a where "ys = [a]" | a b where "ys = [a, b]" using ys by blast
  then have "toByteArray (ref64 xs @ ref64 ys) = Inr (xs @ ys)"
  proof cases
    case 1
    have nth: "ref64 xs ! i \<noteq> CHR ''=''" if "i < length (ref64 xs)" for i
      using that no_eq [OF xs] nth_mem by metis
    have "ref64 xs ! (length (ref64 xs) - 2) \<noteq> CHR ''=''" "ref64 xs ! (length (ref64 xs) - 1) \<noteq> CHR ''=''"
      if "length (ref64 xs) \<ge> 1" using that by (auto intro!: nth)
    then have "placeHoldersCount (ref64 xs) = Inr 0"
      using l4 by (simp add: placeHoldersCount_def Let_def)
    then show ?thesis using 1 p by (simp add: toByteArray_def to_bytes_last_def)
  next
    case 2
    have ph: "placeHoldersCount (ref64 xs @ ref64 ys) = Inr 2"
      using l4 2 by (simp add: placeHoldersCount_def Let_def nth_append)
    have "push_bit 2 (unat a div 4) OR drop_bit 4 (unat a mod 4 * 16) = unat a"
      using or_push [of "unat a mod 4" 2 "unat a div 4"] by (simp add: drop_bit_eq_div push_bit_eq_mult)
    then have "to_bytes_last 2 (ref64 [a]) = [a]"
      by (simp add: to_bytes_last_def lookup64_inv(1) tail_lt and255 unat8)
    then show ?thesis using ph 2 p by (simp add: toByteArray_def)
  next
    case 3
    have ph: "placeHoldersCount (ref64 xs @ ref64 ys) = Inr 1"
      using l4 3 lookup64_inv(4) [OF tail_lt(4)] by (simp add: placeHoldersCount_def Let_def nth_append)
    have "push_bit 10 (unat a div 4) OR (push_bit 4 (unat a mod 4 * 16 + unat b div 16) OR unat b mod 16)
        = unat a * 256 + unat b"
    proof -
      have "push_bit 10 (unat a div 4) OR (push_bit 4 (unat a mod 4 * 16 + unat b div 16) OR unat b mod 16)
          = push_bit 4 (push_bit 6 (unat a div 4) OR (unat a mod 4 * 16 + unat b div 16)) OR unat b mod 16"
        by (simp add: push_bit_or or.assoc)
      then show ?thesis
        using or_push [of "unat a mod 4 * 16 + unat b div 16" 6 "unat a div 4"] tail_lt(3) [of a b]
          or_push [of "unat b mod 16" 4 "push_bit 6 (unat a div 4) + (unat a mod 4 * 16 + unat b div 16)"]
          div_mod_scale [of "unat a" 4 256]
        by (simp add: push_bit_eq_mult)
    qed
    then have "to_bytes_last 1 (ref64 [a, b]) = [a, b]"
      by (simp add: to_bytes_last_def lookup64_inv(1) tail_lt and255 unat8 drop_bit_eq_div)
    then show ?thesis using ph 3 p by (simp add: toByteArray_def)
  qed
  then show ?thesis
    unfolding bs [symmetric] r by (auto simp: toByteArray_def placeHoldersCount_def Let_def bs)
qed

lemma shift_even: "(-2 * int n) AND 6 = 2 * ((- int n) mod 4)"
proof -
  have "(-2 * int n) AND 6 = push_bit 1 (- int n) AND push_bit 1 3"
    by (simp add: push_bit_eq_mult mult.commute)
  also have "\<dots> = push_bit 1 (- int n AND 3)" by (simp only: push_bit_and)
  also have "- int n AND 3 = (- int n) mod 4"
    using take_bit_eq_mask [of 2 "- int n"] by (simp add: take_bit_eq_mod mask_eq_exp_minus_1)
  finally show ?thesis by (simp add: push_bit_eq_mult)
qed

lemma shifts:
  assumes "q mod 4 = 0"
  shows "nat ((-2 * int (q + 2)) AND 6) = 4" "nat ((-2 * int (q + 3)) AND 6) = 2"
    "nat ((-2 * int (q + 4)) AND 6) = 0"
proof -
  obtain k where q: "q = 4 * k" using assms by auto
  have "(- int (q + 2)) mod 4 = 2" "(- int (q + 3)) mod 4 = 1" "(- int (q + 4)) mod 4 = 0"
    unfolding q by presburger+
  then show "nat ((-2 * int (q + 2)) AND 6) = 4" "nat ((-2 * int (q + 3)) AND 6) = 2"
    "nat ((-2 * int (q + 4)) AND 6) = 0"
    unfolding shift_even by simp_all
qed

lemma dec_group4:
  assumes "q mod 4 = 0" and "x < 64" "y < 64" "z < 64" "w < 64"
  shows "dec_loop (lookup64 x # r1) q s = dec_loop r1 (q + 1) x"
    and "dec_loop (lookup64 y # r2) (q + 1) x = (x * 64 + y) div 16 mod 256 # dec_loop r2 (q + 2) (x * 64 + y)"
    and "dec_loop (lookup64 z # r3) (q + 2) t = (t * 64 + z) div 4 mod 256 # dec_loop r3 (q + 3) (t * 64 + z)"
    and "dec_loop (lookup64 w # r4) (q + 3) v = (v * 64 + w) mod 256 # dec_loop r4 (q + 4) (v * 64 + w)"
proof -
  have m: "(q + 1) mod 4 = 1" "(q + 2) mod 4 = 2" "(q + 3) mod 4 = 3" using assms(1) by presburger+
  have c: "255 AND n = n mod 256" for n :: nat using and255 [of n] by (simp add: and.commute)
  have S: "Suc (q + 1) = q + 2" "Suc (q + 2) = q + 3" "Suc (q + 3) = q + 4" "Suc q = q + 1" by simp_all
  show "dec_loop (lookup64 x # r1) q s = dec_loop r1 (q + 1) x"
    using assms(1) by (simp add: lookup64_inv(2) [OF assms(2)])
  show "dec_loop (lookup64 y # r2) (q + 1) x = (x * 64 + y) div 16 mod 256 # dec_loop r2 (q + 2) (x * 64 + y)"
    by (simp only: dec_loop.simps lookup64_inv(2) [OF assms(3)] m S Let_def shifts [OF assms(1)] c)
      (simp add: drop_bit_eq_div)
  show "dec_loop (lookup64 z # r3) (q + 2) t = (t * 64 + z) div 4 mod 256 # dec_loop r3 (q + 3) (t * 64 + z)"
    by (simp only: dec_loop.simps lookup64_inv(2) [OF assms(4)] m S Let_def shifts [OF assms(1)] c)
      (simp add: drop_bit_eq_div)
  show "dec_loop (lookup64 w # r4) (q + 3) v = (v * 64 + w) mod 256 # dec_loop r4 (q + 4) (v * 64 + w)"
    by (simp only: dec_loop.simps lookup64_inv(2) [OF assms(5)] m S Let_def shifts [OF assms(1)] c)
      (simp add: drop_bit_eq_div)
qed

lemma dec_arith:
  assumes "a < 256" "b < 256" "c < (256 :: nat)"
  shows "(a div 4 * 64 + (a mod 4 * 16 + b div 16)) div 16 mod 256 = a"
    and "((a div 4 * 64 + (a mod 4 * 16 + b div 16)) * 64 + (b mod 16 * 4 + c div 64)) div 4 mod 256 = b"
    and "(((a div 4 * 64 + (a mod 4 * 16 + b div 16)) * 64 + (b mod 16 * 4 + c div 64)) * 64 + c mod 64) mod 256 = c"
proof -
  have A: "a div 4 * 64 + (a mod 4 * 16 + b div 16) = a * 16 + b div 16"
    using div_mod_scale [of a 4 16] by simp
  have B: "(a * 16 + b div 16) * 64 + (b mod 16 * 4 + c div 64) = (a * 256 + b) * 4 + c div 64"
    using div_mod_scale [of b 16 4] by simp
  have C: "((a * 256 + b) * 4 + c div 64) * 64 + c mod 64 = (a * 256 + b) * 256 + c"
    using div_mult_mod_eq [of c 64] by (simp add: algebra_simps)
  have "b div 16 < 16" "c div 64 < 4" using assms by simp_all
  then show "(a div 4 * 64 + (a mod 4 * 16 + b div 16)) div 16 mod 256 = a"
    and "((a div 4 * 64 + (a mod 4 * 16 + b div 16)) * 64 + (b mod 16 * 4 + c div 64)) div 4 mod 256 = b"
    using assms split_radix(1) [of "b div 16" 16 a] split_radix(1) [of "c div 64" 4 "a * 256 + b"]
      split_radix(2) [of b 256 a] by (simp_all only: A B mod_less)
  show "(((a div 4 * 64 + (a mod 4 * 16 + b div 16)) * 64 + (b mod 16 * 4 + c div 64)) * 64 + c mod 64) mod 256 = c"
    using split_radix(2) [OF assms(3), of "a * 256 + b"] by (simp only: A B C)
qed

lemma dec_loop_full:
  "3 dvd length xs \<Longrightarrow> q mod 4 = 0 \<Longrightarrow>
    \<exists>t. dec_loop (ref64 xs @ ys) q s = map unat xs @ dec_loop ys (q + length (ref64 xs)) t"
proof (induction xs arbitrary: q s rule: ref64.induct)
  case (1 a b c r)
  then have "3 dvd 3 + length r" by (simp add: numeral_3_eq_3)
  then have len: "3 dvd length r" by (simp only: dvd_add_triv_left_iff)
  have lt: "unat a div 4 < 64" "unat a mod 4 * 16 + unat b div 16 < 64"
     "unat b mod 16 * 4 + unat c div 64 < 64" "unat c mod 64 < 64"
    by (rule sextet_lt; rule unat8)+
  have q4: "(q + 4) mod 4 = 0" using "1.prems" by simp
  obtain t where t: "dec_loop (ref64 r @ ys) (q + 4)
        (((unat a div 4 * 64 + (unat a mod 4 * 16 + unat b div 16)) * 64
          + (unat b mod 16 * 4 + unat c div 64)) * 64 + unat c mod 64)
      = map unat r @ dec_loop ys (q + 4 + length (ref64 r)) t"
    using "1.IH" [OF len q4] by blast
  have len4: "length (ref64 (a # b # c # r)) = 4 + length (ref64 r)" by simp
  show ?case
    unfolding len4 using t by (intro exI [of _ t])
      (simp only: ref64.simps append_Cons append_Nil dec_group4 [OF "1.prems"(2) lt]
        dec_arith [OF unat8 unat8 unat8] list.map add.assoc)
qed (auto simp: not_dvd2)

lemma strip_pad_keeps: "c \<in> set s \<Longrightarrow> c \<noteq> CHR ''='' \<Longrightarrow> c \<in> set (strip_pad s)"
  by (auto simp: strip_pad_def suffix_def)

lemma strip_pad_eqs:
  "CHR ''='' \<notin> set s \<Longrightarrow> strip_pad s = s"
  "CHR ''='' \<notin> set s \<Longrightarrow> strip_pad (s @ ''='') = s"
  "strip_pad (s @ ''=='') = s"
proof -
  have two: "zs @ ''=='' = (zs @ ''='') @ ''=''" for zs by simp
  show "CHR ''='' \<notin> set s \<Longrightarrow> strip_pad s = s"
    using set_mono_suffix [of "''==''" s] set_mono_suffix [of "''=''" s] by (auto simp: strip_pad_def)
  show "strip_pad (s @ ''='') = s" if "CHR ''='' \<notin> set s"
  proof -
    have "\<not> suffix ''=='' (s @ ''='')"
    proof
      assume "suffix ''=='' (s @ ''='')"
      then obtain zs where "s @ ''='' = (zs @ ''='') @ ''=''" unfolding suffix_def two by blast
      then show False using that by (simp only: append1_eq_conv) simp
    qed
    then show ?thesis by (simp add: strip_pad_def suffix_def)
  qed
  show "strip_pad (s @ ''=='') = s" by (simp add: strip_pad_def suffix_def)
qed

lemma code_no_space: "c \<in> set code64 \<Longrightarrow> \<not> is_b64_space c"
  by (auto simp: code64_def is_b64_space_def)

lemma eq_no_space: "\<not> is_b64_space (CHR ''='')" by (simp add: is_b64_space_def)

lemma decode64_text:
  assumes "set t \<subseteq> set code64" "length (t @ pad) mod 4 = 0" "pad \<in> {'''', ''='', ''==''}"
  shows "decode64 (t @ pad) = (if length t mod 4 = 1 then
      Inl (Thrown (JStr ''Invalid character: the string to be decoded is not correctly encoded.''))
    else Inr (dec_loop t 0 0))"
proof -
  have "filter (\<lambda>c. \<not> is_b64_space c) (t @ pad) = t @ pad"
    using code_no_space [OF subsetD [OF assms(1)]] assms(3) eq_no_space
    by (auto simp: filter_id_conv)
  moreover have "strip_pad (t @ pad) = t"
  proof -
    have "CHR ''='' \<notin> set t" using assms(1) eq_not_in_code by blast
    then show ?thesis using assms(3) strip_pad_eqs [of t] by auto
  qed
  moreover have "\<not> list_ex (\<lambda>c. c \<notin> set code64) t" using assms(1) by (auto simp: list_ex_iff)
  ultimately show ?thesis using assms(2) by (simp add: decode64_def Let_def)
qed

lemma decode64_bad_char:
  assumes "c \<in> set s" "c \<notin> set code64" "c \<noteq> CHR ''=''" "\<not> is_b64_space c"
  shows "decode64 s = Inl (Thrown (JStr ''Invalid character: the string to be decoded is not correctly encoded.''))"
proof -
  have "c \<in> set (filter (\<lambda>c. \<not> is_b64_space c) s)" using assms by simp
  then show ?thesis
    using strip_pad_keeps [OF _ assms(3)] assms(2) by (auto simp: decode64_def Let_def list_ex_iff)
qed

text \<open>
  The decoder of \<open>base-64\<close> returns the code units that were encoded; a text with a
  character outside the alphabet is an error, never a wrong result.
\<close>

theorem decode64_roundtrip:
  "decode64 (ref64 bs) = Inr (map unat bs)
   \<and> (c \<in> set code64 \<union> {CHR ''=''} \<or> is_b64_space c \<or> decode64 (s1 @ c # s2) =
        Inl (Thrown (JStr ''Invalid character: the string to be decoded is not correctly encoded.'')))"
proof
  obtain xs ys where bs: "bs = xs @ ys" and xs: "3 dvd length xs"
    and ys: "ys = [] \<or> (\<exists>a. ys = [a]) \<or> (\<exists>a b. ys = [a, b])" by (rule tails3)
  have l4: "length (ref64 xs) mod 4 = 0" and code: "set (ref64 xs) \<subseteq> set code64"
    using full_groups [OF xs] by auto
  have ref: "ref64 bs = ref64 xs @ ref64 ys" unfolding bs by (rule ref64_append [OF xs])
  have t: "\<exists>t. dec_loop (ref64 xs @ zs) 0 0 = map unat xs @ dec_loop zs (length (ref64 xs)) t" for zs
    using dec_loop_full [OF xs, of 0 zs 0] by simp
  note C = lookup64_inv(3) and T = tail_lt
  consider "ys = []" | a where "ys = [a]" | a b where "ys = [a, b]" using ys by blast
  then show "decode64 (ref64 bs) = Inr (map unat bs)"
  proof cases
    case 1
    then show ?thesis using decode64_text [of "ref64 xs" "''''"] code l4 t [of "[]"] by (auto simp: ref bs)
  next
    case 2
    define g where "g = [lookup64 (unat a div 4), lookup64 (unat a mod 4 * 16)]"
    have "decode64 ((ref64 xs @ g) @ ''=='') = Inr (dec_loop (ref64 xs @ g) 0 0)"
      by (subst decode64_text) (use code l4 C T in \<open>auto simp: g_def mod_Suc\<close>)
    moreover obtain t where "dec_loop (ref64 xs @ g) 0 0 = map unat xs @ dec_loop g (length (ref64 xs)) t"
      using t by blast
    moreover have "dec_loop g (length (ref64 xs)) t = [unat a]" for t
      using dec_arith(1) [OF unat8 [of a] zero_less_numeral zero_less_numeral]
      by (simp only: g_def dec_group4(1,2) [OF l4 T(1) T(2) T(2) T(2)]) simp
    moreover have "ref64 bs = (ref64 xs @ g) @ ''==''" using ref 2 by (simp add: g_def)
    ultimately show ?thesis by (simp only: bs 2 map_append list.map)
  next
    case 3
    define g where "g = [lookup64 (unat a div 4), lookup64 (unat a mod 4 * 16 + unat b div 16),
      lookup64 (unat b mod 16 * 4)]"
    have "decode64 ((ref64 xs @ g) @ ''='') = Inr (dec_loop (ref64 xs @ g) 0 0)"
      by (subst decode64_text) (use code l4 C T in \<open>auto simp: g_def mod_Suc\<close>)
    moreover obtain t where "dec_loop (ref64 xs @ g) 0 0 = map unat xs @ dec_loop g (length (ref64 xs)) t"
      using t by blast
    moreover have "dec_loop g (length (ref64 xs)) t = [unat a, unat b]" for t
      using dec_arith(1,2) [OF unat8 [of a] unat8 [of b] zero_less_numeral]
      by (simp only: g_def dec_group4 [OF l4 T(1) T(3) T(4) T(4)]) simp
    moreover have "ref64 bs = (ref64 xs @ g) @ ''=''" using ref 3 by (simp add: g_def)
    ultimately show ?thesis by (simp only: bs 3 map_append list.map)
  qed
next
  show "c \<in> set code64 \<union> {CHR ''=''} \<or> is_b64_space c \<or> decode64 (s1 @ c # s2) =
        Inl (Thrown (JStr ''Invalid character: the string to be decoded is not correctly encoded.''))"
    using decode64_bad_char [of c "s1 @ c # s2"] by auto
qed

end
