(* ===== verification/Act.thy ===== *)
theory Act
  imports Prelude
begin

text \<open>
  Effects. An action transforms a state and returns a value, throws, or does not return
  (\<open>Stuck\<close>, the value of a loop that exceeds its fuel). The statements after a throw are
  skipped and the state reached so far is kept, as in the language. The triples of the second
  half are the rules by which the invariants are carried through the operations.
\<close>

subsection \<open>Actions\<close>

datatype 'r res = Done 'r | Raise exn | Stuck

type_synonym ('w, 'r) act = "'w \<Rightarrow> 'r res \<times> 'w"

definition ret :: "'r \<Rightarrow> ('w, 'r) act" where
  "ret x w = (Done x, w)"

definition raise :: "exn \<Rightarrow> ('w, 'r) act" where
  "raise e w = (Raise e, w)"

definition stuck :: "('w, 'r) act" where
  "stuck w = (Stuck, w)"

definition modify :: "('w \<Rightarrow> 'w) \<Rightarrow> ('w, unit) act" where
  "modify f w = (Done (), f w)"

text \<open>\<open>look f k\<close> reads \<open>f\<close> of the state and goes on with it.\<close>

definition look :: "('w \<Rightarrow> 'x) \<Rightarrow> ('x \<Rightarrow> ('w, 'r) act) \<Rightarrow> ('w, 'r) act" where
  "look f k w = k (f w) w"

definition bnd :: "('w, 'x) act \<Rightarrow> ('x \<Rightarrow> ('w, 'r) act) \<Rightarrow> ('w, 'r) act" where
  "bnd m k w = (case m w of (Done x, w') \<Rightarrow> k x w' | (Raise e, w') \<Rightarrow> (Raise e, w') | (Stuck, w') \<Rightarrow> (Stuck, w'))"

fun steps :: "('w, unit) act list \<Rightarrow> ('w, unit) act" where
  "steps [] = ret ()"
| "steps (m # ms) = bnd m (\<lambda>_. steps ms)"

definition each :: "('x \<Rightarrow> ('w, unit) act) \<Rightarrow> 'x list \<Rightarrow> ('w, unit) act" where
  "each f xs = steps (map f xs)"

definition skip :: "('w, unit) act" where
  "skip = ret ()"

lemma each_Nil [simp]: "each f [] = ret ()" by (simp add: each_def)
lemma each_Cons [simp]: "each f (x # xs) = bnd (f x) (\<lambda>_. each f xs)" by (simp add: each_def)

named_theorems act_eval \<open>unfolding of the combinators on a state\<close>

lemmas [act_eval] = ret_def raise_def stuck_def modify_def look_def skip_def

lemma bnd_eval [act_eval]:
  "m w = (Done x, w') \<Longrightarrow> bnd m k w = k x w'"
  "m w = (Raise e, w') \<Longrightarrow> bnd m k w = (Raise e, w')"
  "m w = (Stuck, w') \<Longrightarrow> bnd m k w = (Stuck, w')"
  by (simp_all add: bnd_def)

lemma bnd_ret [simp]: "bnd (ret x) k = k x"
  by (simp add: fun_eq_iff bnd_def ret_def)

lemma bnd_modify [simp]: "bnd (modify f) k w = k () (f w)"
  by (simp add: bnd_def modify_def)

lemma bnd_look [simp]: "bnd (look f g) k w = bnd (g (f w)) k w"
  by (simp add: bnd_def look_def)

lemma bnd_raise [simp]: "bnd (raise e) k w = (Raise e, w)"
  by (simp add: bnd_def raise_def)

lemma bnd_assoc: "bnd (bnd m k) h w = bnd m (\<lambda>x. bnd (k x) h) w"
  by (simp add: bnd_def split: prod.split res.split)

subsection \<open>Triples\<close>

text \<open>From a state in \<open>P\<close>, the action ends in \<open>Q\<close>, whether it returns or not.\<close>

definition hoare :: "('w \<Rightarrow> bool) \<Rightarrow> ('w, 'r) act \<Rightarrow> ('w \<Rightarrow> bool) \<Rightarrow> bool" where
  "hoare P m Q \<longleftrightarrow> (\<forall>w. P w \<longrightarrow> Q (snd (m w)))"

abbreviation keeps :: "('w \<Rightarrow> bool) \<Rightarrow> ('w, 'r) act \<Rightarrow> bool" where
  "keeps I m \<equiv> hoare I m I"

text \<open>The action returns normally and establishes \<open>Q\<close>.\<close>

definition total :: "('w \<Rightarrow> bool) \<Rightarrow> ('w, 'r) act \<Rightarrow> ('r \<Rightarrow> 'w \<Rightarrow> bool) \<Rightarrow> bool" where
  "total P m Q \<longleftrightarrow> (\<forall>w. P w \<longrightarrow> (\<exists>x w'. m w = (Done x, w') \<and> Q x w'))"

named_theorems wp \<open>introduction rules for keeps\<close>

lemma hoareD: "hoare P m Q \<Longrightarrow> P w \<Longrightarrow> Q (snd (m w))"
  by (simp add: hoare_def)

lemma keeps_ret [wp]: "keeps I (ret x)"
  and keeps_raise [wp]: "keeps I (raise e)"
  and keeps_stuck [wp]: "keeps I stuck"
  and keeps_skip [wp]: "keeps I skip"
  by (simp_all add: hoare_def act_eval)

lemma keeps_bnd [wp]: "keeps I m \<Longrightarrow> (\<And>x. keeps I (k x)) \<Longrightarrow> keeps I (bnd m k)"
  by (auto simp: hoare_def bnd_def split: prod.split res.split)

lemma keeps_steps: "(\<And>m. m \<in> set ms \<Longrightarrow> keeps I m) \<Longrightarrow> keeps I (steps ms)"
  by (induction ms) (auto intro: keeps_ret keeps_bnd)

lemma keeps_steps_Nil [wp]: "keeps I (steps [])"
  and keeps_steps_Cons [wp]: "keeps I m \<Longrightarrow> keeps I (steps ms) \<Longrightarrow> keeps I (steps (m # ms))"
  by (simp_all add: keeps_ret keeps_bnd)

lemma keeps_each [wp]: "(\<And>x. keeps I (f x)) \<Longrightarrow> keeps I (each f xs)"
  unfolding each_def by (rule keeps_steps) auto

lemma keeps_look [wp]: "(\<And>x. keeps I (k x)) \<Longrightarrow> keeps I (look f k)"
  by (auto simp: hoare_def look_def)

lemma keeps_look_state: "(\<And>w. I w \<Longrightarrow> I (snd (k (f w) w))) \<Longrightarrow> keeps I (look f k)"
  by (auto simp: hoare_def look_def)

lemma keeps_if [wp]: "(c \<Longrightarrow> keeps I m) \<Longrightarrow> (\<not> c \<Longrightarrow> keeps I n) \<Longrightarrow> keeps I (if c then m else n)"
  by simp

lemma keeps_option [wp]:
  "(x = None \<Longrightarrow> keeps I m) \<Longrightarrow> (\<And>y. x = Some y \<Longrightarrow> keeps I (k y)) \<Longrightarrow>
     keeps I (case x of None \<Rightarrow> m | Some y \<Rightarrow> k y)"
  by (simp split: option.split)

lemma keeps_sum [wp]:
  "(\<And>e. x = Inl e \<Longrightarrow> keeps I (m e)) \<Longrightarrow> (\<And>y. x = Inr y \<Longrightarrow> keeps I (k y)) \<Longrightarrow>
     keeps I (case x of Inl e \<Rightarrow> m e | Inr y \<Rightarrow> k y)"
  by (simp split: sum.split)

lemma keeps_modify: "(\<And>w. I w \<Longrightarrow> I (f w)) \<Longrightarrow> keeps I (modify f)"
  by (simp add: hoare_def act_eval)

text \<open>Triples with different ends, for the few places where an invariant is opened.\<close>

lemma hoare_bnd: "hoare P m R \<Longrightarrow> (\<And>x. hoare R (k x) Q) \<Longrightarrow> (\<And>w. R w \<Longrightarrow> Q w) \<Longrightarrow> hoare P (bnd m k) Q"
  by (auto simp: hoare_def bnd_def split: prod.split res.split)

lemma hoare_steps_Cons: "hoare P m R \<Longrightarrow> hoare R (steps ms) Q \<Longrightarrow> (\<And>w. R w \<Longrightarrow> Q w) \<Longrightarrow> hoare P (steps (m # ms)) Q"
  by (simp add: hoare_bnd)

lemma hoare_modify: "(\<And>w. P w \<Longrightarrow> Q (f w)) \<Longrightarrow> hoare P (modify f) Q"
  by (simp add: hoare_def act_eval)

lemma hoare_look: "(\<And>x. hoare (\<lambda>w. P w \<and> f w = x) (k x) Q) \<Longrightarrow> hoare P (look f k) Q"
  by (auto simp: hoare_def look_def)

lemma hoare_weaken: "hoare P m Q \<Longrightarrow> (\<And>w. P' w \<Longrightarrow> P w) \<Longrightarrow> (\<And>w. Q w \<Longrightarrow> Q' w) \<Longrightarrow> hoare P' m Q'"
  by (auto simp: hoare_def)

lemma hoare_modify_bnd: "(\<And>x. hoare R (k x) Q) \<Longrightarrow> (\<And>w. P w \<Longrightarrow> R (f w)) \<Longrightarrow> hoare P (bnd (modify f) k) Q"
  by (auto simp: hoare_def)

lemma total_keeps: "hoare P m I \<Longrightarrow> total P m (\<lambda>_ _. True) \<Longrightarrow> total P m (\<lambda>_. I)"
  by (auto simp: hoare_def total_def) (metis snd_conv)

end
