(* ===== verification/Sc_Errors.thy ===== *)
theory Sc_Errors
  imports Prelude
begin

text \<open>
  The error objects of the client library (\<open>sc-errors\<close>, module 21 of
  \<open>socketcluster.js\<close>): the constructors, the two tables of close codes, and the
  conversion of an error to and from the form sent over the wire. An error object is a
  \<open>JObj\<close>; its stack, which V8 keeps out of enumeration, is not part of it.
\<close>

datatype error_kind =
    AuthTokenExpiredError | AuthTokenInvalidError | AuthTokenNotBeforeError | AuthTokenError
  | SilentMiddlewareBlockedError | InvalidActionError | InvalidArgumentsError
  | InvalidOptionsError | InvalidMessageError | SocketProtocolError | ServerProtocolError
  | HTTPServerError | ResourceLimitError | TimeoutError | BadConnectionError | BrokerError
  | ProcessExitError | UnknownError

fun error_name :: "error_kind \<Rightarrow> string" where
  "error_name AuthTokenExpiredError = ''AuthTokenExpiredError''"
| "error_name AuthTokenInvalidError = ''AuthTokenInvalidError''"
| "error_name AuthTokenNotBeforeError = ''AuthTokenNotBeforeError''"
| "error_name AuthTokenError = ''AuthTokenError''"
| "error_name SilentMiddlewareBlockedError = ''SilentMiddlewareBlockedError''"
| "error_name InvalidActionError = ''InvalidActionError''"
| "error_name InvalidArgumentsError = ''InvalidArgumentsError''"
| "error_name InvalidOptionsError = ''InvalidOptionsError''"
| "error_name InvalidMessageError = ''InvalidMessageError''"
| "error_name SocketProtocolError = ''SocketProtocolError''"
| "error_name ServerProtocolError = ''ServerProtocolError''"
| "error_name HTTPServerError = ''HTTPServerError''"
| "error_name ResourceLimitError = ''ResourceLimitError''"
| "error_name TimeoutError = ''TimeoutError''"
| "error_name BadConnectionError = ''BadConnectionError''"
| "error_name BrokerError = ''BrokerError''"
| "error_name ProcessExitError = ''ProcessExitError''"
| "error_name UnknownError = ''UnknownError''"

text \<open>The third property some constructors take from their second argument.\<close>

definition error_extra :: "error_kind \<Rightarrow> string option" where
  "error_extra k =
     (case k of AuthTokenExpiredError \<Rightarrow> Some ''expiry''
      | AuthTokenNotBeforeError \<Rightarrow> Some ''date''
      | SilentMiddlewareBlockedError \<Rightarrow> Some ''type''
      | SocketProtocolError \<Rightarrow> Some ''code''
      | BadConnectionError \<Rightarrow> Some ''type''
      | ProcessExitError \<Rightarrow> Some ''code''
      | _ \<Rightarrow> None)"

definition new_error :: "error_kind \<Rightarrow> string \<Rightarrow> js \<Rightarrow> js" where
  "new_error k message arg =
     JObj ([(''name'', JStr (error_name k)), (''message'', JStr message)]
           @ (case error_extra k of None \<Rightarrow> [] | Some p \<Rightarrow> [(p, arg)]))"

lemma get_new_error [simp]:
  "get (new_error k msg a) ''name'' = JStr (error_name k)"
  "get (new_error k msg a) ''message'' = JStr msg"
  by (simp_all add: new_error_def)

lemma truthy_new_error [simp]: "truthy (new_error k msg a)"
  by (simp add: new_error_def)

lemma error_name_inject: "error_name k = error_name k' \<longleftrightarrow> k = k'"
  by (cases k; cases k') simp_all

subsection \<open>Close codes\<close>

definition socketProtocolErrorStatuses :: "(int \<times> string) list" where
  "socketProtocolErrorStatuses =
    [(1001, ''Socket was disconnected''),
     (1002, ''A WebSocket protocol error was encountered''),
     (1003, ''Server terminated socket because it received invalid data''),
     (1005, ''Socket closed without status code''),
     (1006, ''Socket hung up''),
     (1007, ''Message format was incorrect''),
     (1008, ''Encountered a policy violation''),
     (1009, ''Message was too big to process''),
     (1010, ''Client ended the connection because the server did not comply with extension requirements''),
     (1011, ''Server encountered an unexpected fatal condition''),
     (4000, ''Server ping timed out''),
     (4001, ''Client pong timed out''),
     (4002, ''Server failed to sign auth token''),
     (4003, ''Failed to complete handshake''),
     (4004, ''Client failed to save auth token''),
     (4005, ''Did not receive #handshake from client before timeout''),
     (4006, ''Failed to bind socket to message broker''),
     (4007, ''Client connection establishment timed out''),
     (4008, ''Server rejected handshake from client'')]"

definition socketProtocolIgnoreStatuses :: "(int \<times> string) list" where
  "socketProtocolIgnoreStatuses = [(1000, ''Socket closed normally''), (1001, ''Socket hung up'')]"

text \<open>Reading a table with a number as the key.\<close>

definition status_entry :: "(int \<times> string) list \<Rightarrow> jnum \<Rightarrow> string option" where
  "status_entry tab n = (case n of Fin q \<Rightarrow> if q = of_int \<lfloor>q\<rfloor> then map_of tab \<lfloor>q\<rfloor> else None | _ \<Rightarrow> None)"

lemma status_int [simp]: "status_entry tab (Fin (of_int c)) = map_of tab c"
  by (simp add: status_entry_def)

lemma status_numeral [simp]: "status_entry tab (Fin (numeral n)) = map_of tab (numeral n)"
  using status_int [of tab "numeral n"] by simp

subsection \<open>Wire form\<close>

text \<open>
  The lookup \<open>unserializableErrorProperties[i]\<close> also finds what every object inherits.
\<close>

definition inherited :: "string set" where
  "inherited = {''constructor'', ''toString'', ''toLocaleString'', ''valueOf'', ''hasOwnProperty'',
     ''isPrototypeOf'', ''propertyIsEnumerable'', ''__proto__'', ''__defineGetter__'', ''__defineSetter__'',
     ''__lookupGetter__'', ''__lookupSetter__''}"

definition unserializable :: "string \<Rightarrow> bool" where
  "unserializable i \<longleftrightarrow> i \<in> {''domain'', ''domainEmitter'', ''domainThrown''} \<or> i \<in> inherited"

lemma message_serializable [simp]: "\<not> unserializable ''message''"
  by (simp add: unserializable_def inherited_def)

text \<open>
  \<open>dehydrateError\<close> without a stack trace: the message first, then every enumerable
  property but those of error domains and those whose names all objects inherit. Its last step, \<open>decycle\<close>, leaves the trees that
  are values of this model unchanged.
\<close>

definition dehydrateError :: "js \<Rightarrow> js" where
  "dehydrateError error =
     (case error of
        JObj ps \<Rightarrow> JObj (fold (\<lambda>i m. if unserializable i then m else al_set i (get error i) m)
                     (key_order (map fst ps)) [(''message'', get error ''message'')])
      | JArr vs \<Rightarrow> JObj (fold (\<lambda>i m. al_set (show_nat i) (vs ! i) m) [0..<length vs] [(''message'', JUndef)])
      | _ \<Rightarrow> error)"

text \<open>
  \<open>hydrateError\<close>: a fresh \<open>Error\<close> with the string form of the message (a parameter), when
  it is not undefined, over which the own properties are copied. Assigning \<open>__proto__\<close> makes no
  own property (what a replaced prototype would add is outside the model, as is an object with
  an own \<open>hasOwnProperty\<close>, which the code calls).
\<close>

definition hydrateError :: "(js \<Rightarrow> string) \<Rightarrow> js \<Rightarrow> js" where
  "hydrateError str error =
     (case error of
        JUndef \<Rightarrow> JNull | JNull \<Rightarrow> JNull
      | JObj ps \<Rightarrow> JObj (fold (\<lambda>i m. if i = ''__proto__'' then m else al_set i (get error i) m) (key_order (map fst ps))
                     (if get error ''message'' = JUndef then []
                      else [(''message'', JStr (str (get error ''message'')))]))
      | JArr vs \<Rightarrow> JObj (fold (\<lambda>i m. al_set (show_nat i) (vs ! i) m) [0..<length vs] [])
      | _ \<Rightarrow> error)"

lemma hydrateError_null_iff: "hydrateError str e = JNull \<longleftrightarrow> nullish e"
  by (cases e) (simp_all add: hydrateError_def)

lemma hydrateError_truthy: "hydrateError str e = JUndef \<longleftrightarrow> False"
  by (cases e) (simp_all add: hydrateError_def)

lemma get_fold_skip:
  "get (JObj (fold (\<lambda>i m. if P i then m else al_set i (f i) m) ks m0)) k
     = (if k \<in> set ks \<and> \<not> P k then f k else get (JObj m0) k)"
proof (induction ks arbitrary: m0)
  case (Cons i ks)
  show ?case unfolding fold_Cons comp_def Cons.IH by auto
qed simp

lemma get_absent: "k \<notin> fst ` set ps \<Longrightarrow> get (JObj ps) k = JUndef"
proof -
  assume "k \<notin> fst ` set ps"
  then have "map_of ps k = None" using map_of_eq_None_iff by metis
  then show ?thesis by simp
qed



end
