(* ===== verification/Emitter.thy ===== *)
theory Emitter
  imports Prelude
begin

text \<open>
  The event emitter under the client socket, its transport and its channels
  (\<open>component-emitter\<close>, module 12 of \<open>socketcluster.js\<close>). A listener is a function
  object: a plain function, or the wrapper that \<open>once\<close> makes around one. What a plain
  function does is a parameter of \<open>emit\<close>, a transformer of the program's state and of the
  emitter itself, so that a listener may register, remove and emit in turn. Listeners return
  here: one that throws would end the emission (the client's model, \<open>Client_State\<close>, has that).
\<close>

subsection \<open>Data and operations\<close>

text \<open>\<open>OnceFn w ev f\<close> is the wrapper object number \<open>w\<close>, registered for \<open>ev\<close>, around \<open>f\<close>.\<close>

datatype fnref = Fn nat | OnceFn nat string fnref

record emitter =
  cbs :: "string \<Rightarrow> fnref list option"
  next_wrapper :: nat

definition new_emitter :: emitter where
  "new_emitter = \<lparr>cbs = (\<lambda>_. None), next_wrapper = 0\<rparr>"

definition listeners :: "emitter \<Rightarrow> string \<Rightarrow> fnref list" where
  "listeners e ev = (case cbs e ev of None \<Rightarrow> [] | Some fs \<Rightarrow> fs)"

definition hasListeners :: "emitter \<Rightarrow> string \<Rightarrow> bool" where
  "hasListeners e ev = (listeners e ev \<noteq> [])"

definition on :: "emitter \<Rightarrow> string \<Rightarrow> fnref \<Rightarrow> emitter" where
  "on e ev f = e\<lparr>cbs := (cbs e)(ev := Some (listeners e ev @ [f]))\<rparr>"

definition once :: "emitter \<Rightarrow> string \<Rightarrow> fnref \<Rightarrow> emitter" where
  "once e ev f =
     (let w = next_wrapper e
      in on (e\<lparr>next_wrapper := Suc w\<rparr>) ev (OnceFn w ev f))"

text \<open>The argument list of \<open>off\<close>: nothing, an event, or an event and a function.\<close>

datatype off_args = OffAll | OffEvent string | OffFn string fnref

definition same_fn :: "fnref \<Rightarrow> fnref \<Rightarrow> bool" where
  "same_fn cb f \<longleftrightarrow> cb = f \<or> (case cb of OnceFn _ _ g \<Rightarrow> g = f | Fn _ \<Rightarrow> False)"

fun splice_first :: "fnref \<Rightarrow> fnref list \<Rightarrow> fnref list" where
  "splice_first f [] = []"
| "splice_first f (cb # cs) = (if same_fn cb f then cs else cb # splice_first f cs)"

fun off :: "emitter \<Rightarrow> off_args \<Rightarrow> emitter" where
  "off e OffAll = e\<lparr>cbs := (\<lambda>_. None)\<rparr>"
| "off e (OffEvent ev) = e\<lparr>cbs := (cbs e)(ev := None)\<rparr>"
| "off e (OffFn ev f) =
     (case cbs e ev of None \<Rightarrow> e
      | Some fs \<Rightarrow> e\<lparr>cbs := (cbs e)(ev := Some (splice_first f fs))\<rparr>)"

text \<open>Calling a listener: a wrapper removes itself and then calls what it wraps.\<close>

fun call_fn :: "(nat \<Rightarrow> 's \<times> emitter \<Rightarrow> 's \<times> emitter) \<Rightarrow> fnref \<Rightarrow> 's \<times> emitter \<Rightarrow> 's \<times> emitter" where
  "call_fn run (Fn n) st = run n st"
| "call_fn run (OnceFn w ev f) st = call_fn run f (fst st, off (snd st) (OffFn ev (OnceFn w ev f)))"

text \<open>\<open>emit\<close> calls the listeners of a copy of the list taken at the start.\<close>

definition emit_ev ::
  "(nat \<Rightarrow> 's \<times> emitter \<Rightarrow> 's \<times> emitter) \<Rightarrow> string \<Rightarrow> 's \<times> emitter \<Rightarrow> 's \<times> emitter" where
  "emit_ev run ev st = fold (call_fn run) (listeners (snd st) ev) st"

subsection \<open>Registration\<close>

lemma listeners_on [simp]:
  "listeners (on e ev f) ev' = (if ev' = ev then listeners e ev @ [f] else listeners e ev')"
  by (simp add: listeners_def on_def)

lemma listeners_once [simp]:
  "listeners (once e ev f) ev' =
     (if ev' = ev then listeners e ev @ [OnceFn (next_wrapper e) ev f] else listeners e ev')"
  by (simp add: once_def Let_def) (simp add: listeners_def)

lemma listeners_off [simp]:
  "listeners (off e OffAll) ev' = []"
  "listeners (off e (OffEvent ev)) ev' = (if ev' = ev then [] else listeners e ev')"
  "listeners (off e (OffFn ev f)) ev' = (if ev' = ev then splice_first f (listeners e ev) else listeners e ev')"
  by (auto simp: listeners_def split: option.splits)

declare off.simps [simp del]

lemma splice_first_notin: "(\<And>cb. cb \<in> set fs \<Longrightarrow> \<not> same_fn cb f) \<Longrightarrow> splice_first f fs = fs"
  by (induction fs) auto

lemma splice_first_append:
  "(\<And>cb. cb \<in> set fs \<Longrightarrow> \<not> same_fn cb f) \<Longrightarrow> splice_first f (fs @ gs) = fs @ splice_first f gs"
  by (induction fs) auto

text \<open>
  \<open>off\<close> with a function undoes the latest \<open>on\<close> or \<open>once\<close> of a function that was not
  registered for the event before: every event has the listeners it had.
\<close>

theorem off_undoes_on:
  assumes "\<And>cb. cb \<in> set (listeners e ev) \<Longrightarrow> \<not> same_fn cb f"
  shows "listeners (off (on e ev f) (OffFn ev f)) ev' = listeners e ev'
       \<and> listeners (off (once e ev f) (OffFn ev f)) ev' = listeners e ev'"
  using assms by (auto simp: splice_first_append same_fn_def)

subsection \<open>Emission\<close>

text \<open>
  A well-formed emitter: every wrapper is around a plain function and registered for its
  own event. The operations keep it.
\<close>

definition wf_listener :: "string \<Rightarrow> fnref \<Rightarrow> bool" where
  "wf_listener ev f \<longleftrightarrow> (case f of Fn _ \<Rightarrow> True | OnceFn w ev' g \<Rightarrow> ev' = ev \<and> (case g of Fn _ \<Rightarrow> True | OnceFn _ _ _ \<Rightarrow> False))"

definition is_once :: "fnref \<Rightarrow> bool" where
  "is_once f \<longleftrightarrow> (case f of Fn _ \<Rightarrow> False | OnceFn _ _ _ \<Rightarrow> True)"

fun inner :: "fnref \<Rightarrow> nat" where
  "inner (Fn n) = n"
| "inner (OnceFn _ _ f) = inner f"

definition wf_emitter :: "emitter \<Rightarrow> bool" where
  "wf_emitter e \<longleftrightarrow> (\<forall>ev. list_all (wf_listener ev) (listeners e ev))"

lemma wf_new [simp]: "wf_emitter new_emitter"
  by (simp add: wf_emitter_def new_emitter_def listeners_def)

lemma wf_on: "wf_emitter e \<Longrightarrow> wf_emitter (on e ev (Fn n))"
  by (simp add: wf_emitter_def wf_listener_def)

lemma wf_once: "wf_emitter e \<Longrightarrow> wf_emitter (once e ev (Fn n))"
  by (simp add: wf_emitter_def wf_listener_def)

lemma set_splice_first: "set (splice_first f fs) \<subseteq> set fs"
  by (induction fs) auto

lemma wf_off: "wf_emitter e \<Longrightarrow> wf_emitter (off e a)"
  by (cases a) (auto simp: wf_emitter_def list_all_iff dest: subsetD [OF set_splice_first])

text \<open>An observer: a function that records its own call and leaves the emitter alone.\<close>

definition observe :: "nat \<Rightarrow> nat list \<times> emitter \<Rightarrow> nat list \<times> emitter" where
  "observe n st = (fst st @ [n], snd st)"

lemma splice_first_wrapper:
  "list_all (\<lambda>f. \<not> is_once f) ks \<Longrightarrow>
     splice_first (OnceFn w ev g) (ks @ OnceFn w ev g # fs) = ks @ fs"
  by (induction ks) (auto simp: same_fn_def is_once_def split: fnref.splits)

lemma emit_loop:
  assumes "list_all (wf_listener ev) fs" and "list_all (\<lambda>f. \<not> is_once f) ks"
    and "listeners e ev = ks @ fs"
  shows "\<exists>e'. fold (call_fn observe) fs (l, e) = (l @ map inner fs, e')
       \<and> listeners e' ev = ks @ filter (\<lambda>f. \<not> is_once f) fs
       \<and> (\<forall>ev'. ev' \<noteq> ev \<longrightarrow> listeners e' ev' = listeners e ev')"
  using assms
proof (induction fs arbitrary: ks l e)
  case Nil
  then show ?case by simp
next
  case (Cons f fs)
  show ?case
  proof (cases f)
    case (Fn n)
    then show ?thesis
      using Cons.IH [of "ks @ [f]" e "l @ [n]"] Cons.prems by (simp add: observe_def is_once_def)
  next
    case (OnceFn w ev' g)
    then obtain n where g: "ev' = ev" "g = Fn n"
      using Cons.prems by (auto simp: wf_listener_def split: fnref.splits)
    let ?e = "off e (OffFn ev (OnceFn w ev (Fn n)))"
    have "listeners ?e ev = ks @ fs"
      using Cons.prems OnceFn g by (simp add: splice_first_wrapper)
    from Cons.IH [of ks ?e "l @ [n]", OF _ _ this] Cons.prems show ?thesis
      by (simp add: OnceFn g observe_def is_once_def)
  qed
qed

text \<open>
  C37: One emission calls every listener registered for the event exactly once, in the order
  of registration; afterwards the listeners registered with \<open>once\<close> are gone, the others
  and those of other events are still there. (The listeners only record that they are called.)
\<close>

theorem emit_calls_each_once:
  assumes "wf_emitter e"
  shows "\<exists>e'. emit_ev observe ev (l, e) = (l @ map inner (listeners e ev), e')
       \<and> listeners e' ev = filter (\<lambda>f. \<not> is_once f) (listeners e ev)
       \<and> (\<forall>ev'. ev' \<noteq> ev \<longrightarrow> listeners e' ev' = listeners e ev')"
  using emit_loop [of ev "listeners e ev" "[]" e l] assms
  by (auto simp: emit_ev_def wf_emitter_def)

theorem emit_calls_each_once_witness:
  "fst (emit_ev observe ''connect'' ([], once (on (once new_emitter ''connect'' (Fn 1)) ''connect'' (Fn 2)) ''close'' (Fn 3)))
     = [1, 2]"
proof -
  let ?e = "once (on (once new_emitter ''connect'' (Fn 1)) ''connect'' (Fn 2)) ''close'' (Fn 3)"
  have "wf_emitter ?e" by (simp add: wf_on wf_once)
  from emit_calls_each_once [OF this, of "''connect''" "[]"] show ?thesis
    by (auto simp: new_emitter_def listeners_def [of "\<lparr>cbs = _, next_wrapper = _\<rparr>"])
qed

theorem off_undoes_on_witness:
  "listeners (off (on (on new_emitter ''a'' (Fn 1)) ''a'' (Fn 2)) (OffFn ''a'' (Fn 2))) ''a'' = [Fn 1]"
  using off_undoes_on [of "on new_emitter ''a'' (Fn 1)" "''a''" "Fn 2" "''a''"]
  by (auto simp: same_fn_def new_emitter_def listeners_def [of "\<lparr>cbs = _, next_wrapper = _\<rparr>"])

text \<open>
  A listener that emits the same event once more, when it is called for the first time:
  function 0 below; every other function only records its call.
\<close>

definition reenter :: "string \<Rightarrow> nat \<Rightarrow> nat list \<times> emitter \<Rightarrow> nat list \<times> emitter" where
  "reenter ev n st =
     (if n = 0 \<and> 0 \<notin> set (fst st) then emit_ev observe ev (observe n st) else observe n st)"

text \<open>
  A listener registered with \<open>once\<close> can be called twice: when an earlier listener of
  the same event emits the event again, the inner emission calls and removes it, and the
  outer emission calls it again from its copy of the list.
\<close>

theorem once_called_twice:
  "fst (emit_ev (reenter ev) ev ([], once (on new_emitter ev (Fn 0)) ev (Fn 1))) = [0, 0, 1, 1]"
  by (simp add: emit_ev_def reenter_def observe_def new_emitter_def same_fn_def
      listeners_def [of "\<lparr>cbs = _, next_wrapper = _\<rparr>"])

subsection \<open>The registry contract\<close>

text \<open>
  What the users of an emitter rely on: registering adds one listener at the end, removing
  an event's listeners empties it, and other events are unaffected.
\<close>

locale registry =
  fixes regs :: "'e \<Rightarrow> string \<Rightarrow> 'f list"
    and register :: "'e \<Rightarrow> string \<Rightarrow> 'f \<Rightarrow> 'e"
    and clear :: "'e \<Rightarrow> string \<Rightarrow> 'e"
  assumes regs_register: "regs (register e ev f) ev' = (if ev' = ev then regs e ev @ [f] else regs e ev')"
    and regs_clear: "regs (clear e ev) ev' = (if ev' = ev then [] else regs e ev')"
begin

lemma regs_register_all:
  "regs (fold (\<lambda>f e. register e ev f) fs e) ev' = (if ev' = ev then regs e ev @ fs else regs e ev')"
  by (induction fs arbitrary: e) (auto simp: regs_register)

lemma register_accumulates:
  "length (regs (fold (\<lambda>f e. register e ev f) fs e) ev) = length (regs e ev) + length fs"
  by (simp add: regs_register_all)

lemma clear_register: "regs (register (clear e ev) ev f) ev = [f]"
  by (simp add: regs_register regs_clear)

end

interpretation emitter_registry: registry listeners on "\<lambda>e ev. off e (OffEvent ev)"
  by unfold_locales auto

end
