(* ===== verification/Client_State.thy ===== *)
theory Client_State
  imports Act Sc_Errors Emitter
begin

text \<open>
  The state of a client socket, its transports and its channels
  (\<open>scclientsocket.js\<close>, \<open>sctransport.js\<close> and \<open>sc-channel\<close>, modules 5, 6 and 19 of
  \<open>socketcluster.js\<close>). Objects that are shared by reference (transports, channels, event
  objects, responses) live in stores and are named by their index, so that an object that
  was replaced or removed can still be reached by those who hold it. Timers are flags of the
  object that holds their handle. The emit buffer is the sequence of event objects held by
  the linked list of \<open>Linked_List\<close>, which shows that append and detach act on it as here.
\<close>

subsection \<open>Constants\<close>

datatype sock_state = CLOSED | CONNECTING | OPEN

datatype auth_state = AUTHENTICATED | UNAUTHENTICATED

datatype chan_state = UNSUBSCRIBED | PENDING | SUBSCRIBED

fun auth_name :: "auth_state \<Rightarrow> string" where
  "auth_name AUTHENTICATED = ''authenticated''"
| "auth_name UNAUTHENTICATED = ''unauthenticated''"

fun chan_name :: "chan_state \<Rightarrow> string" where
  "chan_name UNSUBSCRIBED = ''unsubscribed''"
| "chan_name PENDING = ''pending''"
| "chan_name SUBSCRIBED = ''subscribed''"

subsection \<open>Objects\<close>

text \<open>
  The callbacks an event object can carry: the transport's handshake continuation (with the
  token it sent), the continuation of a subscription (channel and options sent), the one of
  \<open>authenticate\<close> (token, user callback), and a user's function.
\<close>

datatype callback =
    HandshakeCb nat js
  | SubscribeCb nat js
  | AuthCb js "nat option"
  | UserCb nat

datatype timer = NodeTimer | WireTimer nat

record event_obj =
  ev_name :: string
  ev_data :: js
  ev_cb :: "callback option"
  ev_timer :: "timer option"
  ev_cid :: "nat option"

record transport =
  t_state :: sock_state
  t_ready :: bool
  t_attached :: bool
  t_cbs :: "(nat \<times> nat) list"
  t_batch :: "js list"
  t_batch_ref :: bool
  t_batch_timer :: bool
  t_ping_timer :: "js option"
  t_conn_timer :: bool
  t_pingTimeout :: js

record channel =
  ch_name :: string
  ch_state :: chan_state
  ch_wait :: bool
  ch_batch :: bool
  ch_data :: js
  ch_priority :: rat
  ch_cid :: "nat option"

record response =
  r_transport :: nat
  r_id :: js
  r_sent :: bool

text \<open>What calls out of the library: listeners, channel listeners, watchers, callbacks.\<close>

datatype call =
    Emit string "js list"
  | ChanEmit nat string "js list"
  | Watcher fnref js
  | UserCall nat js js

datatype action =
    Called call
  | Sent nat string
  | Shut nat jnum
  | Opened nat

record 'a world =
  c_state :: sock_state
  c_id :: js
  c_authState :: auth_state
  c_signed :: js
  c_token :: js
  c_pendingReconnect :: bool
  c_pendingTimeout :: "rat option"
  c_timer :: "rat option"
  c_preparing :: bool
  c_active :: bool
  c_attempts :: nat
  c_pingTimeout :: js
  c_buffer :: "nat list"
  c_channels :: "(string \<times> nat) list"
  c_cid :: nat
  c_transport :: "nat option"
  c_registered :: bool
  chans :: "nat \<Rightarrow> channel"
  n_chans :: nat
  trs :: "nat \<Rightarrow> transport"
  n_trs :: nat
  evs :: "nat \<Rightarrow> event_obj"
  n_evs :: nat
  resps :: "nat \<Rightarrow> response"
  n_resps :: nat
  auth_store :: "(string \<times> js) list"
  c_watch :: emitter
  math_random :: "nat \<Rightarrow> rat"
  err_listeners :: bool
  deferred :: "js list"
  out :: "action list"
  app :: 'a

text \<open>
  The options of the client and the code it is given: the user's listeners and callbacks
  (\<open>lis\<close>, arbitrary actions on the whole state, which may call the library back), the
  authentication engine (error or token, and the storage), the codec, and the engine's
  printers and parsers.
\<close>

record 'a env =
  lis :: "call \<Rightarrow> ('a world, unit) act"
  autoReconnect :: bool
  initialDelay :: rat
  randomness :: rat
  multiplier :: rat
  maxDelay :: rat
  autoSubscribeOnConnect :: bool
  autoConnect :: bool
  ackTimeout :: js
  connectTimeout :: js
  pingTimeoutDisabled :: bool
  channelPrefix :: string
  authTokenName :: string
  save_token :: "string \<Rightarrow> js \<Rightarrow> (string \<times> js) list \<Rightarrow> js \<times> (string \<times> js) list"
  remove_token :: "string \<Rightarrow> (string \<times> js) list \<Rightarrow> (js \<times> js) \<times> (string \<times> js) list"
  load_token :: "string \<Rightarrow> (string \<times> js) list \<Rightarrow> js \<times> js"
  encode :: "js \<Rightarrow> exn + string"
  decode :: "js \<Rightarrow> js"
  decodeBase64 :: "string \<Rightarrow> exn + string"
  json_parse :: "string \<Rightarrow> exn + js"
  text_of :: "js \<Rightarrow> string"
  loop_fuel :: nat

text \<open>\<open>'' + v\<close>, also the property key that \<open>v\<close> names.\<close>

definition to_key :: "'a env \<Rightarrow> js \<Rightarrow> string" where
  "to_key E v =
     (case v of JStr s \<Rightarrow> s | JUndef \<Rightarrow> ''undefined'' | JNull \<Rightarrow> ''null''
      | JBool b \<Rightarrow> (if b then ''true'' else ''false'')
      | JNum n \<Rightarrow> num_to_string (\<lambda>q. text_of E (JNum (Fin q))) n
      | _ \<Rightarrow> text_of E v)"

subsection \<open>Updates\<close>


definition upd_tr :: "nat \<Rightarrow> (transport \<Rightarrow> transport) \<Rightarrow> 'a world \<Rightarrow> 'a world" where
  "upd_tr t f w = w\<lparr>trs := (trs w)(t := f (trs w t))\<rparr>"

definition upd_chan :: "nat \<Rightarrow> (channel \<Rightarrow> channel) \<Rightarrow> 'a world \<Rightarrow> 'a world" where
  "upd_chan i f w = w\<lparr>chans := (chans w)(i := f (chans w i))\<rparr>"

definition upd_ev :: "nat \<Rightarrow> (event_obj \<Rightarrow> event_obj) \<Rightarrow> 'a world \<Rightarrow> 'a world" where
  "upd_ev e f w = w\<lparr>evs := (evs w)(e := f (evs w e))\<rparr>"

definition log_out :: "action \<Rightarrow> 'a world \<Rightarrow> 'a world" where
  "log_out a w = w\<lparr>out := out w @ [a]\<rparr>"

lemma upd_tr_sel [simp]:
  "c_state (upd_tr t f w) = c_state w" "c_transport (upd_tr t f w) = c_transport w"
  "chans (upd_tr t f w) = chans w" "evs (upd_tr t f w) = evs w" "c_channels (upd_tr t f w) = c_channels w"
  "c_buffer (upd_tr t f w) = c_buffer w" "c_cid (upd_tr t f w) = c_cid w"
  "trs (upd_tr t f w) = (trs w)(t := f (trs w t))" "out (upd_tr t f w) = out w"
  "c_authState (upd_tr t f w) = c_authState w" "c_preparing (upd_tr t f w) = c_preparing w"
  "c_timer (upd_tr t f w) = c_timer w" "c_attempts (upd_tr t f w) = c_attempts w"
  by (simp_all add: upd_tr_def)

lemma upd_chan_sel [simp]:
  "c_state (upd_chan t f w) = c_state w" "c_transport (upd_chan t f w) = c_transport w"
  "trs (upd_chan t f w) = trs w" "evs (upd_chan t f w) = evs w" "c_channels (upd_chan t f w) = c_channels w"
  "c_buffer (upd_chan t f w) = c_buffer w" "c_cid (upd_chan t f w) = c_cid w"
  "chans (upd_chan t f w) = (chans w)(t := f (chans w t))" "out (upd_chan t f w) = out w"
  "c_authState (upd_chan t f w) = c_authState w" "c_preparing (upd_chan t f w) = c_preparing w"
  "c_timer (upd_chan t f w) = c_timer w" "c_attempts (upd_chan t f w) = c_attempts w"
  by (simp_all add: upd_chan_def)

lemma upd_ev_sel [simp]:
  "c_state (upd_ev t f w) = c_state w" "c_transport (upd_ev t f w) = c_transport w"
  "trs (upd_ev t f w) = trs w" "chans (upd_ev t f w) = chans w" "c_channels (upd_ev t f w) = c_channels w"
  "c_buffer (upd_ev t f w) = c_buffer w" "c_cid (upd_ev t f w) = c_cid w"
  "evs (upd_ev t f w) = (evs w)(t := f (evs w t))" "out (upd_ev t f w) = out w"
  "c_authState (upd_ev t f w) = c_authState w" "c_preparing (upd_ev t f w) = c_preparing w"
  "c_timer (upd_ev t f w) = c_timer w" "c_attempts (upd_ev t f w) = c_attempts w"
  by (simp_all add: upd_ev_def)

lemma log_out_sel [simp]:
  "c_state (log_out a w) = c_state w" "c_transport (log_out a w) = c_transport w"
  "trs (log_out a w) = trs w" "chans (log_out a w) = chans w" "c_channels (log_out a w) = c_channels w"
  "c_buffer (log_out a w) = c_buffer w" "c_cid (log_out a w) = c_cid w"
  "evs (log_out a w) = evs w" "out (log_out a w) = out w @ [a]"
  "c_authState (log_out a w) = c_authState w" "c_preparing (log_out a w) = c_preparing w"
  "c_timer (log_out a w) = c_timer w" "c_attempts (log_out a w) = c_attempts w"
  by (simp_all add: log_out_def)

subsection \<open>Calling out\<close>

definition call_out :: "'a env \<Rightarrow> call \<Rightarrow> ('a world, unit) act" where
  "call_out E c = steps [modify (log_out (Called c)), lis E c]"

definition emit_local :: "'a env \<Rightarrow> string \<Rightarrow> js list \<Rightarrow> ('a world, unit) act" where
  "emit_local E ev args = call_out E (Emit ev args)"

text \<open>\<open>_onSCError\<close> throws or emits in a later turn: the error is queued.\<close>

definition on_sc_error :: "js \<Rightarrow> ('a world, unit) act" where
  "on_sc_error err = modify (\<lambda>w. w\<lparr>deferred := deferred w @ [err]\<rparr>)"

definition run_deferred :: "'a env \<Rightarrow> ('a world, unit) act" where
  "run_deferred E = look deferred (\<lambda>d. case d of [] \<Rightarrow> skip
     | err # rest \<Rightarrow> steps
        [modify (\<lambda>w. w\<lparr>deferred := rest\<rparr>),
         look err_listeners (\<lambda>l. if l then emit_local E ''error'' [err] else raise (Thrown err))])"

end
