(* ===== verification/Sc_Transport.thy ===== *)
theory Sc_Transport
  imports Client_State
begin

text \<open>
  The transport (\<open>sctransport.js\<close>) and what the client does when one closes. The client's
  close handler runs inside the transport's \<open>_onClose\<close>, and the transport's \<open>send\<close> calls
  \<open>_onClose\<close> when the WebSocket is no longer open, so that these operations come first.
\<close>

subsection \<open>Channel states\<close>

definition state_change :: "channel \<Rightarrow> chan_state \<Rightarrow> (string \<times> js) list \<Rightarrow> js" where
  "state_change c new rest =
     JObj ([(''channel'', JStr (ch_name c)), (''oldState'', JStr (chan_name (ch_state c))),
            (''newState'', JStr (chan_name new))] @ rest)"

definition triggerChannelSubscribe :: "'a env \<Rightarrow> nat \<Rightarrow> js \<Rightarrow> ('a world, unit) act" where
  "triggerChannelSubscribe E i so = look (\<lambda>w. chans w i) (\<lambda>c.
     if ch_state c \<noteq> SUBSCRIBED then
       (let d = state_change c SUBSCRIBED [(''subscriptionOptions'', so)]
        in steps
         [modify (upd_chan i (\<lambda>c. c\<lparr>ch_state := SUBSCRIBED\<rparr>)),
          call_out E (ChanEmit i ''subscribeStateChange'' [d]),
          call_out E (ChanEmit i ''subscribe'' [JStr (ch_name c), so]),
          emit_local E ''subscribeStateChange'' [d],
          emit_local E ''subscribe'' [JStr (ch_name c), so]])
     else skip)"

definition triggerChannelSubscribeFail :: "'a env \<Rightarrow> js \<Rightarrow> nat \<Rightarrow> js \<Rightarrow> ('a world, unit) act" where
  "triggerChannelSubscribeFail E err i so = look (\<lambda>w. (chans w i, c_authState w)) (\<lambda>(c, auth).
     if ch_state c \<noteq> UNSUBSCRIBED \<and> (\<not> ch_wait c \<or> auth = AUTHENTICATED) then steps
         [modify (upd_chan i (\<lambda>c. c\<lparr>ch_state := UNSUBSCRIBED\<rparr>)),
          call_out E (ChanEmit i ''subscribeFail'' [err, JStr (ch_name c), so]),
          emit_local E ''subscribeFail'' [err, JStr (ch_name c), so]]
     else skip)"

definition cancelPendingResponse :: "nat \<Rightarrow> nat \<Rightarrow> ('a world, unit) act" where
  "cancelPendingResponse t cid = modify (upd_tr t (\<lambda>x. x\<lparr>t_cbs := al_del cid (t_cbs x)\<rparr>))"

text \<open>\<open>this.transport.m(...)\<close>: a TypeError while there is no transport.\<close>

definition on_transport :: "(nat \<Rightarrow> ('a world, 'r) act) \<Rightarrow> ('a world, 'r) act" where
  "on_transport k = look c_transport (\<lambda>t. case t of None \<Rightarrow> raise TypeError | Some t \<Rightarrow> k t)"

definition cancelPendingSubscribeCallback :: "nat \<Rightarrow> ('a world, unit) act" where
  "cancelPendingSubscribeCallback i = look (\<lambda>w. ch_cid (chans w i)) (\<lambda>c.
     case c of None \<Rightarrow> skip
     | Some cid \<Rightarrow> steps
         [on_transport (\<lambda>t. cancelPendingResponse t cid),
          modify (upd_chan i (\<lambda>c. c\<lparr>ch_cid := None\<rparr>))])"

definition triggerChannelUnsubscribe :: "'a env \<Rightarrow> nat \<Rightarrow> chan_state \<Rightarrow> ('a world, unit) act" where
  "triggerChannelUnsubscribe E i new = look (\<lambda>w. chans w i) (\<lambda>c. steps
     [modify (upd_chan i (\<lambda>c. c\<lparr>ch_state := new\<rparr>)),
      cancelPendingSubscribeCallback i,
      if ch_state c = SUBSCRIBED then
        (let d = state_change c new []
         in steps
          [call_out E (ChanEmit i ''subscribeStateChange'' [d]),
           call_out E (ChanEmit i ''unsubscribe'' [JStr (ch_name c)]),
           emit_local E ''subscribeStateChange'' [d],
           emit_local E ''unsubscribe'' [JStr (ch_name c)]])
      else skip])"

text \<open>\<open>for (channelName in this.channels)\<close>: a name deleted in the meantime is not visited.\<close>

definition for_channels :: "(nat \<Rightarrow> ('a world, unit) act) \<Rightarrow> ('a world, unit) act" where
  "for_channels f = look (\<lambda>w. key_order (map fst (c_channels w))) (\<lambda>names.
     each (\<lambda>n. look (\<lambda>w. map_of (c_channels w) n) (\<lambda>i. case i of None \<Rightarrow> skip | Some i \<Rightarrow> f i)) names)"

definition suspendSubscriptions :: "'a env \<Rightarrow> ('a world, unit) act" where
  "suspendSubscriptions E = for_channels (\<lambda>i. look (\<lambda>w. ch_state (chans w i)) (\<lambda>s.
     triggerChannelUnsubscribe E i (if s = SUBSCRIBED \<or> s = PENDING then PENDING else UNSUBSCRIBED)))"

subsection \<open>Failing callbacks\<close>

definition changeToUnauthenticatedStateAndClearTokens :: "'a env \<Rightarrow> ('a world, unit) act" where
  "changeToUnauthenticatedStateAndClearTokens E = look (\<lambda>w. (c_authState w, c_signed w)) (\<lambda>(old, tok).
     if old \<noteq> UNAUTHENTICATED then steps
       [modify (\<lambda>w. w\<lparr>c_authState := UNAUTHENTICATED, c_signed := JNull, c_token := JNull\<rparr>),
        emit_local E ''authStateChange''
          [JObj [(''oldState'', JStr (auth_name old)), (''newState'', JStr (auth_name UNAUTHENTICATED))]],
        emit_local E ''deauthenticate'' [tok]]
     else skip)"

definition user_callback :: "'a env \<Rightarrow> nat option \<Rightarrow> js \<Rightarrow> js \<Rightarrow> ('a world, unit) act" where
  "user_callback E u err data = (case u of None \<Rightarrow> skip | Some n \<Rightarrow> call_out E (UserCall n err data))"

text \<open>The status object the continuation of \<open>authenticate\<close> works on.\<close>

definition set_prop :: "string \<Rightarrow> js \<Rightarrow> js \<Rightarrow> js" where
  "set_prop k v x = (case x of JObj ps \<Rightarrow> JObj (al_set k v ps) | _ \<Rightarrow> x)"

definition auth_status :: "'a env \<Rightarrow> auth_state \<Rightarrow> js \<Rightarrow> js" where
  "auth_status E auth status =
     (if truthy status \<and> \<not> nullish (get status ''isAuthenticated'') then
        (if truthy (get status ''authError'')
         then set_prop ''authError'' (hydrateError (to_key E) (get status ''authError'')) status else status)
      else JObj [(''isAuthenticated'', JStr (auth_name auth)), (''authError'', JNull)])"

definition auth_failed :: "'a env \<Rightarrow> js \<Rightarrow> js \<Rightarrow> nat option \<Rightarrow> ('a world, unit) act" where
  "auth_failed E err status u = look c_authState (\<lambda>auth. steps
     [if get err ''name'' \<notin> {JStr ''BadConnectionError'', JStr ''TimeoutError''}
      then changeToUnauthenticatedStateAndClearTokens E else skip,
      user_callback E u err (auth_status E auth status)])"

definition transport_on_error :: "nat \<Rightarrow> js \<Rightarrow> ('a world, unit) act" where
  "transport_on_error t err = look (\<lambda>w. t_attached (trs w t)) (\<lambda>a. if a then on_sc_error err else skip)"

definition shut :: "nat \<Rightarrow> jnum \<Rightarrow> ('a world, unit) act" where
  "shut t code = modify (log_out (Shut t code))"

definition clear_timers :: "nat \<Rightarrow> ('a world, unit) act" where
  "clear_timers t = modify (upd_tr t (\<lambda>x. x\<lparr>t_conn_timer := False, t_ping_timer := None, t_batch_timer := False\<rparr>))"

text \<open>
  A callback run with an error while its transport is closed. The handshake continuation
  then reports the error and calls \<open>_onClose\<close> on the closed transport, which only clears
  its timers.
\<close>

definition fail_callback :: "'a env \<Rightarrow> callback \<Rightarrow> js \<Rightarrow> js \<Rightarrow> ('a world, unit) act" where
  "fail_callback E k err data =
     (case k of
        UserCb n \<Rightarrow> call_out E (UserCall n err data)
      | AuthCb tok u \<Rightarrow> auth_failed E err data u
      | SubscribeCb i so \<Rightarrow> steps
          [modify (upd_chan i (\<lambda>c. c\<lparr>ch_cid := None\<rparr>)), triggerChannelSubscribeFail E err i so]
      | HandshakeCb t tok \<Rightarrow> steps [transport_on_error t err, clear_timers t, shut t (Fin 4003)])"

text \<open>The event object itself is passed as the data of an aborted or timed out call.\<close>

definition ev_js :: "event_obj \<Rightarrow> js" where
  "ev_js e = JObj ([(''event'', JStr (ev_name e)), (''data'', ev_data e)]
      @ (case ev_cid e of None \<Rightarrow> [] | Some c \<Rightarrow> [(''cid'', JNum (Fin (of_nat c)))]))"

definition aborted :: "event_obj \<Rightarrow> string \<Rightarrow> js" where
  "aborted e failureType = new_error BadConnectionError
     (''Event '' @ [CHR 0x27] @ ev_name e @ [CHR 0x27] @ '' was aborted due to a bad connection'') (JStr failureType)"

definition timed_out :: "event_obj \<Rightarrow> js" where
  "timed_out e = new_error TimeoutError
     (''Event response for '' @ [CHR 0x27] @ ev_name e @ [CHR 0x27] @ '' timed out'') JUndef"

subsection \<open>The client's close handler\<close>

text \<open>The item after an item of the buffer; a detached item has none.\<close>

fun next_of :: "nat list \<Rightarrow> nat \<Rightarrow> nat option" where
  "next_of (x # y # xs) e = (if x = e then Some y else next_of (y # xs) e)"
| "next_of _ e = None"

definition head_of :: "nat list \<Rightarrow> nat option" where
  "head_of xs = (case xs of [] \<Rightarrow> None | x # _ \<Rightarrow> Some x)"

text \<open>
  The loop of \<open>_abortAllPendingEventsDueToBadConnection\<close>: it follows the successor read
  before the item is detached, so it may go on forever when callbacks append to the buffer.
\<close>

fun abort_buffer :: "'a env \<Rightarrow> string \<Rightarrow> nat \<Rightarrow> nat option \<Rightarrow> ('a world, unit) act" where
  "abort_buffer E ft _ None = skip"
| "abort_buffer E ft 0 (Some e) = stuck"
| "abort_buffer E ft (Suc fuel) (Some e) = look (\<lambda>w. next_of (c_buffer w) e) (\<lambda>next. steps
     [modify (upd_ev e (\<lambda>ob. ob\<lparr>ev_timer := None\<rparr>)),
      modify (\<lambda>w. w\<lparr>c_buffer := remove1 e (c_buffer w)\<rparr>),
      look (\<lambda>w. evs w e) (\<lambda>ob. case ev_cb ob of None \<Rightarrow> skip
        | Some k \<Rightarrow> steps
           [modify (upd_ev e (\<lambda>ob. ob\<lparr>ev_cb := None\<rparr>)), fail_callback E k (aborted ob ft) (ev_js ob)]),
      look (\<lambda>w. ev_cid (evs w e)) (\<lambda>c. case c of None \<Rightarrow> skip
        | Some cid \<Rightarrow> on_transport (\<lambda>t. cancelPendingResponse t cid)),
      abort_buffer E ft fuel next])"

definition abort_all_buffered :: "'a env \<Rightarrow> string \<Rightarrow> ('a world, unit) act" where
  "abort_all_buffered E ft = look (\<lambda>w. head_of (c_buffer w)) (\<lambda>h. abort_buffer E ft (loop_fuel E) h)"

definition reconnect_delay :: "'a env \<Rightarrow> bool \<Rightarrow> nat \<Rightarrow> rat \<Rightarrow> rat" where
  "reconnect_delay E immediate exponent r =
     (let timeout = (if \<not> immediate \<or> exponent > 0 then
            (let initialTimeout = math_round (initialDelay E + randomness E * r)
             in of_int (math_round (of_int initialTimeout * multiplier E ^ exponent)))
          else 0)
      in if timeout > maxDelay E then maxDelay E else timeout)"

text \<open>\<open>_tryReconnect()\<close>, or \<open>_tryReconnect(0)\<close> when \<open>immediate\<close>.\<close>

definition tryReconnect :: "'a env \<Rightarrow> bool \<Rightarrow> ('a world, unit) act" where
  "tryReconnect E immediate = modify (\<lambda>w.
     let draws = \<not> immediate \<or> c_attempts w > 0;
         d = reconnect_delay E immediate (c_attempts w) (math_random w 0)
     in w\<lparr>c_attempts := Suc (c_attempts w),
          math_random := (if draws then (\<lambda>n. math_random w (Suc n)) else math_random w),
          c_pendingReconnect := True, c_pendingTimeout := Some d, c_timer := Some d\<rparr>)"

definition immediate_codes :: "jnum set" where
  "immediate_codes = {Fin 4000, Fin 4001, Fin 1005}"

definition code_message :: "'a env \<Rightarrow> jnum \<Rightarrow> js \<Rightarrow> string" where
  "code_message E code data =
     (if truthy data
      then ''Socket connection closed with status code '' @ to_key E (JNum code) @ '' and reason: '' @ to_key E data
      else ''Socket connection closed with status code '' @ to_key E (JNum code))"

definition on_sc_close :: "'a env \<Rightarrow> jnum \<Rightarrow> js \<Rightarrow> bool \<Rightarrow> ('a world, unit) act" where
  "on_sc_close E code data openAbort = steps
     [modify (\<lambda>w. w\<lparr>c_id := JNull\<rparr>),
      look c_transport (\<lambda>t. case t of None \<Rightarrow> skip | Some t \<Rightarrow> modify (upd_tr t (\<lambda>x. x\<lparr>t_attached := False\<rparr>))),
      modify (\<lambda>w. w\<lparr>c_pendingReconnect := False, c_pendingTimeout := None, c_timer := None\<rparr>),
      suspendSubscriptions E,
      abort_all_buffered E (if openAbort then ''connectAbort'' else ''disconnect''),
      if autoReconnect E then
        (if code \<in> immediate_codes then tryReconnect E True
         else if code \<noteq> Fin 1000 \<and> num_less code (Fin 4500) then tryReconnect E False else skip)
      else skip,
      if openAbort then emit_local E ''connectAbort'' [JNum code, data]
      else emit_local E ''disconnect'' [JNum code, data],
      emit_local E ''close'' [JNum code, data],
      if status_entry socketProtocolIgnoreStatuses code = None then
        on_sc_error (new_error SocketProtocolError
          (case status_entry socketProtocolErrorStatuses code of Some m \<Rightarrow> m | None \<Rightarrow> code_message E code data)
          (JNum code))
      else skip]"

subsection \<open>Closing\<close>

text \<open>
  The pending calls of the transport, in ascending order of their call id. An event object
  whose callback has been taken away (the client does so before it cancels a timed out call)
  makes the loop throw.
\<close>

definition abort_call :: "'a env \<Rightarrow> nat \<Rightarrow> string \<Rightarrow> nat \<Rightarrow> ('a world, unit) act" where
  "abort_call E t ft cid = look (\<lambda>w. map_of (t_cbs (trs w t)) cid) (\<lambda>ob. case ob of None \<Rightarrow> skip
     | Some e \<Rightarrow> steps
         [cancelPendingResponse t cid,
          modify (upd_ev e (\<lambda>ob. ob\<lparr>ev_timer := None\<rparr>)),
          look (\<lambda>w. evs w e) (\<lambda>ob. case ev_cb ob of None \<Rightarrow> raise TypeError
            | Some k \<Rightarrow> steps
               [modify (upd_ev e (\<lambda>ob. ob\<lparr>ev_cb := None\<rparr>)), fail_callback E k (aborted ob ft) (ev_js ob)])])"

definition abort_transport :: "'a env \<Rightarrow> nat \<Rightarrow> string \<Rightarrow> ('a world, unit) act" where
  "abort_transport E t ft = look (\<lambda>w. sort (map fst (t_cbs (trs w t)))) (\<lambda>cids. each (abort_call E t ft) cids)"

definition on_close :: "'a env \<Rightarrow> nat \<Rightarrow> jnum \<Rightarrow> js \<Rightarrow> ('a world, unit) act" where
  "on_close E t code data = steps
     [clear_timers t,
      look (\<lambda>w. t_state (trs w t)) (\<lambda>s. case s of
         OPEN \<Rightarrow> steps
          [modify (upd_tr t (\<lambda>x. x\<lparr>t_state := CLOSED\<rparr>)),
           look (\<lambda>w. t_attached (trs w t)) (\<lambda>a. if a then steps
              [modify (\<lambda>w. w\<lparr>c_state := CLOSED\<rparr>), on_sc_close E code data False] else skip),
           abort_transport E t ''disconnect'']
       | CONNECTING \<Rightarrow> steps
          [modify (upd_tr t (\<lambda>x. x\<lparr>t_state := CLOSED\<rparr>)),
           look (\<lambda>w. t_attached (trs w t)) (\<lambda>a. if a then steps
              [modify (\<lambda>w. w\<lparr>c_state := CLOSED\<rparr>), on_sc_close E code data True] else skip),
           abort_transport E t ''connectAbort'']
       | CLOSED \<Rightarrow> skip)]"

subsection \<open>Sending\<close>

definition send :: "'a env \<Rightarrow> nat \<Rightarrow> string \<Rightarrow> ('a world, unit) act" where
  "send E t s = look (\<lambda>w. t_ready (trs w t)) (\<lambda>r.
     if \<not> r then on_close E t (Fin 1005) JUndef else modify (log_out (Sent t s)))"

definition exn_js :: "exn \<Rightarrow> js" where
  "exn_js e = (case e of Thrown v \<Rightarrow> v
     | TypeError \<Rightarrow> JObj [(''name'', JStr ''TypeError'')] | URIError \<Rightarrow> JObj [(''name'', JStr ''URIError'')])"

definition serializeObject :: "'a env \<Rightarrow> nat \<Rightarrow> js \<Rightarrow> ('a world, string option) act" where
  "serializeObject E t obj =
     (case encode E obj of Inl err \<Rightarrow> bnd (transport_on_error t (exn_js err)) (\<lambda>_. ret None)
      | Inr s \<Rightarrow> ret (Some s))"

definition send_serialized :: "'a env \<Rightarrow> nat \<Rightarrow> js \<Rightarrow> ('a world, unit) act" where
  "send_serialized E t obj = bnd (serializeObject E t obj)
     (\<lambda>s. case s of None \<Rightarrow> skip | Some s \<Rightarrow> send E t s)"

definition sendObjectSingle :: "'a env \<Rightarrow> nat \<Rightarrow> js \<Rightarrow> ('a world, unit) act" where
  "sendObjectSingle E t obj = send_serialized E t obj"

definition sendObjectBatch :: "nat \<Rightarrow> js \<Rightarrow> ('a world, unit) act" where
  "sendObjectBatch t obj = modify (upd_tr t (\<lambda>x.
     (x\<lparr>t_batch := t_batch x @ [obj]\<rparr>)
       \<lparr>t_batch_timer := t_batch_timer x \<or> \<not> t_batch_ref x, t_batch_ref := True\<rparr>))"

definition batch_timer_fires :: "'a env \<Rightarrow> nat \<Rightarrow> ('a world, unit) act" where
  "batch_timer_fires E t = steps
     [modify (upd_tr t (\<lambda>x. x\<lparr>t_batch_timer := False, t_batch_ref := False\<rparr>)),
      look (\<lambda>w. t_batch (trs w t)) (\<lambda>b. if b \<noteq> [] then steps
         [send_serialized E t (JArr b), modify (upd_tr t (\<lambda>x. x\<lparr>t_batch := []\<rparr>))] else skip)]"

definition sendObject :: "'a env \<Rightarrow> nat \<Rightarrow> js \<Rightarrow> bool \<Rightarrow> ('a world, unit) act" where
  "sendObject E t obj batch = (if batch then sendObjectBatch t obj else sendObjectSingle E t obj)"

definition emitObject :: "'a env \<Rightarrow> nat \<Rightarrow> nat \<Rightarrow> bool \<Rightarrow> ('a world, nat option) act" where
  "emitObject E t e batch = look (\<lambda>w. (evs w e, c_cid w)) (\<lambda>(ob, cid). bnd
     (if ev_cb ob \<noteq> None then steps
        [modify (\<lambda>w. w\<lparr>c_cid := Suc cid\<rparr>),
         modify (upd_ev e (\<lambda>ob. ob\<lparr>ev_cid := Some cid\<rparr>)),
         modify (upd_tr t (\<lambda>x. x\<lparr>t_cbs := (cid, e) # al_del cid (t_cbs x)\<rparr>)),
         sendObject E t (JObj [(''event'', JStr (ev_name ob)), (''data'', ev_data ob),
           (''cid'', JNum (Fin (of_nat cid)))]) batch]
      else sendObject E t (JObj [(''event'', JStr (ev_name ob)), (''data'', ev_data ob)]) batch)
     (\<lambda>_. look (\<lambda>w. ev_cid (evs w e)) ret))"

definition new_event :: "event_obj \<Rightarrow> ('a world, nat) act" where
  "new_event ob = look n_evs (\<lambda>e. bnd (modify (\<lambda>w. w\<lparr>evs := (evs w)(e := ob), n_evs := Suc e\<rparr>)) (\<lambda>_. ret e))"

text \<open>\<open>SCTransport.prototype.emit\<close> with its options spelled out.\<close>

definition transport_emit ::
  "'a env \<Rightarrow> nat \<Rightarrow> string \<Rightarrow> js \<Rightarrow> callback option \<Rightarrow> bool \<Rightarrow> bool \<Rightarrow> bool \<Rightarrow> ('a world, nat option) act" where
  "transport_emit E t event data cb noTimeout force batch =
     bnd (new_event \<lparr>ev_name = event, ev_data = data, ev_cb = cb,
            ev_timer = (if cb \<noteq> None \<and> \<not> noTimeout then Some (WireTimer t) else None), ev_cid = None\<rparr>)
       (\<lambda>e. look (\<lambda>w. t_state (trs w t)) (\<lambda>s.
          if s = OPEN \<or> force then emitObject E t e batch else ret None))"

definition transport_close :: "'a env \<Rightarrow> nat \<Rightarrow> jnum \<Rightarrow> js \<Rightarrow> ('a world, unit) act" where
  "transport_close E t code0 data =
     (let code = (if truthy_num code0 then code0 else Fin 1000)
      in look (\<lambda>w. t_state (trs w t)) (\<lambda>s. case s of
        OPEN \<Rightarrow> steps
          [bnd (transport_emit E t ''#disconnect'' (JObj [(''code'', JNum code), (''data'', data)]) None False False False)
             (\<lambda>_. skip),
           on_close E t code data, shut t code]
      | CONNECTING \<Rightarrow> steps [on_close E t code data, shut t code]
      | CLOSED \<Rightarrow> skip))"

definition resetPingTimeout :: "'a env \<Rightarrow> nat \<Rightarrow> ('a world, unit) act" where
  "resetPingTimeout E t =
     (if pingTimeoutDisabled E then skip
      else modify (upd_tr t (\<lambda>x. x\<lparr>t_ping_timer := Some (t_pingTimeout x)\<rparr>)))"

end
