(* ===== verification/Sc_Client.thy ===== *)
theory Sc_Client
  imports Sc_Transport
begin

text \<open>
  The client socket (\<open>scclientsocket.js\<close>), the responses (\<open>response.js\<close>), the channels'
  options, and the transport's reactions to its WebSocket and its timers, which run the
  client's handlers and continuations.

  The client's table of channels is an object, so that a lookup also finds what every object
  inherits (\<open>Sc_Errors.inherited\<close>). For such a name the functions found have no state, so that
  \<open>isSubscribed\<close> is false and \<open>unsubscribe\<close> does nothing, as for an unknown channel; a kick and
  \<open>destroyChannel\<close> throw. Only \<open>subscribe\<close> and \<open>channel\<close> are restricted: they stand for calls with
  other names than these twelve (for these the code returns the inherited function and sends
  nothing).
\<close>

subsection \<open>Responses\<close>

definition respond :: "'a env \<Rightarrow> nat \<Rightarrow> js \<Rightarrow> ('a world, unit) act" where
  "respond E r data = look (\<lambda>w. resps w r) (\<lambda>x.
     if r_sent x then raise (Thrown (new_error InvalidActionError
         (''Response '' @ to_key E (r_id x) @ '' has already been sent'') JUndef))
     else steps
       [modify (\<lambda>w. w\<lparr>resps := (resps w)(r := x\<lparr>r_sent := True\<rparr>)\<rparr>),
        case encode E data of Inl e \<Rightarrow> raise e | Inr s \<Rightarrow> send E (r_transport x) s])"

definition with_data :: "(string \<times> js) list \<Rightarrow> js \<Rightarrow> js" where
  "with_data ps data = JObj (ps @ (if data = JUndef then [] else [(''data'', data)]))"

definition response_end :: "'a env \<Rightarrow> nat \<Rightarrow> js \<Rightarrow> ('a world, unit) act" where
  "response_end E r data = look (\<lambda>w. r_id (resps w r)) (\<lambda>i.
     if truthy i then respond E r (with_data [(''rid'', i)] data) else skip)"

definition response_error :: "'a env \<Rightarrow> nat \<Rightarrow> js \<Rightarrow> js \<Rightarrow> ('a world, unit) act" where
  "response_error E r err data = look (\<lambda>w. r_id (resps w r)) (\<lambda>i.
     if truthy i then respond E r (with_data [(''rid'', i), (''error'', dehydrateError err)] data) else skip)"

definition response_callback :: "'a env \<Rightarrow> nat \<Rightarrow> js \<Rightarrow> js \<Rightarrow> ('a world, unit) act" where
  "response_callback E r err data = (if truthy err then response_error E r err data else response_end E r data)"

subsection \<open>Connecting\<close>

definition new_transport :: "'a env \<Rightarrow> transport" where
  "new_transport E = \<lparr>t_state = CONNECTING, t_ready = False, t_attached = True, t_cbs = [], t_batch = [],
     t_batch_ref = False, t_batch_timer = False, t_ping_timer = None, t_conn_timer = True,
     t_pingTimeout = ackTimeout E\<rparr>"

definition no_reconnect :: "'a world \<Rightarrow> 'a world" where
  "no_reconnect w = w\<lparr>c_pendingReconnect := False, c_pendingTimeout := None, c_timer := None\<rparr>"

definition connect :: "'a env \<Rightarrow> ('a world, unit) act" where
  "connect E = look (\<lambda>w. (c_active w, c_state w)) (\<lambda>(active, s).
     if \<not> active then on_sc_error (new_error InvalidActionError ''Cannot connect a destroyed client'' JUndef)
     else if s = CLOSED then steps
       [modify no_reconnect,
        modify (\<lambda>w. w\<lparr>c_state := CONNECTING\<rparr>),
        emit_local E ''connecting'' [],
        look c_transport (\<lambda>t. case t of None \<Rightarrow> skip | Some t \<Rightarrow> modify (upd_tr t (\<lambda>x. x\<lparr>t_attached := False\<rparr>))),
        modify (\<lambda>w. log_out (Opened (n_trs w))
          (w\<lparr>c_transport := Some (n_trs w), trs := (trs w)(n_trs w := new_transport E), n_trs := Suc (n_trs w)\<rparr>))]
     else skip)"

definition disconnect :: "'a env \<Rightarrow> js \<Rightarrow> js \<Rightarrow> ('a world, unit) act" where
  "disconnect E code0 data =
     (case (if truthy code0 then code0 else JNum (Fin 1000)) of
        JNum code \<Rightarrow> look c_state (\<lambda>s.
          if s = OPEN \<or> s = CONNECTING then on_transport (\<lambda>t. transport_close E t code data)
          else modify no_reconnect)
      | _ \<Rightarrow> raise (Thrown (new_error InvalidArgumentsError
               ''If specified, the code argument must be a number'' JUndef)))"

definition reconnect :: "'a env \<Rightarrow> js \<Rightarrow> js \<Rightarrow> ('a world, unit) act" where
  "reconnect E code data = steps [disconnect E code data, connect E]"

definition destroy :: "'a env \<Rightarrow> js \<Rightarrow> js \<Rightarrow> ('a world, unit) act" where
  "destroy E code data = steps
     [modify (\<lambda>w. w\<lparr>c_active := False\<rparr>), disconnect E code data, modify (\<lambda>w. w\<lparr>c_registered := False\<rparr>)]"

subsection \<open>Emitting\<close>

fun flush_loop :: "'a env \<Rightarrow> nat \<Rightarrow> nat option \<Rightarrow> ('a world, unit) act" where
  "flush_loop E _ None = skip"
| "flush_loop E 0 (Some e) = stuck"
| "flush_loop E (Suc fuel) (Some e) = look (\<lambda>w. next_of (c_buffer w) e) (\<lambda>next. steps
     [modify (\<lambda>w. w\<lparr>c_buffer := remove1 e (c_buffer w)\<rparr>),
      on_transport (\<lambda>t. bnd (emitObject E t e False) (\<lambda>_. skip)),
      flush_loop E fuel next])"

definition flushEmitBuffer :: "'a env \<Rightarrow> ('a world, unit) act" where
  "flushEmitBuffer E = look (\<lambda>w. head_of (c_buffer w)) (\<lambda>h. flush_loop E (loop_fuel E) h)"

definition emit_event :: "'a env \<Rightarrow> string \<Rightarrow> js \<Rightarrow> callback option \<Rightarrow> ('a world, unit) act" where
  "emit_event E event data cb = steps
     [look c_state (\<lambda>s. if s = CLOSED then connect E else skip),
      bnd (new_event \<lparr>ev_name = event, ev_data = data, ev_cb = cb, ev_timer = Some NodeTimer, ev_cid = None\<rparr>)
        (\<lambda>e. modify (\<lambda>w. w\<lparr>c_buffer := c_buffer w @ [e]\<rparr>)),
      look c_state (\<lambda>s. if s = OPEN then flushEmitBuffer E else skip)]"

text \<open>The reserved events; a lookup in the object also finds what every object inherits.\<close>

definition local_events :: "string set" where
  "local_events = {''connect'', ''connectAbort'', ''close'', ''disconnect'', ''message'', ''error'', ''raw'',
     ''kickOut'', ''subscribe'', ''unsubscribe'', ''subscribeStateChange'', ''authStateChange'',
     ''authenticate'', ''deauthenticate'', ''removeAuthToken'', ''subscribeRequest''}"

definition client_emit :: "'a env \<Rightarrow> string \<Rightarrow> js \<Rightarrow> callback option \<Rightarrow> ('a world, unit) act" where
  "client_emit E event data cb =
     (if event \<notin> local_events \<union> inherited then emit_event E event data cb
      else if event = ''error'' then emit_local E event [data]
      else on_sc_error (new_error InvalidActionError
        (''The \"'' @ event @ ''\" event is reserved and cannot be emitted on a client socket'') JUndef))"

definition decorateChannelName :: "'a env \<Rightarrow> string \<Rightarrow> string" where
  "decorateChannelName E ch = (if channelPrefix E \<noteq> '''' then channelPrefix E @ ch else ch)"

definition undecorate :: "'a env \<Rightarrow> string \<Rightarrow> string" where
  "undecorate E d = (if channelPrefix E \<noteq> '''' \<and> prefix (channelPrefix E) d
                     then drop (length (channelPrefix E)) d else d)"

text \<open>With a prefix, a name that is not a string has no \<open>indexOf\<close> (or, an array, no \<open>replace\<close>).\<close>

definition undecorateChannelName :: "'a env \<Rightarrow> js \<Rightarrow> ('a world, string) act" where
  "undecorateChannelName E v =
     (case v of JStr s \<Rightarrow> ret (undecorate E s)
      | JArr (JStr p # _) \<Rightarrow> if channelPrefix E \<noteq> '''' \<and> p = channelPrefix E then raise TypeError else ret (to_key E v)
      | JArr _ \<Rightarrow> ret (to_key E v)
      | _ \<Rightarrow> if channelPrefix E \<noteq> '''' then raise TypeError else ret (to_key E v))"

definition publish :: "'a env \<Rightarrow> string \<Rightarrow> js \<Rightarrow> nat option \<Rightarrow> ('a world, unit) act" where
  "publish E ch data u = client_emit E ''#publish''
     (JObj [(''channel'', JStr (decorateChannelName E ch)), (''data'', data)]) (map_option UserCb u)"

subsection \<open>Subscribing\<close>

definition subscription_options :: "'a env \<Rightarrow> channel \<Rightarrow> js" where
  "subscription_options E c = JObj ([(''channel'', JStr (decorateChannelName E (ch_name c)))]
     @ (if ch_wait c then [(''waitForAuth'', JBool True)] else [])
     @ (if truthy (ch_data c) then [(''data'', ch_data c)] else [])
     @ (if ch_batch c then [(''batch'', JBool True)] else []))"

definition trySubscribe :: "'a env \<Rightarrow> nat \<Rightarrow> ('a world, unit) act" where
  "trySubscribe E i = look (\<lambda>w. (chans w i, c_state w, c_preparing w, c_authState w)) (\<lambda>(c, s, preparing, auth).
     if s = OPEN \<and> \<not> preparing \<and> ch_cid c = None \<and> (\<not> ch_wait c \<or> auth = AUTHENTICATED) then
       bnd (on_transport (\<lambda>t. transport_emit E t ''#subscribe'' (subscription_options E c)
              (Some (SubscribeCb i (subscription_options E c))) True False (ch_batch c)))
         (\<lambda>cid. steps
           [modify (upd_chan i (\<lambda>c. c\<lparr>ch_cid := cid\<rparr>)),
            emit_local E ''subscribeRequest'' [JStr (ch_name c), subscription_options E c]])
     else skip)"

definition setOptions :: "js \<Rightarrow> channel \<Rightarrow> channel" where
  "setOptions options c = c\<lparr>ch_wait := truthy (get options ''waitForAuth''),
     ch_batch := truthy (get options ''batch''),
     ch_data := (if get options ''data'' \<noteq> JUndef then get options ''data'' else ch_data c)\<rparr>"

definition new_channel :: "string \<Rightarrow> js \<Rightarrow> channel" where
  "new_channel n options = setOptions options
     \<lparr>ch_name = n, ch_state = UNSUBSCRIBED, ch_wait = False, ch_batch = False, ch_data = JUndef,
      ch_priority = 0, ch_cid = None\<rparr>"

definition add_channel :: "string \<Rightarrow> js \<Rightarrow> ('a world, nat) act" where
  "add_channel n options = look n_chans (\<lambda>i.
     bnd (modify (\<lambda>w. w\<lparr>chans := (chans w)(i := new_channel n options), n_chans := Suc i, c_channels := al_set n i (c_channels w)\<rparr>))
       (\<lambda>_. ret i))"

definition subscribe :: "'a env \<Rightarrow> string \<Rightarrow> js \<Rightarrow> ('a world, nat) act" where
  "subscribe E n options = bnd
     (look (\<lambda>w. map_of (c_channels w) n) (\<lambda>x. case x of None \<Rightarrow> add_channel n options
        | Some i \<Rightarrow> if truthy options then bnd (modify (upd_chan i (setOptions options))) (\<lambda>_. ret i) else ret i))
     (\<lambda>i. bnd (look (\<lambda>w. ch_state (chans w i)) (\<lambda>s. if s = UNSUBSCRIBED then steps
         [modify (upd_chan i (\<lambda>c. c\<lparr>ch_state := PENDING\<rparr>)), trySubscribe E i] else skip))
       (\<lambda>_. ret i))"

definition channel_object :: "string \<Rightarrow> js \<Rightarrow> ('a world, nat) act" where
  "channel_object n options = look (\<lambda>w. map_of (c_channels w) n)
     (\<lambda>x. case x of None \<Rightarrow> add_channel n options | Some i \<Rightarrow> ret i)"

definition tryUnsubscribe :: "'a env \<Rightarrow> nat \<Rightarrow> ('a world, unit) act" where
  "tryUnsubscribe E i = look (\<lambda>w. (c_state w, chans w i)) (\<lambda>(s, c).
     if s = OPEN then steps
       [cancelPendingSubscribeCallback i,
        bnd (on_transport (\<lambda>t. transport_emit E t ''#unsubscribe'' (JStr (decorateChannelName E (ch_name c)))
               None True False (ch_batch c))) (\<lambda>_. skip)]
     else skip)"

definition unsubscribe :: "'a env \<Rightarrow> string \<Rightarrow> ('a world, unit) act" where
  "unsubscribe E n = look (\<lambda>w. map_of (c_channels w) n) (\<lambda>x. case x of None \<Rightarrow> skip
     | Some i \<Rightarrow> look (\<lambda>w. ch_state (chans w i)) (\<lambda>s. if s \<noteq> UNSUBSCRIBED then steps
         [triggerChannelUnsubscribe E i UNSUBSCRIBED, tryUnsubscribe E i] else skip))"

definition watch :: "string \<Rightarrow> nat \<Rightarrow> ('a world, unit) act" where
  "watch n f = modify (\<lambda>w. w\<lparr>c_watch := on (c_watch w) n (Fn f)\<rparr>)"

definition unwatch :: "string \<Rightarrow> nat option \<Rightarrow> ('a world, unit) act" where
  "unwatch n f = modify (\<lambda>w. w\<lparr>c_watch := off (c_watch w)
     (case f of None \<Rightarrow> OffEvent n | Some f \<Rightarrow> OffFn n (Fn f))\<rparr>)"

definition watchers :: "string \<Rightarrow> 'a world \<Rightarrow> fnref list" where
  "watchers n w = listeners (c_watch w) n"

definition destroyChannel :: "'a env \<Rightarrow> string \<Rightarrow> ('a world, unit) act" where
  "destroyChannel E n = look (\<lambda>w. map_of (c_channels w) n) (\<lambda>x. case x of
       None \<Rightarrow> if n \<in> inherited then raise TypeError else skip
     | Some i \<Rightarrow> steps [unwatch n None, unsubscribe E n,
         modify (\<lambda>w. w\<lparr>c_channels := al_del n (c_channels w)\<rparr>)])"

definition isSubscribed :: "string \<Rightarrow> bool \<Rightarrow> 'a world \<Rightarrow> bool" where
  "isSubscribed n includePending w = (case map_of (c_channels w) n of None \<Rightarrow> False
     | Some i \<Rightarrow> ch_state (chans w i) = SUBSCRIBED \<or> includePending \<and> ch_state (chans w i) = PENDING)"

definition subscriptions :: "bool \<Rightarrow> 'a world \<Rightarrow> string list" where
  "subscriptions includePending w =
     filter (\<lambda>n. isSubscribed n includePending w) (key_order (map fst (c_channels w)))"

definition pending_channels :: "'a world \<Rightarrow> nat list" where
  "pending_channels w = sort_key (\<lambda>i. - ch_priority (chans w i))
     (filter (\<lambda>i. ch_state (chans w i) = PENDING)
       (List.map_filter (map_of (c_channels w)) (key_order (map fst (c_channels w)))))"

definition processPendingSubscriptions :: "'a env \<Rightarrow> ('a world, unit) act" where
  "processPendingSubscriptions E = steps
     [modify (\<lambda>w. w\<lparr>c_preparing := False\<rparr>), look pending_channels (\<lambda>is. each (trySubscribe E) is)]"

subsection \<open>Authentication\<close>

definition extractAuthTokenData :: "'a env \<Rightarrow> js \<Rightarrow> exn + js" where
  "extractAuthTokenData E tok =
     (case (if truthy tok then tok else JStr '''') of
        JStr s \<Rightarrow> Inr (case nth_opt (split_on (CHR ''.'') s) 1 of None \<Rightarrow> JNull
          | Some p \<Rightarrow> (case decodeBase64 E p of Inl _ \<Rightarrow> JStr p
              | Inr d \<Rightarrow> (case json_parse E d of Inl _ \<Rightarrow> JStr d | Inr v \<Rightarrow> v)))
      | _ \<Rightarrow> Inl TypeError)"

definition changeToAuthenticatedState :: "'a env \<Rightarrow> js \<Rightarrow> ('a world, unit) act" where
  "changeToAuthenticatedState E tok = steps
     [modify (\<lambda>w. w\<lparr>c_signed := tok\<rparr>),
      case extractAuthTokenData E tok of Inl e \<Rightarrow> raise e | Inr v \<Rightarrow> modify (\<lambda>w. w\<lparr>c_token := v\<rparr>),
      look (\<lambda>w. (c_authState w, c_token w)) (\<lambda>(old, v). if old \<noteq> AUTHENTICATED then steps
        [modify (\<lambda>w. w\<lparr>c_authState := AUTHENTICATED\<rparr>),
         look c_preparing (\<lambda>p. if \<not> p then processPendingSubscriptions E else skip),
         emit_local E ''authStateChange''
           [JObj [(''oldState'', JStr (auth_name old)), (''newState'', JStr (auth_name AUTHENTICATED)),
                  (''signedAuthToken'', tok), (''authToken'', v)]]] else skip),
      emit_local E ''authenticate'' [tok]]"

definition authenticate :: "'a env \<Rightarrow> js \<Rightarrow> nat option \<Rightarrow> ('a world, unit) act" where
  "authenticate E tok u = client_emit E ''#authenticate'' tok (Some (AuthCb tok u))"

definition authenticated :: "'a env \<Rightarrow> js \<Rightarrow> js \<Rightarrow> nat option \<Rightarrow> ('a world, unit) act" where
  "authenticated E tok status u = look (\<lambda>w. (c_authState w, save_token E (authTokenName E) tok (auth_store w)))
     (\<lambda>(auth, err, st). steps
       [modify (\<lambda>w. w\<lparr>auth_store := st\<rparr>),
        if truthy err then on_sc_error err else skip,
        if truthy (get (auth_status E auth status) ''isAuthenticated'') then changeToAuthenticatedState E tok
        else changeToUnauthenticatedStateAndClearTokens E,
        user_callback E u err (auth_status E auth status)])"

definition deauthenticate :: "'a env \<Rightarrow> nat option \<Rightarrow> ('a world, unit) act" where
  "deauthenticate E u = look (\<lambda>w. remove_token E (authTokenName E) (auth_store w)) (\<lambda>((err, old), st). steps
     [modify (\<lambda>w. w\<lparr>auth_store := st\<rparr>),
      if truthy err then on_sc_error err
      else steps
        [emit_local E ''removeAuthToken'' [old],
         look c_state (\<lambda>s. if s \<noteq> CLOSED then client_emit E ''#removeAuthToken'' JUndef None else skip),
         changeToUnauthenticatedStateAndClearTokens E],
      user_callback E u err JUndef])"

subsection \<open>Opening\<close>

definition on_sc_open :: "'a env \<Rightarrow> js \<Rightarrow> ('a world, unit) act" where
  "on_sc_open E status = steps
     [modify (\<lambda>w. w\<lparr>c_preparing := True\<rparr>),
      if truthy status then steps
        [modify (\<lambda>w. w\<lparr>c_id := get status ''id'', c_pingTimeout := get status ''pingTimeout''\<rparr>),
         on_transport (\<lambda>t. modify (upd_tr t (\<lambda>x. x\<lparr>t_pingTimeout := get status ''pingTimeout''\<rparr>))),
         if truthy (get status ''isAuthenticated'') then changeToAuthenticatedState E (get status ''authToken'')
         else changeToUnauthenticatedStateAndClearTokens E]
      else changeToUnauthenticatedStateAndClearTokens E,
      modify (\<lambda>w. w\<lparr>c_attempts := 0\<rparr>),
      if autoSubscribeOnConnect E then processPendingSubscriptions E else skip,
      emit_local E ''connect'' [status],
      look c_state (\<lambda>s. if s = OPEN then flushEmitBuffer E else skip)]"

text \<open>A close code given as a value: 1000 when falsy, otherwise converted to a number.\<close>

definition code_of :: "js \<Rightarrow> jnum" where
  "code_of v = (if \<not> truthy v then Fin 1000
     else case v of JNum n \<Rightarrow> n | JStr s \<Rightarrow> str_to_number s | JBool b \<Rightarrow> Fin 1 | _ \<Rightarrow> NaN)"

text \<open>The continuation of the handshake.\<close>

definition handshake_status :: "'a env \<Rightarrow> js \<Rightarrow> js \<Rightarrow> js" where
  "handshake_status E tok status =
     (if truthy status then
        (let s1 = set_prop ''authToken'' tok status
         in if truthy (get s1 ''authError'')
            then set_prop ''authError'' (hydrateError (to_key E) (get s1 ''authError'')) s1 else s1)
      else status)"

definition handshake_done :: "'a env \<Rightarrow> nat \<Rightarrow> js \<Rightarrow> js \<Rightarrow> ('a world, unit) act" where
  "handshake_done E t err status =
     (if truthy err then
        (let code = (if truthy status \<and> truthy (get status ''code'') then code_of (get status ''code'') else Fin 4003)
         in steps [transport_on_error t err, on_close E t code (JStr (to_key E err)), shut t code])
      else steps
        [modify (upd_tr t (\<lambda>x. x\<lparr>t_state := OPEN\<rparr>)),
         look (\<lambda>w. t_attached (trs w t)) (\<lambda>a. if a then steps
           [modify (\<lambda>w. w\<lparr>c_state := OPEN\<rparr>), on_sc_open E status] else skip),
         resetPingTimeout E t])"

definition handshake :: "'a env \<Rightarrow> nat \<Rightarrow> ('a world, unit) act" where
  "handshake E t = look (\<lambda>w. load_token E (authTokenName E) (auth_store w)) (\<lambda>(err, tok).
     if truthy err then handshake_done E t err JUndef
     else bnd (transport_emit E t ''#handshake'' (JObj [(''authToken'', tok)]) (Some (HandshakeCb t tok)) False True False)
            (\<lambda>_. skip))"

definition on_open :: "'a env \<Rightarrow> nat \<Rightarrow> ('a world, unit) act" where
  "on_open E t = steps
     [modify (upd_tr t (\<lambda>x. x\<lparr>t_conn_timer := False\<rparr>)), resetPingTimeout E t, handshake E t]"

text \<open>Running the callback of an event object.\<close>

definition run_callback :: "'a env \<Rightarrow> callback \<Rightarrow> js \<Rightarrow> js \<Rightarrow> ('a world, unit) act" where
  "run_callback E k err data =
     (case k of
        UserCb n \<Rightarrow> call_out E (UserCall n err data)
      | AuthCb tok u \<Rightarrow> if truthy err then auth_failed E err data u else authenticated E tok data u
      | SubscribeCb i so \<Rightarrow> steps
          [modify (upd_chan i (\<lambda>c. c\<lparr>ch_cid := None\<rparr>)),
           if truthy err then triggerChannelSubscribeFail E err i so else triggerChannelSubscribe E i so]
      | HandshakeCb t tok \<Rightarrow> handshake_done E t err (handshake_status E tok data))"

subsection \<open>Messages\<close>

text \<open>The private events of the protocol.\<close>

definition on_publish :: "'a env \<Rightarrow> js \<Rightarrow> ('a world, unit) act" where
  "on_publish E data = (if nullish data then raise TypeError
     else bnd (undecorateChannelName E (get data ''channel'')) (\<lambda>n.
       look (\<lambda>w. (isSubscribed n True w, watchers n w)) (\<lambda>(sub, fs).
         if sub then each (\<lambda>f. call_out E (Watcher f (get data ''data''))) fs else skip)))"

definition on_kickOut :: "'a env \<Rightarrow> js \<Rightarrow> ('a world, unit) act" where
  "on_kickOut E data = (if nullish data then raise TypeError
     else bnd (undecorateChannelName E (get data ''channel'')) (\<lambda>n.
       look (\<lambda>w. map_of (c_channels w) n) (\<lambda>x. case x of
           None \<Rightarrow> if n \<in> inherited then steps [emit_local E ''kickOut'' [get data ''message'', JStr n], raise TypeError] else skip
         | Some i \<Rightarrow> steps
            [emit_local E ''kickOut'' [get data ''message'', JStr n],
             call_out E (ChanEmit i ''kickOut'' [get data ''message'', JStr n]),
             triggerChannelUnsubscribe E i UNSUBSCRIBED])))"

definition on_setAuthToken :: "'a env \<Rightarrow> js \<Rightarrow> nat \<Rightarrow> ('a world, unit) act" where
  "on_setAuthToken E data r =
     (if truthy data then look (\<lambda>w. save_token E (authTokenName E) (get data ''token'') (auth_store w)) (\<lambda>(err, st). steps
        [modify (\<lambda>w. w\<lparr>auth_store := st\<rparr>),
         if truthy err then steps [response_error E r err JUndef, on_sc_error err]
         else steps [changeToAuthenticatedState E (get data ''token''), response_end E r JUndef]])
      else response_error E r (new_error InvalidMessageError ''No token data provided by #setAuthToken event'' JUndef) JUndef)"

definition on_removeAuthToken :: "'a env \<Rightarrow> nat \<Rightarrow> ('a world, unit) act" where
  "on_removeAuthToken E r = look (\<lambda>w. remove_token E (authTokenName E) (auth_store w)) (\<lambda>((err, old), st). steps
     [modify (\<lambda>w. w\<lparr>auth_store := st\<rparr>),
      if truthy err then steps [response_error E r err JUndef, on_sc_error err]
      else steps
        [emit_local E ''removeAuthToken'' [old],
         changeToUnauthenticatedStateAndClearTokens E, response_end E r JUndef]])"

definition on_disconnect_event :: "'a env \<Rightarrow> js \<Rightarrow> ('a world, unit) act" where
  "on_disconnect_event E data = (if nullish data then raise TypeError
     else on_transport (\<lambda>t. transport_close E t (code_of (get data ''code'')) (get data ''data'')))"

text \<open>
  The lookup of the handler also finds what every object inherits: those functions, called on
  the client with a message's data, do nothing or throw.
\<close>

definition on_sc_event :: "'a env \<Rightarrow> string \<Rightarrow> js \<Rightarrow> nat \<Rightarrow> ('a world, unit) act" where
  "on_sc_event E event data r =
     (if event = ''#publish'' then on_publish E data
      else if event = ''#kickOut'' then on_kickOut E data
      else if event = ''#setAuthToken'' then on_setAuthToken E data r
      else if event = ''#removeAuthToken'' then on_removeAuthToken E r
      else if event = ''#disconnect'' then on_disconnect_event E data
      else if event \<in> inherited then
        (if event \<in> {''__proto__'', ''__defineGetter__'', ''__defineSetter__''} then raise TypeError else skip)
      else emit_local E event [data, JNum (Fin (of_nat r))])"

definition handleEventObject :: "'a env \<Rightarrow> nat \<Rightarrow> js \<Rightarrow> js \<Rightarrow> ('a world, unit) act" where
  "handleEventObject E t obj message =
     (if truthy obj \<and> \<not> nullish (get obj ''event'') then look n_resps (\<lambda>r. steps
        [modify (\<lambda>w. w\<lparr>resps := (resps w)(r := \<lparr>r_transport = t, r_id = get obj ''cid'', r_sent = False\<rparr>),
                 n_resps := Suc r\<rparr>),
         look (\<lambda>w. t_attached (trs w t)) (\<lambda>a. if a
           then on_sc_event E (to_key E (get obj ''event'')) (get obj ''data'') r else skip)])
      else if truthy obj \<and> \<not> nullish (get obj ''rid'') then
        look (\<lambda>w. find (\<lambda>(cid, e). show_nat cid = to_key E (get obj ''rid'')) (t_cbs (trs w t))) (\<lambda>x.
          case x of None \<Rightarrow> skip
          | Some (cid, e) \<Rightarrow> steps
             [modify (upd_ev e (\<lambda>ob. ob\<lparr>ev_timer := None\<rparr>)),
              cancelPendingResponse t cid,
              look (\<lambda>w. ev_cb (evs w e)) (\<lambda>k. case k of None \<Rightarrow> skip
                | Some k \<Rightarrow> run_callback E k (hydrateError (to_key E) (get obj ''error'')) (get obj ''data''))])
      else look (\<lambda>w. t_attached (trs w t)) (\<lambda>a. if a then emit_local E ''raw'' [message] else skip))"

text \<open>\<open>obj == '#1'\<close>: the string, or nested arrays that print as it.\<close>

fun is_ping :: "js \<Rightarrow> bool" where
  "is_ping (JStr s) = (s = ''#1'')"
| "is_ping (JArr [v]) = is_ping v"
| "is_ping _ = False"

definition on_message :: "'a env \<Rightarrow> nat \<Rightarrow> js \<Rightarrow> ('a world, unit) act" where
  "on_message E t message = steps
     [look (\<lambda>w. t_attached (trs w t)) (\<lambda>a. if a then emit_local E ''message'' [message] else skip),
      (let obj = decode E message
       in if is_ping obj then steps
            [resetPingTimeout E t,
             look (\<lambda>w. t_ready (trs w t)) (\<lambda>r. if r then sendObject E t (JStr ''#2'') False else skip)]
          else (case obj of JArr objs \<Rightarrow> each (\<lambda>x. handleEventObject E t x message) objs
                | _ \<Rightarrow> handleEventObject E t obj message))]"

subsection \<open>Timers and the WebSocket\<close>

definition node_timeout :: "'a env \<Rightarrow> nat \<Rightarrow> ('a world, unit) act" where
  "node_timeout E e = steps
     [modify (\<lambda>w. w\<lparr>c_buffer := remove1 e (c_buffer w)\<rparr>),
      modify (upd_ev e (\<lambda>ob. ob\<lparr>ev_timer := None\<rparr>)),
      look (\<lambda>w. evs w e) (\<lambda>ob. case ev_cb ob of None \<Rightarrow> skip
        | Some k \<Rightarrow> steps
           [modify (upd_ev e (\<lambda>ob. ob\<lparr>ev_cb := None\<rparr>)), run_callback E k (timed_out ob) (ev_js ob)]),
      look (\<lambda>w. ev_cid (evs w e)) (\<lambda>c. case c of None \<Rightarrow> skip
        | Some cid \<Rightarrow> on_transport (\<lambda>t. cancelPendingResponse t cid))]"

definition wire_timeout :: "'a env \<Rightarrow> nat \<Rightarrow> nat \<Rightarrow> ('a world, unit) act" where
  "wire_timeout E t e = steps
     [look (\<lambda>w. ev_cid (evs w e)) (\<lambda>c. case c of None \<Rightarrow> skip | Some cid \<Rightarrow> cancelPendingResponse t cid),
      modify (upd_ev e (\<lambda>ob. ob\<lparr>ev_timer := None\<rparr>)),
      look (\<lambda>w. evs w e) (\<lambda>ob. case ev_cb ob of None \<Rightarrow> skip
        | Some k \<Rightarrow> steps
           [modify (upd_ev e (\<lambda>ob. ob\<lparr>ev_cb := None\<rparr>)), run_callback E k (timed_out ob) (ev_js ob)])]"

definition ack_timeout :: "'a env \<Rightarrow> nat \<Rightarrow> ('a world, unit) act" where
  "ack_timeout E e = look (\<lambda>w. ev_timer (evs w e)) (\<lambda>x. case x of None \<Rightarrow> skip
     | Some NodeTimer \<Rightarrow> node_timeout E e | Some (WireTimer t) \<Rightarrow> wire_timeout E t e)"

definition reconnect_timer_fires :: "'a env \<Rightarrow> ('a world, unit) act" where
  "reconnect_timer_fires E = look c_timer (\<lambda>x. case x of None \<Rightarrow> skip
     | Some d \<Rightarrow> steps [modify (\<lambda>w. w\<lparr>c_timer := None\<rparr>), connect E])"

definition ping_timer_fires :: "'a env \<Rightarrow> nat \<Rightarrow> ('a world, unit) act" where
  "ping_timer_fires E t = steps
     [modify (upd_tr t (\<lambda>x. x\<lparr>t_ping_timer := None\<rparr>)), on_close E t (Fin 4000) JUndef, shut t (Fin 4000)]"

definition connect_timer_fires :: "'a env \<Rightarrow> nat \<Rightarrow> ('a world, unit) act" where
  "connect_timer_fires E t = steps
     [modify (upd_tr t (\<lambda>x. x\<lparr>t_conn_timer := False\<rparr>)), on_close E t (Fin 4007) JUndef, shut t (Fin 4007)]"

definition ws_onclose :: "'a env \<Rightarrow> nat \<Rightarrow> jnum option \<Rightarrow> js \<Rightarrow> ('a world, unit) act" where
  "ws_onclose E t code reason = on_close E t (case code of None \<Rightarrow> Fin 1005 | Some c \<Rightarrow> c) reason"

definition ws_onerror :: "'a env \<Rightarrow> nat \<Rightarrow> ('a world, unit) act" where
  "ws_onerror E t = look (\<lambda>w. t_state (trs w t)) (\<lambda>s.
     if s = CONNECTING then on_close E t (Fin 1006) JUndef else skip)"

definition client_send :: "'a env \<Rightarrow> string \<Rightarrow> ('a world, unit) act" where
  "client_send E s = on_transport (\<lambda>t. send E t s)"

subsection \<open>The constructor\<close>

definition too_long :: "js \<Rightarrow> bool" where
  "too_long v = (case v of JNum n \<Rightarrow> num_less (Fin (2 ^ 31 - 1)) n
     | JStr s \<Rightarrow> num_less (Fin (2 ^ 31 - 1)) (str_to_number s) | _ \<Rightarrow> False)"

text \<open>What stands in the stores where no object has been made yet.\<close>

definition no_transport :: transport where
  "no_transport = \<lparr>t_state = CLOSED, t_ready = False, t_attached = False, t_cbs = [], t_batch = [],
     t_batch_ref = False, t_batch_timer = False, t_ping_timer = None, t_conn_timer = False, t_pingTimeout = JUndef\<rparr>"

definition no_event :: event_obj where
  "no_event = \<lparr>ev_name = '''', ev_data = JUndef, ev_cb = None, ev_timer = None, ev_cid = None\<rparr>"

definition no_response :: response where
  "no_response = \<lparr>r_transport = 0, r_id = JUndef, r_sent = True\<rparr>"

definition initial_world :: "'a env \<Rightarrow> (nat \<Rightarrow> rat) \<Rightarrow> (string \<times> js) list \<Rightarrow> bool \<Rightarrow> 'a \<Rightarrow> 'a world" where
  "initial_world E rnd st l a = \<lparr>c_state = CLOSED, c_id = JNull, c_authState = UNAUTHENTICATED, c_signed = JNull,
     c_token = JNull, c_pendingReconnect = False, c_pendingTimeout = None, c_timer = None,
     c_preparing = False, c_active = True, c_attempts = 0, c_pingTimeout = ackTimeout E, c_buffer = [],
     c_channels = [], c_cid = 1, c_transport = None, c_registered = True,
     chans = (\<lambda>_. new_channel '''' JUndef), n_chans = 0, trs = (\<lambda>_. no_transport), n_trs = 0,
     evs = (\<lambda>_. no_event), n_evs = 0, resps = (\<lambda>_. no_response), n_resps = 0, auth_store = st, c_watch = new_emitter, math_random = rnd, err_listeners = l, deferred = [],
     out = [], app = a\<rparr>"

definition construct :: "'a env \<Rightarrow> ('a world, unit) act" where
  "construct E = steps
     [if too_long (connectTimeout E) then raise (Thrown (new_error InvalidArgumentsError
        ''The connectTimeout value provided exceeded the maximum amount allowed'' JUndef)) else skip,
      if too_long (ackTimeout E) then raise (Thrown (new_error InvalidArgumentsError
        ''The ackTimeout value provided exceeded the maximum amount allowed'' JUndef)) else skip,
      if autoConnect E then connect E else skip]"

end
