(* ===== verification/Auth_Engine.thy ===== *)
theory Auth_Engine
  imports Prelude
begin

text \<open>
  The default authentication engine (\<open>auth.js\<close>, module 2 of \<open>socketcluster.js\<close>): the token
  is kept in the browser's local storage when that works and in the engine's own object
  otherwise. Both are property stores; local storage keeps strings. The laws the client
  relies on are the locale \<open>token_store\<close>, which both kinds of storage satisfy.
\<close>

text \<open>What the environment offers: reading \<open>localStorage\<close> and writing to it may throw.\<close>

record browser =
  access_throws :: bool
  has_storage :: bool
  write_throws :: bool

definition checkLocalStorageEnabled :: "browser \<Rightarrow> bool" where
  "checkLocalStorageEnabled b \<longleftrightarrow> \<not> access_throws b \<and> has_storage b \<and> \<not> write_throws b"

type_synonym storage = "(string \<times> js) list"

definition loadToken :: "bool \<Rightarrow> string \<Rightarrow> storage \<Rightarrow> js \<times> js" where
  "loadToken enabled n st = (JNull,
     (case map_of st n of None \<Rightarrow> JNull
      | Some v \<Rightarrow> if enabled then v else if truthy v then v else JNull))"

definition saveToken :: "(js \<Rightarrow> string) \<Rightarrow> bool \<Rightarrow> string \<Rightarrow> js \<Rightarrow> storage \<Rightarrow> js \<times> storage" where
  "saveToken str enabled n token st = (JNull, al_set n (if enabled then JStr (str token) else token) st)"

definition removeToken :: "bool \<Rightarrow> string \<Rightarrow> storage \<Rightarrow> (js \<times> js) \<times> storage" where
  "removeToken enabled n st = ((JNull, snd (loadToken enabled n st)), al_del n st)"

locale token_store =
  fixes save :: "string \<Rightarrow> js \<Rightarrow> 'st \<Rightarrow> js \<times> 'st"
    and load :: "string \<Rightarrow> 'st \<Rightarrow> js \<times> js"
    and remove :: "string \<Rightarrow> 'st \<Rightarrow> (js \<times> js) \<times> 'st"
  assumes save_no_error: "fst (save n v st) = JNull"
    and load_no_error: "fst (load n st) = JNull"
    and load_save: "s \<noteq> '''' \<Longrightarrow> load m (snd (save n (JStr s) st)) = (if m = n then (JNull, JStr s) else load m st)"
    and load_remove: "load m (snd (remove n st)) = (if m = n then (JNull, JNull) else load m st)"
    and remove_old: "fst (remove n st) = (JNull, snd (load n st))"
begin

lemma save_then_remove:
  "s \<noteq> '''' \<Longrightarrow> fst (remove n (snd (save n (JStr s) st))) = (JNull, JStr s)
     \<and> load n (snd (remove n (snd (save n (JStr s) st)))) = (JNull, JNull)"
  by (simp add: remove_old load_save load_remove)

lemma last_save_wins:
  "s \<noteq> '''' \<Longrightarrow> s' \<noteq> '''' \<Longrightarrow> load n (snd (save n (JStr s') (snd (save n (JStr s) st)))) = (JNull, JStr s')"
  by (simp add: load_save)

end

definition string_of :: "js \<Rightarrow> string" where
  "string_of v = (case v of JStr s \<Rightarrow> s | JUndef \<Rightarrow> ''undefined'' | JNull \<Rightarrow> ''null'' | _ \<Rightarrow> ''[object Object]'')"

interpretation local_storage: token_store "saveToken string_of True" "loadToken True" "removeToken True"
  by unfold_locales (simp_all add: saveToken_def loadToken_def removeToken_def string_of_def)

interpretation own_object: token_store "saveToken string_of False" "loadToken False" "removeToken False"
  by unfold_locales (simp_all add: saveToken_def loadToken_def removeToken_def)

text \<open>
  Whether or not local storage can be used, a token that was saved is loaded again, other
  names are unaffected, and removing it hands it back and leaves nothing; none of the three
  operations reports an error.
\<close>

theorem token_roundtrip:
  assumes "token \<noteq> ''''"
  shows "loadToken (checkLocalStorageEnabled b) n (snd (saveToken string_of (checkLocalStorageEnabled b) n (JStr token) st))
           = (JNull, JStr token)
       \<and> fst (removeToken (checkLocalStorageEnabled b) n
            (snd (saveToken string_of (checkLocalStorageEnabled b) n (JStr token) st))) = (JNull, JStr token)
       \<and> loadToken (checkLocalStorageEnabled b) n (snd (removeToken (checkLocalStorageEnabled b) n st)) = (JNull, JNull)
       \<and> fst (saveToken string_of (checkLocalStorageEnabled b) n v st) = JNull"
proof (cases "checkLocalStorageEnabled b")
  case True
  show ?thesis
    using assms local_storage.load_save local_storage.save_then_remove local_storage.load_remove
      local_storage.save_no_error by (simp add: True)
next
  case False
  show ?thesis
    using assms own_object.load_save own_object.save_then_remove own_object.load_remove
      own_object.save_no_error by (simp add: False)
qed

theorem token_roundtrip_witness:
  "loadToken (checkLocalStorageEnabled \<lparr>access_throws = False, has_storage = True, write_throws = True\<rparr>) ''t''
     (snd (saveToken string_of (checkLocalStorageEnabled \<lparr>access_throws = False, has_storage = True, write_throws = True\<rparr>)
        ''t'' (JStr ''a.b.c'') [])) = (JNull, JStr ''a.b.c'')"
  using token_roundtrip [of "''a.b.c''"] by simp

end
