(* ===== verification/Sc_Run.thy ===== *)
theory Sc_Run
  imports Sc_Client Auth_Engine
begin

text \<open>
  The client as a transition system: the calls a program can make, what the WebSocket can
  report, and the timers that can fire; and which listeners a program can have. A listener
  is library code's environment: it may change the program's own data and call the library,
  whose listeners may again call the library. \<open>nest E n\<close> relates two states when the second
  is reached from the first by such calls, nested up to depth \<open>n\<close>.
\<close>

datatype api =
    Connect
  | Disconnect js js
  | Reconnect js js
  | Destroy js js
  | EmitEvent string js "nat option"
  | Publish string js "nat option"
  | Subscribe string js
  | Unsubscribe string
  | Channel string js
  | DestroyChannel string
  | ProcessPending
  | Watch string nat
  | Unwatch string "nat option"
  | Authenticate js "nat option"
  | Deauthenticate "nat option"
  | SendText string
  | Respond nat js js
  | SetPriority nat rat
  | SetErrorListener bool

datatype input =
    Api api
  | WsOpen nat
  | WsMessage nat js
  | WsClose nat "jnum option" js
  | WsError nat
  | WsReady nat bool
  | ReconnectTimer
  | AckTimer nat
  | PingTimer nat
  | ConnectTimer nat
  | BatchTimer nat
  | DeferredError

fun run_api :: "'a env \<Rightarrow> api \<Rightarrow> ('a world, unit) act" where
  "run_api E Connect = connect E"
| "run_api E (Disconnect c d) = disconnect E c d"
| "run_api E (Reconnect c d) = reconnect E c d"
| "run_api E (Destroy c d) = destroy E c d"
| "run_api E (EmitEvent ev d u) = client_emit E ev d (map_option UserCb u)"
| "run_api E (Publish ch d u) = publish E ch d u"
| "run_api E (Subscribe ch opts) = bnd (subscribe E ch opts) (\<lambda>_. skip)"
| "run_api E (Unsubscribe ch) = unsubscribe E ch"
| "run_api E (Channel ch opts) = bnd (channel_object ch opts) (\<lambda>_. skip)"
| "run_api E (DestroyChannel ch) = destroyChannel E ch"
| "run_api E ProcessPending = processPendingSubscriptions E"
| "run_api E (Watch ch f) = watch ch f"
| "run_api E (Unwatch ch f) = unwatch ch f"
| "run_api E (Authenticate tok u) = authenticate E tok u"
| "run_api E (Deauthenticate u) = deauthenticate E u"
| "run_api E (SendText s) = client_send E s"
| "run_api E (Respond r err d) = response_callback E r err d"
| "run_api E (SetPriority i q) = modify (upd_chan i (\<lambda>c. c\<lparr>ch_priority := q\<rparr>))"
| "run_api E (SetErrorListener b) = modify (\<lambda>w. w\<lparr>err_listeners := b\<rparr>)"

fun run :: "'a env \<Rightarrow> input \<Rightarrow> ('a world, unit) act" where
  "run E (Api a) = run_api E a"
| "run E (WsOpen t) = steps [modify (upd_tr t (\<lambda>x. x\<lparr>t_ready := True\<rparr>)), on_open E t]"
| "run E (WsMessage t m) = on_message E t m"
| "run E (WsClose t c r) = steps [modify (upd_tr t (\<lambda>x. x\<lparr>t_ready := False\<rparr>)), ws_onclose E t c r]"
| "run E (WsError t) = ws_onerror E t"
| "run E (WsReady t b) = modify (upd_tr t (\<lambda>x. x\<lparr>t_ready := b\<rparr>))"
| "run E ReconnectTimer = reconnect_timer_fires E"
| "run E (AckTimer e) = ack_timeout E e"
| "run E (PingTimer t) = ping_timer_fires E t"
| "run E (ConnectTimer t) = connect_timer_fires E t"
| "run E (BatchTimer t) = batch_timer_fires E t"
| "run E DeferredError = run_deferred E"

text \<open>A timer fires only while it is set, and a WebSocket opens once.\<close>

fun enabled :: "input \<Rightarrow> 'a world \<Rightarrow> bool" where
  "enabled (WsOpen t) w = (t < n_trs w \<and> t_conn_timer (trs w t))"
| "enabled (WsMessage t _) w = (t < n_trs w)"
| "enabled (WsClose t _ _) w = (t < n_trs w)"
| "enabled (WsError t) w = (t < n_trs w)"
| "enabled (WsReady t _) w = (t < n_trs w)"
| "enabled ReconnectTimer w = (c_timer w \<noteq> None)"
| "enabled (AckTimer e) w = (e < n_evs w \<and> ev_timer (evs w e) \<noteq> None)"
| "enabled (PingTimer t) w = (t < n_trs w \<and> t_ping_timer (trs w t) \<noteq> None)"
| "enabled (ConnectTimer t) w = (t < n_trs w \<and> t_conn_timer (trs w t))"
| "enabled (BatchTimer t) w = (t < n_trs w \<and> t_batch_timer (trs w t))"
| "enabled (Api (Respond r _ _)) w = (r < n_resps w)"
| "enabled _ w = True"

inductive nest :: "'a env \<Rightarrow> nat \<Rightarrow> 'a world \<Rightarrow> 'a world \<Rightarrow> bool" for E where
  nest_refl: "nest E n w w"
| nest_app: "nest E n w w' \<Longrightarrow> nest E n w (w'\<lparr>app := a\<rparr>)"
| nest_api: "nest E (Suc n) w w' \<Longrightarrow> enabled (Api a) w' \<Longrightarrow> (\<And>c v. nest E n v (snd (g c v))) \<Longrightarrow>
    nest E (Suc n) w (snd (run_api (E\<lparr>lis := g\<rparr>) a w'))"

definition proper :: "'a env \<Rightarrow> bool" where
  "proper E \<longleftrightarrow> (\<exists>n. \<forall>c v. nest E n v (snd (lis E c v)))"

text \<open>Listeners that only look at their arguments and change the program's own data.\<close>

definition quiet :: "'a env \<Rightarrow> bool" where
  "quiet E \<longleftrightarrow> (\<forall>c w. \<exists>a. lis E c w = (Done (), w\<lparr>app := a\<rparr>))"

lemma quiet_proper: "quiet E \<Longrightarrow> proper E"
proof -
  assume q: "quiet E"
  have "nest E 0 v (snd (lis E c v))" for c v
  proof -
    obtain a where "lis E c v = (Done (), v\<lparr>app := a\<rparr>)" using q by (auto simp: quiet_def)
    then show ?thesis by (auto intro: nest_app nest_refl)
  qed
  then show ?thesis unfolding proper_def by blast
qed

text \<open>
  The options a client has when the program gives none (\<open>factory.js\<close> and the constructor),
  with the default authentication engine; the listeners, the codec and the engine's parsers
  remain parameters.
\<close>

definition default_env ::
  "(call \<Rightarrow> ('a world, unit) act) \<Rightarrow> (js \<Rightarrow> exn + string) \<Rightarrow> (js \<Rightarrow> js) \<Rightarrow> 'a env" where
  "default_env l enc dec = \<lparr>lis = l, autoReconnect = True, initialDelay = 10000, randomness = 10000,
     multiplier = 3 / 2, maxDelay = 60000, autoSubscribeOnConnect = True, autoConnect = True,
     ackTimeout = JNum (Fin 10000), connectTimeout = JNum (Fin 20000), pingTimeoutDisabled = False,
     channelPrefix = '''', authTokenName = ''socketCluster.authToken'',
     save_token = saveToken string_of True, remove_token = removeToken True, load_token = loadToken True,
     encode = enc, decode = dec, decodeBase64 = (\<lambda>s. Inr s), json_parse = (\<lambda>s. Inr (JStr s)),
     text_of = string_of, loop_fuel = 1000\<rparr>"

inductive reach :: "'a env \<Rightarrow> 'a world \<Rightarrow> bool" for E where
  reach_start: "reach E (snd (construct E (initial_world E rnd st l a)))"
| reach_step: "reach E w \<Longrightarrow> enabled i w \<Longrightarrow> reach E (snd (run E i w))"

lemma quiet_skip: "lis E = (\<lambda>_. skip) \<Longrightarrow> quiet E"
proof -
  assume l: "lis E = (\<lambda>_. skip)"
  have "lis E c w = (Done (), w\<lparr>app := app w\<rparr>)" for c w by (simp add: l skip_def ret_def)
  then show ?thesis unfolding quiet_def by blast
qed

text \<open>A client with the default options, no listeners and a codec that sends one fixed text.\<close>

definition demo_env :: "unit env" where
  "demo_env = default_env (\<lambda>_. skip) (\<lambda>_. Inr ''{}'') (\<lambda>v. v)"

definition demo_start :: "unit world" where
  "demo_start = snd (construct demo_env (initial_world demo_env (\<lambda>_. 1 / 2) [] False ()))"

lemma quiet_demo: "quiet demo_env"
  by (rule quiet_skip) (simp add: demo_env_def default_env_def)

lemma reach_demo: "reach demo_env demo_start"
  unfolding demo_start_def by (rule reach_start)

end
