(* ===== verification/Sc_Inv.thy ===== *)
theory Sc_Inv
  imports Sc_Run
begin

text \<open>
  The client and its transports stay in step, whatever the listeners do. The locale carries
  an invariant over the connection states through every operation of the client, from the
  few steps that change them; it is interpreted on the two invariants that the client needs.
\<close>

subsection \<open>The connection states\<close>

text \<open>
  The connection states, and what only the program itself changes: its watchers and its data.
\<close>

definition core :: "'a world \<Rightarrow> sock_state \<times> nat option \<times> (nat \<Rightarrow> sock_state \<times> bool) \<times> emitter \<times> 'a" where
  "core w = (c_state w, c_transport w, \<lambda>t. (t_state (trs w t), t_attached (trs w t)), c_watch w, app w)"

lemma upd_program [simp]:
  "c_watch (upd_tr t f w) = c_watch w" "app (upd_tr t f w) = app w"
  "c_watch (upd_chan i g w) = c_watch w" "app (upd_chan i g w) = app w"
  "c_watch (upd_ev e h w) = c_watch w" "app (upd_ev e h w) = app w"
  "c_watch (log_out a w) = c_watch w" "app (log_out a w) = app w"
  by (simp_all add: upd_tr_def upd_chan_def upd_ev_def log_out_def)

lemma core_upd [simp]:
  "core (upd_chan i f w) = core w" "core (upd_ev e g w) = core w" "core (log_out a w) = core w"
  by (simp_all add: core_def)

lemma core_upd_tr [simp]:
  "(\<And>x. t_state (f x) = t_state x \<and> t_attached (f x) = t_attached x) \<Longrightarrow> core (upd_tr t f w) = core w"
  by (simp add: core_def fun_eq_iff)

definition drop_current :: "'a world \<Rightarrow> 'a world" where
  "drop_current w = (case c_transport w of None \<Rightarrow> w | Some t \<Rightarrow> upd_tr t (\<lambda>x. x\<lparr>t_attached := False\<rparr>) w)"

definition set_t_state :: "nat \<Rightarrow> sock_state \<Rightarrow> 'a world \<Rightarrow> 'a world" where
  "set_t_state t s w = upd_tr t (\<lambda>x. x\<lparr>t_state := s\<rparr>) w"

definition sc_close_rest :: "'a env \<Rightarrow> jnum \<Rightarrow> js \<Rightarrow> bool \<Rightarrow> ('a world, unit) act" where
  "sc_close_rest E code data openAbort = steps
     [modify (\<lambda>w. w\<lparr>c_pendingReconnect := False, c_pendingTimeout := None, c_timer := None\<rparr>),
      suspendSubscriptions E,
      abort_all_buffered E (if openAbort then ''connectAbort'' else ''disconnect''),
      if autoReconnect E then
        (if code \<in> immediate_codes then tryReconnect E True
         else if code \<noteq> Fin 1000 \<and> num_less code (Fin 4500) then tryReconnect E False else skip)
      else skip,
      if openAbort then emit_local E ''connectAbort'' [JNum code, data]
      else emit_local E ''disconnect'' [JNum code, data],
      emit_local E ''close'' [JNum code, data],
      if status_entry socketProtocolIgnoreStatuses code = None then
        on_sc_error (new_error SocketProtocolError
          (case status_entry socketProtocolErrorStatuses code of Some m \<Rightarrow> m | None \<Rightarrow> code_message E code data)
          (JNum code))
      else skip]"

lemma on_sc_close_eq:
  "on_sc_close E code d oa w = sc_close_rest E code d oa (drop_current (w\<lparr>c_id := JNull\<rparr>))"
  unfolding on_sc_close_def sc_close_rest_def drop_current_def
  by (cases "c_transport w") (simp_all add: skip_def)

lemma keeps_prod [wp]: "(\<And>a b. x = (a, b) \<Longrightarrow> keeps I (k a b)) \<Longrightarrow> keeps I (case x of (a, b) \<Rightarrow> k a b)"
  by (cases x) simp

lemma keeps_prod_app [wp]: "(\<And>a b. x = (a, b) \<Longrightarrow> keeps I (k a b c)) \<Longrightarrow> keeps I ((case x of (a, b) \<Rightarrow> k a b) c)"
  by (cases x) simp

lemma keeps_list [wp]:
  "keeps I m \<Longrightarrow> (\<And>y ys. x = y # ys \<Longrightarrow> keeps I (k y ys)) \<Longrightarrow> keeps I (case x of [] \<Rightarrow> m | y # ys \<Rightarrow> k y ys)"
  by (cases x) simp_all

lemma keeps_let [wp]: "keeps I (k v) \<Longrightarrow> keeps I (let x = v in k x)"
  by simp

subsection \<open>Carrying an invariant\<close>

text \<open>The calls of the program that change its watchers.\<close>

fun rewatches :: "api \<Rightarrow> bool" where
  "rewatches (Watch ch f) = True"
| "rewatches (Unwatch ch f) = True"
| "rewatches (DestroyChannel ch) = True"
| "rewatches _ = False"

locale core_invariant =
  fixes E :: "'a env" and I :: "'a world \<Rightarrow> bool"
  assumes frame: "core w' = core w \<Longrightarrow> I w \<Longrightarrow> I w'"
    and lis_keeps: "keeps I (lis E c)"
    and close_attached: "I w \<Longrightarrow> t_attached (trs w t) \<Longrightarrow> t_state (trs w t) \<noteq> CLOSED \<Longrightarrow>
      I (drop_current ((set_t_state t CLOSED w)\<lparr>c_state := CLOSED\<rparr>))"
    and close_unattached: "I w \<Longrightarrow> \<not> t_attached (trs w t) \<Longrightarrow> I (set_t_state t CLOSED w)"
    and open_attached: "I w \<Longrightarrow> t_attached (trs w t) \<Longrightarrow> I ((set_t_state t OPEN w)\<lparr>c_state := OPEN\<rparr>)"
    and open_unattached: "I w \<Longrightarrow> \<not> t_attached (trs w t) \<Longrightarrow> I (set_t_state t OPEN w)"
    and connect_keeps: "(\<And>c. keeps I (lis E c)) \<Longrightarrow> keeps I (connect E)"
begin

lemma keeps_frame: "(\<And>w. core (f w) = core w) \<Longrightarrow> keeps I (modify f)"
  by (rule keeps_modify) (rule frame)

lemma call_out [wp]: "keeps I (call_out E c)"
  unfolding call_out_def by (intro wp keeps_frame lis_keeps) simp

lemma emit_local [wp]: "keeps I (emit_local E ev args)"
  unfolding emit_local_def by (intro wp)

lemma on_sc_error [wp]: "keeps I (on_sc_error err)"
  unfolding on_sc_error_def by (intro wp keeps_frame) (simp add: core_def)

lemma run_deferred [wp]: "keeps I (run_deferred E)"
  unfolding run_deferred_def by (intro wp keeps_frame) (simp add: core_def)

lemma cancelPendingResponse [wp]: "keeps I (cancelPendingResponse t cid)"
  unfolding cancelPendingResponse_def by (intro wp keeps_frame) simp

lemma on_transport [wp]: "(\<And>t. keeps I (k t)) \<Longrightarrow> keeps I (on_transport k)"
  unfolding on_transport_def by (intro wp)

lemma upd_chan_keeps [wp]: "keeps I (modify (upd_chan i f))"
  and upd_ev_keeps [wp]: "keeps I (modify (upd_ev e g))"
  and log_keeps [wp]: "keeps I (modify (log_out a))"
  by (rule keeps_frame, simp)+

lemma triggerChannelSubscribe [wp]: "keeps I (triggerChannelSubscribe E i so)"
  unfolding triggerChannelSubscribe_def by (intro wp)

lemma triggerChannelSubscribeFail [wp]: "keeps I (triggerChannelSubscribeFail E err i so)"
  unfolding triggerChannelSubscribeFail_def by (intro wp)

lemma cancelPendingSubscribeCallback [wp]: "keeps I (cancelPendingSubscribeCallback i)"
  unfolding cancelPendingSubscribeCallback_def by (intro wp)

lemma triggerChannelUnsubscribe [wp]: "keeps I (triggerChannelUnsubscribe E i s)"
  unfolding triggerChannelUnsubscribe_def by (intro wp)

lemma suspendSubscriptions [wp]: "keeps I (suspendSubscriptions E)"
  unfolding suspendSubscriptions_def for_channels_def by (intro wp)

lemma unauthenticate [wp]: "keeps I (changeToUnauthenticatedStateAndClearTokens E)"
  unfolding changeToUnauthenticatedStateAndClearTokens_def
  by (intro wp keeps_frame) (simp add: core_def)

lemma user_callback [wp]: "keeps I (user_callback E u err d)"
  unfolding user_callback_def by (intro wp)

lemma auth_failed [wp]: "keeps I (auth_failed E err d u)"
  unfolding auth_failed_def by (intro wp)

lemma transport_on_error [wp]: "keeps I (transport_on_error t err)"
  unfolding transport_on_error_def by (intro wp)

lemma shut [wp]: "keeps I (shut t code)"
  unfolding shut_def by (intro wp)

lemma clear_timers [wp]: "keeps I (clear_timers t)"
  unfolding clear_timers_def by (intro wp keeps_frame) simp

lemma fail_callback [wp]: "keeps I (fail_callback E k err d)"
  unfolding fail_callback_def by (cases k; simp only: callback.case) (intro wp)+

lemma buffer_keeps [wp]: "keeps I (modify (\<lambda>w. w\<lparr>c_buffer := f w\<rparr>))"
  by (rule keeps_frame) (simp add: core_def)

lemma abort_buffer [wp]: "keeps I (abort_buffer E ft fuel cur)"
proof (induction fuel arbitrary: cur)
  case 0
  then show ?case by (cases cur) (simp_all only: abort_buffer.simps, (intro wp)+)
next
  case (Suc fuel)
  then show ?case by (cases cur) (simp_all only: abort_buffer.simps, (intro wp | assumption)+)
qed

lemma abort_all_buffered [wp]: "keeps I (abort_all_buffered E ft)"
  unfolding abort_all_buffered_def by (intro wp)

lemma tryReconnect [wp]: "keeps I (tryReconnect E b)"
  unfolding tryReconnect_def by (intro wp keeps_frame) (simp add: core_def Let_def)

lemma sc_close_rest: "keeps I (sc_close_rest E code d oa)"
  unfolding sc_close_rest_def by (intro wp keeps_frame) (simp add: core_def)

lemma abort_transport [wp]: "keeps I (abort_transport E t ft)"
  unfolding abort_transport_def abort_call_def by (intro wp)

lemma on_sc_close: "hoare (\<lambda>w. I (drop_current (w\<lparr>c_id := JNull\<rparr>))) (on_sc_close E code d oa) I"
  using hoareD [OF sc_close_rest] by (simp add: hoare_def on_sc_close_eq)

definition closing :: "nat \<Rightarrow> 'a world \<Rightarrow> bool" where
  "closing t w \<longleftrightarrow> (\<exists>v. I v \<and> t_state (trs v t) \<noteq> CLOSED \<and> w = set_t_state t CLOSED v)"

lemma close_tail:
  "hoare (closing t) (look (\<lambda>w. t_attached (trs w t)) (\<lambda>a. if a then steps
      [modify (\<lambda>w. w\<lparr>c_state := CLOSED\<rparr>), on_sc_close E code d oa] else skip)) I"
proof (rule hoare_look)
  fix a
  show "hoare (\<lambda>w. closing t w \<and> t_attached (trs w t) = a)
      (if a then steps [modify (\<lambda>w. w\<lparr>c_state := CLOSED\<rparr>), on_sc_close E code d oa] else skip) I"
  proof (cases a)
    case True
    have "hoare (\<lambda>w. closing t w \<and> t_attached (trs w t))
        (bnd (modify (\<lambda>w. w\<lparr>c_state := CLOSED\<rparr>)) (\<lambda>_. bnd (on_sc_close E code d oa) ret)) I"
    proof (rule hoare_modify_bnd)
      show "hoare (\<lambda>w. I (drop_current (w\<lparr>c_id := JNull\<rparr>))) (bnd (on_sc_close E code d oa) ret) I"
        by (rule hoare_bnd [OF on_sc_close]) (auto intro: keeps_ret)
      fix w assume w: "closing t w \<and> t_attached (trs w t)"
      then obtain v where v: "I v" "t_state (trs v t) \<noteq> CLOSED" "w = set_t_state t CLOSED v" "t_attached (trs v t)"
        by (auto simp: closing_def set_t_state_def)
      from close_attached [OF v(1,4,2)]
      show "I (drop_current (w\<lparr>c_state := CLOSED, c_id := JNull\<rparr>))"
        by (rule frame [rotated]) (simp add: v(3) core_def drop_current_def split: option.split)
    qed
    then show ?thesis using True by simp
  next
    case False
    then show ?thesis
      using close_unattached by (auto simp: hoare_def closing_def set_t_state_def skip_def ret_def)
  qed
qed

lemma closing_step:
  assumes "s \<noteq> CLOSED"
  shows "hoare (\<lambda>w. I w \<and> t_state (trs w t) = s) (steps
          [modify (upd_tr t (\<lambda>x. x\<lparr>t_state := CLOSED\<rparr>)),
           look (\<lambda>w. t_attached (trs w t)) (\<lambda>a. if a then steps
              [modify (\<lambda>w. w\<lparr>c_state := CLOSED\<rparr>), on_sc_close E code d oa] else skip),
           abort_transport E t ft]) I"
  unfolding steps.simps
proof (rule hoare_modify_bnd)
  show "hoare (closing t) (bnd (look (\<lambda>w. t_attached (trs w t)) (\<lambda>a. if a then bnd (modify (\<lambda>w. w\<lparr>c_state := CLOSED\<rparr>))
         (\<lambda>_. bnd (on_sc_close E code d oa) (\<lambda>_. ret ())) else skip)) (\<lambda>_. bnd (abort_transport E t ft) (\<lambda>_. ret ()))) I"
    using close_tail [of t code d oa] unfolding steps.simps by (rule hoare_bnd) (intro wp)
qed (use assms in \<open>auto simp: closing_def set_t_state_def\<close>)

lemma on_close [wp]: "keeps I (on_close E t code d)"
  unfolding on_close_def
proof (intro keeps_steps_Cons clear_timers hoare_look keeps_steps_Nil)
  fix s
  show "hoare (\<lambda>w. I w \<and> t_state (trs w t) = s) (case s of
         OPEN \<Rightarrow> steps
          [modify (upd_tr t (\<lambda>x. x\<lparr>t_state := CLOSED\<rparr>)),
           look (\<lambda>w. t_attached (trs w t)) (\<lambda>a. if a then steps
              [modify (\<lambda>w. w\<lparr>c_state := CLOSED\<rparr>), on_sc_close E code d False] else skip),
           abort_transport E t ''disconnect'']
       | CONNECTING \<Rightarrow> steps
          [modify (upd_tr t (\<lambda>x. x\<lparr>t_state := CLOSED\<rparr>)),
           look (\<lambda>w. t_attached (trs w t)) (\<lambda>a. if a then steps
              [modify (\<lambda>w. w\<lparr>c_state := CLOSED\<rparr>), on_sc_close E code d True] else skip),
           abort_transport E t ''connectAbort'']
       | CLOSED \<Rightarrow> skip) I"
    using closing_step [of s t code d] by (cases s) (auto simp: hoare_def skip_def ret_def)
qed

text \<open>Sending and everything that sends.\<close>

lemma send [wp]: "keeps I (send E t s)"
  unfolding send_def by (intro wp)

lemma send_serialized [wp]: "keeps I (send_serialized E t s)"
  unfolding send_serialized_def serializeObject_def by (intro wp)

lemma sendObject [wp]: "keeps I (sendObject E t s b)"
  unfolding sendObject_def sendObjectSingle_def sendObjectBatch_def by (intro wp keeps_frame) simp

lemma batch_timer_fires [wp]: "keeps I (batch_timer_fires E t)"
  unfolding batch_timer_fires_def by (intro wp keeps_frame; simp)

lemma emitObject [wp]: "keeps I (emitObject E t e b)"
  unfolding emitObject_def by (intro wp keeps_frame) (simp_all add: core_def fun_eq_iff)

lemma new_event [wp]: "keeps I (new_event ob)"
  unfolding new_event_def by (intro wp keeps_frame) (simp_all add: core_def)

lemma transport_emit [wp]: "keeps I (transport_emit E t ev d cb nt fo ba)"
  unfolding transport_emit_def by (intro wp)

lemma keeps_state [wp]:
  "keeps I a \<Longrightarrow> keeps I b \<Longrightarrow> keeps I c \<Longrightarrow> keeps I (case s of CLOSED \<Rightarrow> a | CONNECTING \<Rightarrow> b | OPEN \<Rightarrow> c)"
  by (cases s) simp_all

lemma transport_close [wp]: "keeps I (transport_close E t code d)"
  unfolding transport_close_def by (intro wp)

lemma resetPingTimeout [wp]: "keeps I (resetPingTimeout E t)"
  unfolding resetPingTimeout_def by (intro wp keeps_frame) simp

lemma respond [wp]: "keeps I (respond E r d)"
  unfolding respond_def by (intro wp keeps_frame) (simp add: core_def)

lemma response_callback [wp]:
  "keeps I (response_end E r d)" "keeps I (response_error E r err d)" "keeps I (response_callback E r err d)"
  unfolding response_end_def response_error_def response_callback_def by (intro wp)+

lemma connect [wp]: "keeps I (connect E)"
  by (rule connect_keeps) (rule lis_keeps)

lemma no_reconnect [wp]: "keeps I (modify no_reconnect)"
  by (rule keeps_frame) (simp add: core_def no_reconnect_def)

lemma keeps_js [wp]:
  "keeps I a \<Longrightarrow> keeps I b \<Longrightarrow> (\<And>x. keeps I (c x)) \<Longrightarrow> (\<And>x. keeps I (d x)) \<Longrightarrow> (\<And>x. keeps I (e x)) \<Longrightarrow>
   (\<And>x. keeps I (f x)) \<Longrightarrow> (\<And>x. keeps I (g x)) \<Longrightarrow>
   keeps I (case v of JUndef \<Rightarrow> a | JNull \<Rightarrow> b | JBool x \<Rightarrow> c x | JNum x \<Rightarrow> d x | JStr x \<Rightarrow> e x | JArr x \<Rightarrow> f x | JObj x \<Rightarrow> g x)"
  by (cases v) simp_all

lemma disconnect [wp]: "keeps I (disconnect E c d)"
  unfolding disconnect_def by (intro wp)

lemma reconnect_destroy [wp]: "keeps I (reconnect E c d)" "keeps I (destroy E c d)"
  unfolding reconnect_def destroy_def by (intro wp keeps_frame; simp add: core_def)+

lemma flush_loop [wp]: "keeps I (flush_loop E fuel cur)"
proof (induction fuel arbitrary: cur)
  case 0
  then show ?case by (cases cur) (simp_all only: flush_loop.simps, (intro wp)+)
next
  case (Suc fuel)
  then show ?case by (cases cur) (simp_all only: flush_loop.simps, (intro wp | assumption)+)
qed

lemma flushEmitBuffer [wp]: "keeps I (flushEmitBuffer E)"
  unfolding flushEmitBuffer_def by (intro wp)

lemma emit_event [wp]: "keeps I (emit_event E ev d cb)"
  unfolding emit_event_def by (intro wp)

lemma client_emit [wp]: "keeps I (client_emit E ev d cb)"
  unfolding client_emit_def by (intro wp)

lemma publish [wp]: "keeps I (publish E ch d u)"
  unfolding publish_def by (intro wp)

lemma undecorateChannelName [wp]: "keeps I (undecorateChannelName E v)"
  unfolding undecorateChannelName_def by (auto intro!: wp split: js.split list.split)

lemma trySubscribe [wp]: "keeps I (trySubscribe E i)"
  unfolding trySubscribe_def by (intro wp)

lemma add_channel [wp]: "keeps I (add_channel n opts)"
  unfolding add_channel_def by (intro wp keeps_frame) (simp add: core_def)

lemma subscribe [wp]: "keeps I (subscribe E n opts)"
  unfolding subscribe_def by (intro wp)

lemma channel_object [wp]: "keeps I (channel_object n opts)"
  unfolding channel_object_def by (intro wp)

lemma tryUnsubscribe [wp]: "keeps I (tryUnsubscribe E i)"
  unfolding tryUnsubscribe_def by (intro wp)

lemma unsubscribe [wp]: "keeps I (unsubscribe E n)"
  unfolding unsubscribe_def by (intro wp)

lemma processPendingSubscriptions [wp]: "keeps I (processPendingSubscriptions E)"
  unfolding processPendingSubscriptions_def by (intro wp keeps_frame) (simp add: core_def)

lemma changeToAuthenticatedState [wp]: "keeps I (changeToAuthenticatedState E tok)"
  unfolding changeToAuthenticatedState_def by (intro wp keeps_frame; simp add: core_def)

lemma authenticate [wp]: "keeps I (authenticate E tok u)"
  unfolding authenticate_def by (intro wp)

lemma authenticated [wp]: "keeps I (authenticated E tok st u)"
  unfolding authenticated_def by (intro wp keeps_frame) (simp add: core_def)

lemma deauthenticate [wp]: "keeps I (deauthenticate E u)"
  unfolding deauthenticate_def by (intro wp keeps_frame) (simp add: core_def)

lemma on_sc_open [wp]: "keeps I (on_sc_open E st)"
  unfolding on_sc_open_def by (intro wp keeps_frame; simp add: core_def fun_eq_iff)

lemma open_step:
  "keeps I (steps
        [modify (upd_tr t (\<lambda>x. x\<lparr>t_state := OPEN\<rparr>)),
         look (\<lambda>w. t_attached (trs w t)) (\<lambda>a. if a then steps
           [modify (\<lambda>w. w\<lparr>c_state := OPEN\<rparr>), on_sc_open E st] else skip),
         resetPingTimeout E t])"
  unfolding steps.simps
proof (rule hoare_modify_bnd [where R = "\<lambda>w. \<exists>v. I v \<and> w = set_t_state t OPEN v"])
  have "hoare (\<lambda>w. \<exists>v. I v \<and> w = set_t_state t OPEN v) (look (\<lambda>w. t_attached (trs w t)) (\<lambda>a. if a
      then bnd (modify (\<lambda>w. w\<lparr>c_state := OPEN\<rparr>)) (\<lambda>_. bnd (on_sc_open E st) (\<lambda>_. ret ())) else skip)) I"
  proof (rule hoare_look)
    fix a
    show "hoare (\<lambda>w. (\<exists>v. I v \<and> w = set_t_state t OPEN v) \<and> t_attached (trs w t) = a) (if a
      then bnd (modify (\<lambda>w. w\<lparr>c_state := OPEN\<rparr>)) (\<lambda>_. bnd (on_sc_open E st) (\<lambda>_. ret ())) else skip) I"
    proof (cases a)
      case True
      have "hoare (\<lambda>w. (\<exists>v. I v \<and> w = set_t_state t OPEN v) \<and> t_attached (trs w t))
        (bnd (modify (\<lambda>w. w\<lparr>c_state := OPEN\<rparr>)) (\<lambda>_. bnd (on_sc_open E st) (\<lambda>_. ret ()))) I"
      proof (rule hoare_modify_bnd)
        show "keeps I (bnd (on_sc_open E st) (\<lambda>_. ret ()))" by (intro wp)
      qed (auto simp: set_t_state_def dest: open_attached)
      then show ?thesis using True by simp
    next
      case False
      then show ?thesis
        using open_unattached by (auto simp: hoare_def set_t_state_def skip_def ret_def)
    qed
  qed
  then show "hoare (\<lambda>w. \<exists>v. I v \<and> w = set_t_state t OPEN v) (bnd (look (\<lambda>w. t_attached (trs w t)) (\<lambda>a. if a
      then bnd (modify (\<lambda>w. w\<lparr>c_state := OPEN\<rparr>)) (\<lambda>_. bnd (on_sc_open E st) (\<lambda>_. ret ())) else skip))
      (\<lambda>_. bnd (resetPingTimeout E t) (\<lambda>_. ret ()))) I"
    by (rule hoare_bnd) (intro wp)
qed (auto simp: set_t_state_def)

lemma handshake_done [wp]: "keeps I (handshake_done E t err st)"
  unfolding handshake_done_def by (intro wp open_step)

lemma on_open [wp]: "keeps I (on_open E t)"
  unfolding on_open_def handshake_def by (intro wp keeps_frame) simp

lemma run_callback [wp]: "keeps I (run_callback E k err d)"
  unfolding run_callback_def by (cases k; simp only: callback.case) (intro wp)+

lemma on_sc_event [wp]: "keeps I (on_sc_event E ev d r)"
  unfolding on_sc_event_def on_publish_def on_kickOut_def on_setAuthToken_def on_removeAuthToken_def
    on_disconnect_event_def
  by (intro wp keeps_frame; simp add: core_def)

lemma handleEventObject [wp]: "keeps I (handleEventObject E t x m)"
  unfolding handleEventObject_def by (intro wp keeps_frame) (simp add: core_def)

lemma on_message [wp]: "keeps I (on_message E t m)"
  unfolding on_message_def by (intro wp)

lemma ack_timeout [wp]: "keeps I (ack_timeout E e)"
proof -
  have "keeps I (case k of NodeTimer \<Rightarrow> node_timeout E e | WireTimer t \<Rightarrow> wire_timeout E t e)" for k
    unfolding node_timeout_def wire_timeout_def by (cases k; simp only: timer.case) (intro wp)+
  then show ?thesis unfolding ack_timeout_def
    by (intro keeps_look) (simp add: wp split: option.split timer.split)
qed

lemma reconnect_timer_fires [wp]: "keeps I (reconnect_timer_fires E)"
  unfolding reconnect_timer_fires_def by (intro wp keeps_frame) (simp add: core_def)

lemma other_timers [wp]: "keeps I (ping_timer_fires E t)" "keeps I (connect_timer_fires E t)"
  unfolding ping_timer_fires_def connect_timer_fires_def by (intro wp keeps_frame; simp)+

lemma sockets [wp]: "keeps I (ws_onclose E t c d)" "keeps I (ws_onerror E t)" "keeps I (client_send E s)"
  unfolding ws_onclose_def ws_onerror_def client_send_def by (intro wp)+

lemma run_api_keeps: "\<not> rewatches a \<Longrightarrow> keeps I (run_api E a)"
  by (cases a) (simp_all only: run_api.simps rewatches.simps simp_thms, (intro wp keeps_frame; simp add: core_def)+)

lemma run_keeps: "(\<And>a. i = Api a \<Longrightarrow> \<not> rewatches a) \<Longrightarrow> keeps I (run E i)"
proof (cases i)
  case (Api a)
  assume "\<And>a. i = Api a \<Longrightarrow> \<not> rewatches a"
  then show ?thesis using Api run_api_keeps by simp
qed (simp_all only: run.simps, (intro wp keeps_frame; simp)+)

end

text \<open>An invariant that does not depend on the watchers holds through every operation.\<close>

locale watch_invariant = core_invariant +
  assumes watch_keeps: "I w \<Longrightarrow> I (w\<lparr>c_watch := x\<rparr>)"
begin

lemma watch [wp]: "keeps I (watch n f)" "keeps I (unwatch n g)"
  unfolding watch_def unwatch_def by (intro wp keeps_modify watch_keeps; assumption)+

lemma destroyChannel [wp]: "keeps I (destroyChannel E n)"
  unfolding destroyChannel_def by (intro wp keeps_frame) (simp add: core_def)

lemma any_api_keeps: "keeps I (run_api E a)"
proof (cases "rewatches a")
  case True
  then show ?thesis by (cases a) (simp_all only: run_api.simps rewatches.simps, (intro wp)+)
qed (rule run_api_keeps)

lemma any_run_keeps: "keeps I (run E i)"
proof (cases i)
  case (Api a)
  then show ?thesis using any_api_keeps by simp
qed (rule run_keeps, simp)+

end

subsection \<open>The two invariants\<close>

text \<open>
  \<open>synced\<close>: a transport whose events reach the client is the client's current transport,
  is not closed, and has the state the client shows; and an open client has one.
  \<open>midway\<close>: the client is connecting and no transport is attached yet, the state in which
  the listeners of \<open>connecting\<close> run.
\<close>

definition synced :: "'a world \<Rightarrow> bool" where
  "synced w \<longleftrightarrow> (\<forall>t. t_attached (trs w t) \<longrightarrow> c_transport w = Some t
        \<and> t_state (trs w t) \<noteq> CLOSED \<and> t_state (trs w t) = c_state w)
     \<and> (c_state w = OPEN \<longrightarrow> (\<exists>t. c_transport w = Some t \<and> t_attached (trs w t)))"

definition midway :: "'a world \<Rightarrow> bool" where
  "midway w \<longleftrightarrow> c_state w = CONNECTING \<and> (\<forall>t. \<not> t_attached (trs w t))"

lemma core_eqD:
  assumes "core w' = core w"
  shows "c_state w' = c_state w" "c_transport w' = c_transport w"
    "t_state (trs w' t) = t_state (trs w t)" "t_attached (trs w' t) = t_attached (trs w t)"
  using assms by (auto simp: core_def fun_eq_iff)

lemma connect_midway: "(\<And>c. keeps midway (lis E c)) \<Longrightarrow> keeps midway (connect E)"
  by (auto simp: connect_def hoare_def look_def midway_def on_sc_error_def modify_def skip_def ret_def)

lemma connect_synced:
  assumes m: "\<And>c. keeps midway (lis E c)" and s: "\<And>c. keeps synced (lis E c)"
  shows "keeps synced (connect E)"
  unfolding hoare_def
proof (intro allI impI)
  fix w :: "'a world" assume w: "synced w"
  show "synced (snd (connect E w))"
  proof (cases "c_active w \<and> c_state w = CLOSED")
    case False
    then show ?thesis
      using w by (auto simp: connect_def look_def on_sc_error_def modify_def skip_def ret_def synced_def)
  next
    case True
    define v where "v = log_out (Called (Emit ''connecting'' [])) ((no_reconnect w)\<lparr>c_state := CONNECTING\<rparr>)"
    have v: "synced v" "midway v"
      using w True by (auto simp: v_def synced_def midway_def no_reconnect_def)
    obtain r u where u: "lis E (Emit ''connecting'' []) v = (r, u)" by (cases "lis E (Emit ''connecting'' []) v")
    have keep: "synced u" "midway u"
      using hoareD [OF s v(1), of "Emit ''connecting'' []"] hoareD [OF m v(2), of "Emit ''connecting'' []"] u
      by simp_all
    have step: "connect E w = (case r of Done _ \<Rightarrow> (Done (), log_out (Opened (n_trs u))
          ((drop_current u)\<lparr>c_transport := Some (n_trs u),
             trs := (trs (drop_current u))(n_trs u := new_transport E), n_trs := Suc (n_trs u)\<rparr>))
        | Raise e \<Rightarrow> (Raise e, u) | Stuck \<Rightarrow> (Stuck, u))"
      using True u v_def
      by (simp add: connect_def look_def emit_local_def call_out_def bnd_assoc bnd_def modify_def
          drop_current_def upd_tr_def log_out_def skip_def ret_def split: res.split option.split)
    show ?thesis
      using keep unfolding step
      by (auto simp: synced_def midway_def drop_current_def new_transport_def split: res.split option.split)
  qed
qed

text \<open>Both invariants hold of listeners that do what programs can do.\<close>

lemma synced_core:
  "synced w = (case core w of (s, c, f, e) \<Rightarrow> (\<forall>t. snd (f t) \<longrightarrow> c = Some t \<and> fst (f t) \<noteq> CLOSED \<and> fst (f t) = s)
     \<and> (s = OPEN \<longrightarrow> (\<exists>t. c = Some t \<and> snd (f t))))"
  "midway w = (case core w of (s, c, f, e) \<Rightarrow> s = CONNECTING \<and> (\<forall>t. \<not> snd (f t)))"
  by (simp_all add: synced_def midway_def core_def)

lemma drop_current_sel [simp]:
  "c_state (drop_current w) = c_state w" "c_transport (drop_current w) = c_transport w"
  "t_attached (trs (drop_current w) t) \<longleftrightarrow> t_attached (trs w t) \<and> c_transport w \<noteq> Some t"
  "t_state (trs (drop_current w) t) = t_state (trs w t)"
  by (auto simp: drop_current_def split: option.split)

lemma set_t_state_sel [simp]:
  "c_state (set_t_state t s w) = c_state w" "c_transport (set_t_state t s w) = c_transport w"
  "t_attached (trs (set_t_state t s w) u) = t_attached (trs w u)"
  "t_state (trs (set_t_state t s w) u) = (if u = t then s else t_state (trs w u))"
  by (auto simp: set_t_state_def)

lemma core_midway:
  assumes "\<And>c. keeps midway (lis E c)"
  shows "watch_invariant E midway"
proof
  show "core w' = core w \<Longrightarrow> midway w \<Longrightarrow> midway w'" for w w' :: "'a world" by (simp only: synced_core)
  show "keeps midway (connect E)" by (rule connect_midway [OF assms])
qed (use assms in \<open>simp_all add: midway_def\<close>)

lemma synced_current: "synced w \<Longrightarrow> t_attached (trs w u) \<Longrightarrow> c_transport w = Some u"
  unfolding synced_def by metis

lemma synced_live: "synced w \<Longrightarrow> t_attached (trs w u) \<Longrightarrow> t_state (trs w u) \<noteq> CLOSED \<and> t_state (trs w u) = c_state w"
  unfolding synced_def by metis

lemma synced_close: "synced w \<Longrightarrow> synced (drop_current ((set_t_state t CLOSED w)\<lparr>c_state := CLOSED\<rparr>))"
proof -
  assume w: "synced w"
  have "\<not> t_attached (trs (drop_current ((set_t_state t CLOSED w)\<lparr>c_state := CLOSED\<rparr>)) u)" for u
    using synced_current [OF w, of u] by simp
  then show ?thesis by (simp add: synced_def)
qed

lemma synced_other: "synced w \<Longrightarrow> \<not> t_attached (trs w t) \<Longrightarrow> synced (set_t_state t s' w)"
  unfolding synced_def [of "set_t_state t s' w"]
proof (intro conjI allI impI)
  assume w: "synced w" and n: "\<not> t_attached (trs w t)"
  {
    fix u assume "t_attached (trs (set_t_state t s' w) u)"
    then have u: "t_attached (trs w u)" "u \<noteq> t" using n by auto
    show "c_transport (set_t_state t s' w) = Some u" using synced_current [OF w u(1)] by simp
    show "t_state (trs (set_t_state t s' w) u) \<noteq> CLOSED"
      and "t_state (trs (set_t_state t s' w) u) = c_state (set_t_state t s' w)"
      using u(2) synced_live [OF w u(1)] by auto
  }
  show "c_state (set_t_state t s' w) = OPEN \<Longrightarrow>
      \<exists>u. c_transport (set_t_state t s' w) = Some u \<and> t_attached (trs (set_t_state t s' w) u)"
    using w by (simp add: synced_def)
qed

lemma synced_open: "synced w \<Longrightarrow> t_attached (trs w t) \<Longrightarrow> synced ((set_t_state t OPEN w)\<lparr>c_state := OPEN\<rparr>)"
proof -
  assume w: "synced w" and a: "t_attached (trs w t)"
  have eq: "t_attached (trs w u) \<longleftrightarrow> u = t" for u
    using synced_current [OF w, of u] synced_current [OF w a] a by auto
  show ?thesis using synced_current [OF w a] by (simp add: synced_def eq)
qed

lemma synced_frame: "core w' = core w \<Longrightarrow> synced w \<Longrightarrow> synced w'"
proof -
  assume "core w' = core w"
  then have "synced w' = synced w" by (simp only: synced_core(1))
  then show "synced w \<Longrightarrow> synced w'" by (simp only:)
qed

lemma synced_watch: "synced (w\<lparr>c_watch := x\<rparr>) = synced w"
  by (simp add: synced_def)

lemma core_synced:
  assumes m: "\<And>c. keeps midway (lis E c)" and s: "\<And>c. keeps synced (lis E c)"
  shows "watch_invariant E synced"
  by (intro watch_invariant.intro core_invariant.intro watch_invariant_axioms.intro)
    (erule (1) synced_frame, rule s, erule synced_close, erule (1) synced_other, erule (1) synced_open,
     erule (1) synced_other, rule connect_synced [OF m s], simp only: synced_watch)

interpretation silent_synced: watch_invariant "E\<lparr>lis := (\<lambda>_. skip)\<rparr>" synced for E :: "'a env"
  by (rule core_synced) (simp_all add: keeps_skip)

interpretation silent_midway: watch_invariant "E\<lparr>lis := (\<lambda>_. skip)\<rparr>" midway for E :: "'a env"
  by (rule core_midway) (simp_all add: keeps_skip)

lemma nest_keeps: "nest E n w w' \<Longrightarrow> (synced w \<longrightarrow> synced w') \<and> (midway w \<longrightarrow> midway w')"
proof (induction rule: nest.induct)
  case (nest_api n w w' a g)
  have m: "keeps midway (lis (E\<lparr>lis := g\<rparr>) c)" and s: "keeps synced (lis (E\<lparr>lis := g\<rparr>) c)" for c
    using nest_api.IH by (auto simp: hoare_def)
  show ?case
    using nest_api.IH(1) hoareD [OF watch_invariant.any_api_keeps [OF core_midway [OF m]]]
      hoareD [OF watch_invariant.any_api_keeps [OF core_synced [OF m s]]] by blast
qed (auto simp: synced_def midway_def)

lemma proper_keeps:
  assumes "proper E"
  shows "keeps midway (lis E c)" and "keeps synced (lis E c)"
proof -
  obtain n where n: "nest E n v (snd (lis E c v))" for c v using assms by (auto simp: proper_def)
  show "keeps midway (lis E c)" and "keeps synced (lis E c)"
    using nest_keeps [OF n] by (auto simp: hoare_def)
qed

lemma synced_initial: "synced (initial_world E rnd st l a)"
  by (simp add: synced_def initial_world_def no_transport_def)

lemma construct_keeps: "watch_invariant E I \<Longrightarrow> keeps I (construct E)"
  unfolding construct_def by (intro wp core_invariant.connect watch_invariant.axioms)

text \<open>
  C3: In every state a client can reach, whatever its listeners do (throwing and calling the
  library back included), at most one transport reports to the client: the current one,
  which is not closed and whose state is the state the client shows; and a client that shows
  \<open>open\<close> has an open current transport that reports to it.
\<close>

theorem client_mirrors_transport:
  assumes "proper E" and "reach E w"
  shows "(\<forall>t. t_attached (trs w t) \<longrightarrow> c_transport w = Some t
        \<and> t_state (trs w t) \<noteq> CLOSED \<and> t_state (trs w t) = c_state w)
     \<and> (c_state w = OPEN \<longrightarrow> (\<exists>t. c_transport w = Some t \<and> t_attached (trs w t) \<and> t_state (trs w t) = OPEN))"
proof -
  have C: "watch_invariant E synced" by (rule core_synced) (use proper_keeps [OF assms(1)] in auto)
  from assms(2) have "synced w"
  proof (induction rule: reach.induct)
    case (reach_start rnd st l a)
    then show ?case using hoareD [OF construct_keeps [OF C] synced_initial] by simp
  next
    case (reach_step w i)
    then show ?case using hoareD [OF watch_invariant.any_run_keeps [OF C]] by blast
  qed
  then show ?thesis unfolding synced_def by metis
qed

lemma demo_attached: "t_attached (trs demo_start 0)"
  by (simp add: demo_start_def construct_def too_long_def connect_def emit_local_def call_out_def
      demo_env_def default_env_def initial_world_def no_reconnect_def log_out_def bnd_def act_eval
      new_transport_def)

theorem client_mirrors_transport_witness:
  "c_transport demo_start = Some 0 \<and> t_state (trs demo_start 0) = c_state demo_start"
  using client_mirrors_transport [OF quiet_proper [OF quiet_demo] reach_demo] demo_attached by blast

end
