(* ===== verification/Sc_Close.thy ===== *)
theory Sc_Close
  imports Sc_Inv
begin

text \<open>
  What a lost connection does to a client whose listeners only look: every call that waits
  for its answer fails exactly once, channels go back to pending, the buffer and the pending
  responses are emptied, and a reconnection is scheduled as the close code says.
\<close>

subsection \<open>Calls that only emit\<close>

text \<open>The user callbacks that were called, with their arguments, in order.\<close>

definition user_call :: "action \<Rightarrow> (nat \<times> js \<times> js) option" where
  "user_call a = (case a of Called (UserCall n e d) \<Rightarrow> Some (n, e, d) | _ \<Rightarrow> None)"

definition user_calls :: "action list \<Rightarrow> (nat \<times> js \<times> js) list" where
  "user_calls xs = List.map_filter user_call xs"

lemma user_calls_simps [simp]:
  "user_calls [] = []" "user_calls (x # xs) = (case user_call x of None \<Rightarrow> [] | Some c \<Rightarrow> [c]) @ user_calls xs"
  "user_calls (xs @ ys) = user_calls xs @ user_calls ys"
  by (simp_all add: user_calls_def List.map_filter_def split: option.split)

text \<open>The texts that were sent.\<close>

definition sent_text :: "action \<Rightarrow> (nat \<times> string) option" where
  "sent_text a = (case a of Sent t s \<Rightarrow> Some (t, s) | _ \<Rightarrow> None)"

definition sents :: "action list \<Rightarrow> (nat \<times> string) list" where
  "sents xs = List.map_filter sent_text xs"

lemma sents_simps [simp]:
  "sents [] = []" "sents (x # xs) = (case sent_text x of None \<Rightarrow> [] | Some c \<Rightarrow> [c]) @ sents xs"
  "sents (xs @ ys) = sents xs @ sents ys" "sent_text (Called c) = None" "sent_text (Shut t k) = None"
  "sent_text (Sent t s) = Some (t, s)" "sent_text (Opened t) = None"
  by (simp_all add: sents_def sent_text_def List.map_filter_def split: option.split)

text \<open>
  The second state has more log entries, with the given user calls and no text sent, and
  other program data.
\<close>

definition logs :: "(nat \<times> js \<times> js) list \<Rightarrow> 'a world \<Rightarrow> 'a world \<Rightarrow> bool" where
  "logs us w w' \<longleftrightarrow> (\<exists>a xs. w' = w\<lparr>out := out w @ xs, app := a\<rparr> \<and> user_calls xs = us \<and> sents xs = [])"

lemma logs_refl [intro, simp]: "logs [] w w"
  unfolding logs_def by (rule exI [of _ "app w"], rule exI [of _ "[]"]) simp

lemma logs_trans: "logs us w w' \<Longrightarrow> logs vs w' w'' \<Longrightarrow> logs (us @ vs) w w''"
  unfolding logs_def by fastforce

lemma logs_commute:
  assumes "\<And>w xs a. f (w\<lparr>out := xs, app := a\<rparr>) = (f w)\<lparr>out := xs, app := a\<rparr>" and "\<And>w. out (f w) = out w"
    and "logs us w w'"
  shows "logs us (f w) (f w')"
proof -
  obtain a xs where "w' = w\<lparr>out := out w @ xs, app := a\<rparr>" "user_calls xs = us" "sents xs = []"
    using assms(3) by (auto simp: logs_def)
  then have "f w' = (f w)\<lparr>out := out (f w) @ xs, app := a\<rparr> \<and> user_calls xs = us \<and> sents xs = []"
    by (simp add: assms(1,2))
  then show ?thesis unfolding logs_def by blast
qed

lemma logs_trans0: "logs [] w w' \<Longrightarrow> logs vs w' w'' \<Longrightarrow> logs vs w w''"
  using logs_trans by fastforce

lemma logsD:
  assumes "logs us w w'"
  shows "c_state w' = c_state w" "c_transport w' = c_transport w" "c_buffer w' = c_buffer w"
    "c_channels w' = c_channels w" "evs w' = evs w" "trs w' = trs w" "chans w' = chans w"
    "c_authState w' = c_authState w" "user_calls (out w') = user_calls (out w) @ us"
    "c_attempts w' = c_attempts w" "c_pendingReconnect w' = c_pendingReconnect w" "c_timer w' = c_timer w"
    "math_random w' = math_random w" "c_id w' = c_id w" "c_pendingTimeout w' = c_pendingTimeout w"
    "deferred w' = deferred w" "c_active w' = c_active w" "c_preparing w' = c_preparing w" "c_cid w' = c_cid w"
    "n_evs w' = n_evs w" "n_trs w' = n_trs w" "n_chans w' = n_chans w" "c_watch w' = c_watch w"
    "sents (out w') = sents (out w)"
  using assms by (auto simp: logs_def)

lemma call_out_logs:
  assumes "quiet E"
  shows "\<exists>w'. call_out E c w = (Done (), w') \<and> logs (case user_call (Called c) of None \<Rightarrow> [] | Some u \<Rightarrow> [u]) w w'"
proof -
  obtain a where a: "lis E c (log_out (Called c) w) = (Done (), (log_out (Called c) w)\<lparr>app := a\<rparr>)"
    using assms by (auto simp: quiet_def)
  have "logs (case user_call (Called c) of None \<Rightarrow> [] | Some u \<Rightarrow> [u]) w ((log_out (Called c) w)\<lparr>app := a\<rparr>)"
    unfolding logs_def log_out_def by (rule exI [of _ a], rule exI [of _ "[Called c]"]) simp
  then show ?thesis using a by (simp add: call_out_def bnd_def modify_def ret_def)
qed

text \<open>\<open>does m w us v\<close>: \<open>m\<close> returns from \<open>w\<close> in the state \<open>v\<close>, apart from what \<open>logs us\<close> allows.\<close>

definition does :: "('a world, unit) act \<Rightarrow> 'a world \<Rightarrow> (nat \<times> js \<times> js) list \<Rightarrow> 'a world \<Rightarrow> bool" where
  "does m w us v \<longleftrightarrow> (\<exists>w'. m w = (Done (), w') \<and> logs us v w')"

lemma doesI: "m w = (Done (), w') \<Longrightarrow> logs us v w' \<Longrightarrow> does m w us v"
  by (auto simp: does_def)

lemma does_ret [simp]: "does (ret ()) w [] w" "does skip w [] w" "does (modify f) w [] (f w)"
  by (auto simp: does_def act_eval)

lemma does_call: "quiet E \<Longrightarrow> user_call (Called c) = None \<Longrightarrow> does (call_out E c) w [] w"
  using call_out_logs [of E c w] by (auto simp: does_def)

lemma does_user: "quiet E \<Longrightarrow> does (call_out E (UserCall n e d)) w [(n, e, d)] w"
  using call_out_logs [of E "UserCall n e d" w] by (auto simp: does_def user_call_def)

lemma does_emit: "quiet E \<Longrightarrow> does (emit_local E ev args) w [] w"
  unfolding emit_local_def by (rule does_call) (simp_all add: user_call_def)

lemma does_bnd:
  assumes "does m w us v" and "\<And>w'. logs us v w' \<Longrightarrow> does (k ()) w' vs (g w')"
    and "\<And>w'. logs us v w' \<Longrightarrow> logs us v' (g w')"
  shows "does (bnd m k) w (us @ vs) v'"
proof -
  obtain w1 where w1: "m w = (Done (), w1)" "logs us v w1" using assms(1) by (auto simp: does_def)
  obtain w2 where w2: "k () w1 = (Done (), w2)" "logs vs (g w1) w2"
    using assms(2) [OF w1(2)] by (auto simp: does_def)
  have "logs (us @ vs) v' w2" using logs_trans [OF assms(3) [OF w1(2)] w2(2)] .
  then show ?thesis using w1(1) w2(1) by (auto simp: does_def bnd_def)
qed

text \<open>A step that only logs, then the rest.\<close>

lemma does_then: "does m w [] w \<Longrightarrow> (\<And>w'. logs [] w w' \<Longrightarrow> does (k ()) w' us w') \<Longrightarrow> does (bnd m k) w us w"
  by (rule does_bnd [where us = "[]" and g = "\<lambda>w. w", simplified])

lemma does_steps_Nil: "does (steps []) w [] w"
  by simp

lemma does_steps_log: "does m w [] w \<Longrightarrow> (\<And>w'. logs [] w w' \<Longrightarrow> does (steps ms) w' us w') \<Longrightarrow> does (steps (m # ms)) w us w"
  by (simp add: does_then)

text \<open>A sequence of calls that only log.\<close>

lemma does_calls: "(\<And>m w. m \<in> set ms \<Longrightarrow> does m w [] w) \<Longrightarrow> does (steps ms) w [] w"
  by (induction ms arbitrary: w) (auto intro: does_then)

lemma does_exact: "does (k ()) v us v' \<Longrightarrow> m w = (Done (), v) \<Longrightarrow> does (bnd m k) w us v'"
  by (simp add: does_def bnd_def)

subsection \<open>Channels\<close>

text \<open>A channel leaves its state; the response it waited for is no longer expected.\<close>

definition detach_chan :: "nat \<Rightarrow> nat \<Rightarrow> chan_state \<Rightarrow> 'a world \<Rightarrow> 'a world" where
  "detach_chan t i new w = upd_chan i (\<lambda>c. c\<lparr>ch_state := new, ch_cid := None\<rparr>)
     (case ch_cid (chans w i) of None \<Rightarrow> w | Some cid \<Rightarrow> upd_tr t (\<lambda>x. x\<lparr>t_cbs := al_del cid (t_cbs x)\<rparr>) w)"

lemma cancel_subscribe_eq:
  "c_transport w = Some t \<Longrightarrow>
   cancelPendingSubscribeCallback i (upd_chan i (\<lambda>c. c\<lparr>ch_state := new\<rparr>) w) = (Done (), detach_chan t i new w)"
  by (cases "ch_cid (chans w i)")
    (auto simp: cancelPendingSubscribeCallback_def look_def on_transport_def cancelPendingResponse_def detach_chan_def
      bnd_def modify_def ret_def skip_def upd_chan_def upd_tr_def fun_eq_iff intro!: channel.equality)

lemma trigger_unsubscribe:
  assumes q: "quiet E" and t: "c_transport w = Some t"
  shows "does (triggerChannelUnsubscribe E i new) w [] (detach_chan t i new w)"
proof -
  let ?c = "chans w i" and ?v = "detach_chan t i new w"
  let ?k = "if ch_state ?c = SUBSCRIBED then (let d = state_change ?c new []
         in steps
          [call_out E (ChanEmit i ''subscribeStateChange'' [d]),
           call_out E (ChanEmit i ''unsubscribe'' [JStr (ch_name ?c)]),
           emit_local E ''subscribeStateChange'' [d],
           emit_local E ''unsubscribe'' [JStr (ch_name ?c)]]) else skip"
  have k: "does (steps [?k]) ?v [] ?v"
    unfolding Let_def
    by (rule does_calls, auto intro!: does_calls simp del: steps.simps)
      (auto intro: does_call [OF q] does_emit [OF q] simp: user_call_def)
  have "triggerChannelUnsubscribe E i new w
      = bnd (cancelPendingSubscribeCallback i) (\<lambda>_. steps [?k]) (upd_chan i (\<lambda>c. c\<lparr>ch_state := new\<rparr>) w)"
    by (simp add: triggerChannelUnsubscribe_def look_def)
  moreover have "does (bnd (cancelPendingSubscribeCallback i) (\<lambda>_. steps [?k]))
      (upd_chan i (\<lambda>c. c\<lparr>ch_state := new\<rparr>) w) [] ?v"
    by (rule does_exact [where v = ?v]) (rule k, rule cancel_subscribe_eq, rule t)
  ultimately show ?thesis by (simp add: does_def)
qed

definition suspended :: "channel \<Rightarrow> channel" where
  "suspended c = c\<lparr>ch_state := (if ch_state c = UNSUBSCRIBED then UNSUBSCRIBED else PENDING), ch_cid := None\<rparr>"

lemma suspended_idem [simp]: "suspended (suspended c) = suspended c"
  by (simp add: suspended_def)

lemma suspended_sel [simp]: "ch_cid (suspended c) = None" "ch_name (suspended c) = ch_name c"
  "ch_state (suspended c) = (if ch_state c = UNSUBSCRIBED then UNSUBSCRIBED else PENDING)"
  by (simp_all add: suspended_def)

definition suspend_chans :: "nat \<Rightarrow> nat set \<Rightarrow> 'a world \<Rightarrow> 'a world" where
  "suspend_chans t R w = w\<lparr>chans := (\<lambda>i. if i \<in> R then suspended (chans w i) else chans w i),
     trs := (trs w)(t := (trs w t)\<lparr>t_cbs := filter (\<lambda>(c, e). \<forall>i\<in>R. ch_cid (chans w i) \<noteq> Some c) (t_cbs (trs w t))\<rparr>)\<rparr>"

lemma suspend_none [simp]: "suspend_chans t {} w = w"
proof -
  have "(trs w t)\<lparr>t_cbs := t_cbs (trs w t)\<rparr> = trs w t" by simp
  then have "(trs w)(t := (trs w t)\<lparr>t_cbs := t_cbs (trs w t)\<rparr>) = trs w" by (simp only: fun_upd_triv)
  then show ?thesis by (simp add: suspend_chans_def case_prod_unfold)
qed

lemma suspend_one:
  "suspend_chans t {i} w = detach_chan t i (if ch_state (chans w i) = SUBSCRIBED \<or> ch_state (chans w i) = PENDING
     then PENDING else UNSUBSCRIBED) w"
proof -
  have s: "(if ch_state (chans w i) = SUBSCRIBED \<or> ch_state (chans w i) = PENDING then PENDING else UNSUBSCRIBED)
      = ch_state (suspended (chans w i))" by (cases "ch_state (chans w i)") simp_all
  have c: "(\<lambda>j. if j = i then suspended (chans w j) else chans w j)
      = (chans w)(i := (chans w i)\<lparr>ch_state := ch_state (suspended (chans w i)), ch_cid := None\<rparr>)"
    by (auto simp: fun_eq_iff suspended_def)
  have flip: "(\<lambda>p. a \<noteq> fst p) = (\<lambda>p. fst p \<noteq> a)" for a :: nat by auto
  show ?thesis unfolding s
    by (cases "ch_cid (chans w i)")
      (simp_all add: suspend_chans_def detach_chan_def c upd_chan_def upd_tr_def al_del_def case_prod_unfold flip)
qed

lemma suspend_more: "suspend_chans t R (suspend_chans t S w) = suspend_chans t (S \<union> R) w"
proof -
  have c: "(\<lambda>i. if i \<in> R then suspended (if i \<in> S then suspended (chans w i) else chans w i)
        else if i \<in> S then suspended (chans w i) else chans w i)
      = (\<lambda>i. if i \<in> S \<union> R then suspended (chans w i) else chans w i)"
    by (auto simp: fun_eq_iff)
  have "(\<forall>i\<in>R. ch_cid (if i \<in> S then suspended (chans w i) else chans w i) \<noteq> Some k) \<and>
        (\<forall>i\<in>S. ch_cid (chans w i) \<noteq> Some k) \<longleftrightarrow> (\<forall>i\<in>S \<union> R. ch_cid (chans w i) \<noteq> Some k)" for k
    by auto
  then show ?thesis
    by (simp add: suspend_chans_def c case_prod_unfold conj_commute cong: if_cong)
qed

lemma suspend_sel [simp]:
  "c_channels (suspend_chans t R w) = c_channels w" "c_transport (suspend_chans t R w) = c_transport w"
  by (simp_all add: suspend_chans_def)

lemma logs_suspend: "logs us w w' \<Longrightarrow> logs us (suspend_chans t R w) (suspend_chans t R w')"
  by (rule logs_commute [where f = "suspend_chans t R"], rule world.equality)
    (simp_all add: suspend_chans_def cong: if_cong)

text \<open>The channels that a list of names stands for.\<close>

definition named :: "string list \<Rightarrow> 'a world \<Rightarrow> nat set" where
  "named ns w = {i. \<exists>n\<in>set ns. map_of (c_channels w) n = Some i}"

lemma does_for_names:
  assumes q: "quiet E" and t: "c_transport w = Some t"
  shows "does (each (\<lambda>n. look (\<lambda>w. map_of (c_channels w) n) (\<lambda>i. case i of None \<Rightarrow> skip | Some i \<Rightarrow>
      look (\<lambda>w. ch_state (chans w i)) (\<lambda>s. triggerChannelUnsubscribe E i
        (if s = SUBSCRIBED \<or> s = PENDING then PENDING else UNSUBSCRIBED)))) ns) w [] (suspend_chans t (named ns w) w)"
  using t
proof (induction ns arbitrary: w)
  case (Cons n ns)
  show ?case
  proof (cases "map_of (c_channels w) n")
    case None
    then show ?thesis using Cons by (simp add: named_def look_def bnd_def skip_def ret_def does_def)
  next
    case (Some i)
    let ?R = "named ns w"
    have all: "suspend_chans t (named (n # ns) w) w = suspend_chans t ?R (suspend_chans t {i} w)"
      using Some by (auto simp: suspend_more named_def intro: arg_cong [where f = "\<lambda>R. suspend_chans t R w"])
    have one: "does (look (\<lambda>w. ch_state (chans w i)) (\<lambda>s. triggerChannelUnsubscribe E i
        (if s = SUBSCRIBED \<or> s = PENDING then PENDING else UNSUBSCRIBED))) w [] (suspend_chans t {i} w)"
      using trigger_unsubscribe [OF q Cons.prems] unfolding suspend_one by (simp add: does_def look_def)
    show ?thesis unfolding all
    proof (simp only: each_Cons, rule does_bnd [where us = "[]" and vs = "[]", unfolded append_Nil])
      show "does (look (\<lambda>w. map_of (c_channels w) n) (\<lambda>i. case i of None \<Rightarrow> skip | Some i \<Rightarrow>
      look (\<lambda>w. ch_state (chans w i)) (\<lambda>s. triggerChannelUnsubscribe E i
        (if s = SUBSCRIBED \<or> s = PENDING then PENDING else UNSUBSCRIBED)))) w [] (suspend_chans t {i} w)"
        using one Some by (simp add: does_def look_def)
    next
      fix w' assume w': "logs [] (suspend_chans t {i} w) w'"
      have R: "named ns w' = ?R" using logsD(4) [OF w'] by (simp add: named_def)
      have "c_transport w' = Some t" using logsD(2) [OF w'] Cons.prems by simp
      from Cons.IH [OF this] show "does (each (\<lambda>n. look (\<lambda>w. map_of (c_channels w) n) (\<lambda>i. case i of None \<Rightarrow> skip | Some i \<Rightarrow>
      look (\<lambda>w. ch_state (chans w i)) (\<lambda>s. triggerChannelUnsubscribe E i
        (if s = SUBSCRIBED \<or> s = PENDING then PENDING else UNSUBSCRIBED)))) ns) w' [] (suspend_chans t ?R w')"
        unfolding R .
    qed (rule logs_suspend)
  qed
qed (simp add: named_def)

text \<open>The channels of the client.\<close>

definition registered :: "'a world \<Rightarrow> nat set" where
  "registered w = ran (map_of (c_channels w))"

lemma named_all: "named (key_order (map fst (c_channels w))) w = registered w"
  by (auto simp: named_def registered_def ran_def dest: map_of_SomeD) (metis fst_conv image_eqI map_of_SomeD)

lemma suspend_quiet:
  "quiet E \<Longrightarrow> c_transport w = Some t \<Longrightarrow> does (suspendSubscriptions E) w [] (suspend_chans t (registered w) w)"
  using does_for_names [of E w t "key_order (map fst (c_channels w))"]
  by (simp add: suspendSubscriptions_def for_channels_def look_def named_all does_def)

subsection \<open>Calls that fail\<close>

text \<open>The user callbacks that an event's failure calls.\<close>

definition fails :: "'a env \<Rightarrow> auth_state \<Rightarrow> string \<Rightarrow> event_obj \<Rightarrow> (nat \<times> js \<times> js) list" where
  "fails E auth ft ob = (case ev_cb ob of
     Some (UserCb n) \<Rightarrow> [(n, aborted ob ft, ev_js ob)]
   | Some (AuthCb tok (Some n)) \<Rightarrow> [(n, aborted ob ft, auth_status E auth (ev_js ob))]
   | _ \<Rightarrow> [])"

text \<open>An event that waits for its answer, or to be sent, on behalf of the program.\<close>

definition user_event :: "event_obj \<Rightarrow> bool" where
  "user_event ob = (case ev_cb ob of None \<Rightarrow> True | Some (UserCb n) \<Rightarrow> True | Some (AuthCb tok u) \<Rightarrow> True | _ \<Rightarrow> False)"

lemma aborted_name: "get (aborted ob ft) ''name'' = JStr ''BadConnectionError''"
  by (simp add: aborted_def new_error_def)

lemma fail_user_event:
  assumes q: "quiet E" and k: "ev_cb ob = Some k" and u: "user_event ob"
    and s: "aborted ob' ft = aborted ob ft" "ev_js ob' = ev_js ob"
  shows "does (fail_callback E k (aborted ob' ft) (ev_js ob')) w (fails E (c_authState w) ft ob) w"
proof (cases k)
  case (UserCb n)
  then show ?thesis using does_user [OF q] k s by (simp add: fail_callback_def fails_def)
next
  case (AuthCb tok u)
  show ?thesis
  proof (cases u)
    case None
    then show ?thesis using AuthCb k s
      by (simp add: fail_callback_def fails_def auth_failed_def aborted_name user_callback_def does_def look_def skip_def bnd_def ret_def)
  next
    case (Some n)
    have "fail_callback E k (aborted ob' ft) (ev_js ob') w
        = bnd (call_out E (UserCall n (aborted ob ft) (auth_status E (c_authState w) (ev_js ob)))) (\<lambda>_. ret ()) w"
      using Some AuthCb s
      by (simp add: fail_callback_def auth_failed_def aborted_name user_callback_def look_def skip_def)
    moreover have "does (bnd (call_out E (UserCall n (aborted ob ft) (auth_status E (c_authState w) (ev_js ob)))) (\<lambda>_. ret ())) w
        (fails E (c_authState w) ft ob @ []) w"
      by (rule does_bnd [where g = "\<lambda>w. w"]) (use does_user [OF q] AuthCb Some k in \<open>simp_all add: fails_def\<close>)
    ultimately show ?thesis by (simp add: does_def)
  qed
qed (use u k in \<open>simp_all add: user_event_def\<close>)

lemma user_events_cb:
  "fails E auth ft (ob\<lparr>ev_timer := x\<rparr>) = fails E auth ft ob" "aborted (ob\<lparr>ev_timer := x\<rparr>) ft = aborted ob ft"
  "ev_js (ob\<lparr>ev_timer := x\<rparr>) = ev_js ob" "user_event (ob\<lparr>ev_timer := x\<rparr>) = user_event ob"
proof -
  show s: "aborted (ob\<lparr>ev_timer := x\<rparr>) ft = aborted ob ft" "ev_js (ob\<lparr>ev_timer := x\<rparr>) = ev_js ob"
      "user_event (ob\<lparr>ev_timer := x\<rparr>) = user_event ob"
    by (simp_all add: aborted_def ev_js_def user_event_def)
  show "fails E auth ft (ob\<lparr>ev_timer := x\<rparr>) = fails E auth ft ob" unfolding fails_def s by simp
qed

lemma fails_none: "ev_cb ob = None \<Longrightarrow> fails E auth ft ob = []"
  by (simp add: fails_def)

definition dead :: "event_obj \<Rightarrow> event_obj" where
  "dead ob = ob\<lparr>ev_timer := None, ev_cb := None\<rparr>"

text \<open>The events of \<open>es\<close> are settled.\<close>

definition settle :: "nat set \<Rightarrow> 'a world \<Rightarrow> 'a world" where
  "settle S w = w\<lparr>evs := (\<lambda>e. if e \<in> S then dead (evs w e) else evs w e)\<rparr>"

lemma settle_sel [simp]: "c_buffer (settle S w) = c_buffer w" "c_authState (settle S w) = c_authState w"
  "c_transport (settle S w) = c_transport w" "trs (settle S w) = trs w" "chans (settle S w) = chans w"
  "c_state (settle S w) = c_state w" "out (settle S w) = out w" "c_channels (settle S w) = c_channels w"
  "c_timer (settle S w) = c_timer w" "c_pendingReconnect (settle S w) = c_pendingReconnect w"
  "evs (settle S w) e = (if e \<in> S then dead (evs w e) else evs w e)"
  by (simp_all add: settle_def)

lemma settle_more: "settle S (settle T w) = settle (T \<union> S) w"
  by (simp add: settle_def dead_def fun_eq_iff cong: if_cong)

lemma logs_settle: "logs us w w' \<Longrightarrow> logs us (settle S w) (settle S w')"
  by (rule logs_commute [where f = "settle S"], rule world.equality) (simp_all add: settle_def cong: if_cong)

lemma logs_buffer: "logs us w w' \<Longrightarrow> logs us (w\<lparr>c_buffer := b\<rparr>) (w'\<lparr>c_buffer := b\<rparr>)"
  by (rule logs_commute [where f = "\<lambda>w. w\<lparr>c_buffer := b\<rparr>"], rule world.equality) simp_all

lemma settle_buffer: "settle S (w\<lparr>c_buffer := b\<rparr>) = (settle S w)\<lparr>c_buffer := b\<rparr>"
  by (rule world.equality) (simp_all add: settle_def cong: if_cong)

text \<open>Taking the callback of an event and running it with the failure.\<close>

lemma fail_event:
  assumes q: "quiet E" and u: "user_event (evs w e)" and m: "ev_cb (evs w e) \<noteq> None \<or> m = skip"
  shows "does (steps [modify (upd_ev e (\<lambda>ob. ob\<lparr>ev_timer := None\<rparr>)),
      look (\<lambda>w. evs w e) (\<lambda>ob. case ev_cb ob of None \<Rightarrow> m
        | Some k \<Rightarrow> steps
           [modify (upd_ev e (\<lambda>ob. ob\<lparr>ev_cb := None\<rparr>)), fail_callback E k (aborted ob ft) (ev_js ob)])]) w
     (fails E (c_authState w) ft (evs w e)) (settle {e} w)"
proof (cases "ev_cb (evs w e)")
  case None
  have "upd_ev e (\<lambda>ob. ob\<lparr>ev_timer := None\<rparr>) w = settle {e} w"
    by (simp add: upd_ev_def settle_def dead_def None fun_eq_iff)
  then show ?thesis using None m fails_none [OF None, of E "c_authState w" ft]
    by (simp add: does_def look_def skip_def ret_def bnd_def modify_def dead_def)
next
  case (Some k)
  let ?ob = "evs w e"
  have w1: "upd_ev e (\<lambda>ob. ob\<lparr>ev_cb := None\<rparr>) (upd_ev e (\<lambda>ob. ob\<lparr>ev_timer := None\<rparr>) w) = settle {e} w"
    by (simp add: upd_ev_def settle_def dead_def fun_eq_iff)
  have "does (fail_callback E k (aborted (?ob\<lparr>ev_timer := None\<rparr>) ft) (ev_js (?ob\<lparr>ev_timer := None\<rparr>)))
      (settle {e} w) (fails E (c_authState w) ft ?ob) (settle {e} w)"
    using fail_user_event [OF q Some u, of "?ob\<lparr>ev_timer := None\<rparr>" ft "settle {e} w"] by (simp add: user_events_cb)
  then show ?thesis
    by (auto simp: Some does_def look_def bnd_def modify_def w1 ret_def user_events_cb)
qed

lemma next_of_head [simp]: "next_of (e # es) e = head_of es"
  by (cases es) (simp_all add: head_of_def)

text \<open>An event that was not sent yet has no call id.\<close>

definition unsent :: "event_obj \<Rightarrow> bool" where
  "unsent ob \<longleftrightarrow> user_event ob \<and> ev_cid ob = None"

lemma does_assoc:
  "does (bnd m (\<lambda>_. bnd n k)) w us v \<longleftrightarrow> does (bnd (bnd m (\<lambda>_. n)) k) w us v"
  by (simp add: does_def bnd_assoc)

lemma bnd_unit: "bnd m ret = m"
  by (simp add: fun_eq_iff bnd_def ret_def split: prod.split res.split)

lemma bnd_cong: "(\<And>x v. k x v = k' x v) \<Longrightarrow> bnd m k w = bnd m k' w"
  by (metis ext)

lemma abort_buffer_quiet:
  assumes q: "quiet E"
  shows "distinct b \<Longrightarrow> length b \<le> fuel \<Longrightarrow> c_buffer w = b \<Longrightarrow> \<forall>e\<in>set b. unsent (evs w e) \<Longrightarrow>
    does (abort_buffer E ft fuel (head_of b)) w (concat (map (\<lambda>e. fails E (c_authState w) ft (evs w e)) b))
      (settle (set b) (w\<lparr>c_buffer := []\<rparr>))"
proof (induction b arbitrary: fuel w)
  case Nil
  have "settle {} (w\<lparr>c_buffer := []\<rparr>) = w" using Nil by (simp add: settle_def)
  then show ?case by (simp add: head_of_def)
next
  case (Cons e es)
  obtain f where f: "fuel = Suc f" using Cons.prems(2) by (cases fuel) auto
  let ?w = "w\<lparr>c_buffer := es\<rparr>"
  let ?fail = "steps [modify (upd_ev e (\<lambda>ob. ob\<lparr>ev_timer := None\<rparr>)),
      look (\<lambda>w. evs w e) (\<lambda>ob. case ev_cb ob of None \<Rightarrow> skip
        | Some k \<Rightarrow> steps
           [modify (upd_ev e (\<lambda>ob. ob\<lparr>ev_cb := None\<rparr>)), fail_callback E k (aborted ob ft) (ev_js ob)])]"
  let ?rest = "\<lambda>_. bnd (look (\<lambda>w. ev_cid (evs w e)) (\<lambda>c. case c of None \<Rightarrow> skip
        | Some cid \<Rightarrow> on_transport (\<lambda>t. cancelPendingResponse t cid))) (\<lambda>_. abort_buffer E ft f (head_of es))"
  have eq: "abort_buffer E ft fuel (head_of (e # es)) w = bnd ?fail ?rest ?w"
  proof -
    have n: "next_of (c_buffer w) e = head_of es" and h: "head_of (e # es) = Some e"
      using Cons.prems(3) by (simp_all add: head_of_def del: next_of.simps)
    have s: "(upd_ev e (\<lambda>ob. ob\<lparr>ev_timer := None\<rparr>) w)\<lparr>c_buffer := remove1 e (c_buffer w)\<rparr>
        = upd_ev e (\<lambda>ob. ob\<lparr>ev_timer := None\<rparr>) ?w"
      using Cons.prems(3) by (simp add: upd_ev_def)
    show ?thesis unfolding f h abort_buffer.simps
      by (simp add: look_def n s bnd_assoc bnd_unit)
  qed
  have one: "does ?fail ?w (fails E (c_authState w) ft (evs w e)) (settle {e} ?w)"
    using fail_event [OF q, of ?w e skip ft] Cons.prems(4) by (simp add: unsent_def)
  have "does (bnd ?fail ?rest) ?w (fails E (c_authState w) ft (evs w e)
      @ concat (map (\<lambda>e. fails E (c_authState w) ft (evs w e)) es)) (settle (set (e # es)) (w\<lparr>c_buffer := []\<rparr>))"
  proof (rule does_bnd [OF one, where g = "\<lambda>w. settle (set es) (w\<lparr>c_buffer := []\<rparr>)"])
    fix v assume v: "logs (fails E (c_authState w) ft (evs w e)) (settle {e} ?w) v"
    have ev: "evs v = evs (settle {e} w)" "c_buffer v = es" "c_authState v = c_authState w"
      using logsD(5,3,8) [OF v] by (simp_all add: settle_def cong: if_cong)
    have c: "ev_cid (evs v e) = None" using Cons.prems(4) by (simp add: ev dead_def unsent_def)
    have same: "map (\<lambda>e. fails E (c_authState w) ft (evs w e)) es = map (\<lambda>e. fails E (c_authState v) ft (evs v e)) es"
      using Cons.prems(1) by (auto simp: ev)
    have "does (abort_buffer E ft f (head_of es)) v (concat (map (\<lambda>e. fails E (c_authState v) ft (evs v e)) es))
      (settle (set es) (v\<lparr>c_buffer := []\<rparr>))"
      by (rule Cons.IH) (use Cons.prems f in \<open>auto simp: ev\<close>)
    then show "does (?rest ()) v (concat (map (\<lambda>e. fails E (c_authState w) ft (evs w e)) es))
      (settle (set es) (v\<lparr>c_buffer := []\<rparr>))"
      unfolding same by (simp add: does_def look_def c skip_def bnd_def ret_def)
    have "settle (set (e # es)) (w\<lparr>c_buffer := []\<rparr>) = settle (set es) ((settle {e} ?w)\<lparr>c_buffer := []\<rparr>)"
      by (simp add: settle_buffer settle_more)
    then show "logs (fails E (c_authState w) ft (evs w e)) (settle (set (e # es)) (w\<lparr>c_buffer := []\<rparr>))
        (settle (set es) (v\<lparr>c_buffer := []\<rparr>))"
      using logs_settle [OF logs_buffer [OF v]] by simp
  qed
  then show ?case by (simp add: does_def eq)
qed

lemma abort_all_quiet:
  assumes "quiet E" "distinct (c_buffer w)" "length (c_buffer w) \<le> loop_fuel E" "\<forall>e\<in>set (c_buffer w). unsent (evs w e)"
  shows "does (abort_all_buffered E ft) w (concat (map (\<lambda>e. fails E (c_authState w) ft (evs w e)) (c_buffer w)))
      (settle (set (c_buffer w)) (w\<lparr>c_buffer := []\<rparr>))"
  using abort_buffer_quiet [OF assms(1-3) refl assms(4)] by (simp add: abort_all_buffered_def look_def does_def)

text \<open>A response the transport waits for: the program's, or its own handshake.\<close>

definition awaited :: "nat \<Rightarrow> event_obj \<Rightarrow> bool" where
  "awaited t ob \<longleftrightarrow> ev_cb ob \<noteq> None \<and> (user_event ob \<or> (\<exists>tok. ev_cb ob = Some (HandshakeCb t tok)))"

definition timers_off :: "transport \<Rightarrow> bool" where
  "timers_off x \<longleftrightarrow> \<not> t_conn_timer x \<and> t_ping_timer x = None \<and> \<not> t_batch_timer x"

definition forget :: "nat \<Rightarrow> nat set \<Rightarrow> 'a world \<Rightarrow> 'a world" where
  "forget t C w = upd_tr t (\<lambda>x. x\<lparr>t_cbs := filter (\<lambda>p. fst p \<notin> C) (t_cbs x)\<rparr>) w"

lemma forget_sel [simp]: "evs (forget t C w) = evs w" "c_authState (forget t C w) = c_authState w"
  "t_cbs (trs (forget t C w) t) = filter (\<lambda>p. fst p \<notin> C) (t_cbs (trs w t))"
  "t_attached (trs (forget t C w) u) = t_attached (trs w u)" "timers_off (trs (forget t C w) u) = timers_off (trs w u)"
  "c_state (forget t C w) = c_state w" "c_transport (forget t C w) = c_transport w" "chans (forget t C w) = chans w"
  "c_buffer (forget t C w) = c_buffer w" "c_timer (forget t C w) = c_timer w" "out (forget t C w) = out w"
  "c_pendingReconnect (forget t C w) = c_pendingReconnect w" "t_state (trs (forget t C w) u) = t_state (trs w u)"
  by (auto simp: forget_def timers_off_def upd_tr_def)

lemma logs_forget: "logs us w w' \<Longrightarrow> logs us (forget t C w) (forget t C w')"
  by (rule logs_commute [where f = "forget t C"], rule world.equality) (simp_all add: forget_def upd_tr_def)

lemma forget_more: "forget t C (forget t D w) = forget t (D \<union> C) w"
  by (rule world.equality) (simp_all add: forget_def upd_tr_def conj_commute)

lemma forget_settle: "forget t C (settle S w) = settle S (forget t C w)"
  by (rule world.equality) (simp_all add: forget_def upd_tr_def settle_def cong: if_cong)

lemma forget_one: "cancelPendingResponse t cid w = (Done (), forget t {cid} w)"
  by (simp add: cancelPendingResponse_def modify_def forget_def al_del_def)

lemma forget_none: "forget t {} w = w"
  by (simp add: forget_def upd_tr_def)

lemma fail_handshake:
  assumes k: "ev_cb (evs w e) = Some (HandshakeCb t tok)" and t: "\<not> t_attached (trs w t)" "timers_off (trs w t)"
  shows "does (steps [modify (upd_ev e (\<lambda>ob. ob\<lparr>ev_timer := None\<rparr>)),
      look (\<lambda>w. evs w e) (\<lambda>ob. case ev_cb ob of None \<Rightarrow> m
        | Some k \<Rightarrow> steps
           [modify (upd_ev e (\<lambda>ob. ob\<lparr>ev_cb := None\<rparr>)), fail_callback E k (aborted ob ft) (ev_js ob)])]) w
     [] (settle {e} w)"
proof -
  have w1: "upd_ev e (\<lambda>ob. ob\<lparr>ev_cb := None\<rparr>) (upd_ev e (\<lambda>ob. ob\<lparr>ev_timer := None\<rparr>) w) = settle {e} w"
    by (simp add: upd_ev_def settle_def dead_def fun_eq_iff)
  have off: "(trs w t)\<lparr>t_conn_timer := False, t_ping_timer := None, t_batch_timer := False\<rparr> = trs w t"
    using t(2) by (auto simp: timers_off_def intro: transport.equality)
  have clear: "upd_tr t (\<lambda>x. x\<lparr>t_conn_timer := False, t_ping_timer := None, t_batch_timer := False\<rparr>) (settle {e} w)
      = settle {e} w"
    by (simp add: upd_tr_def off)
  have "logs [] (settle {e} w) (log_out (Shut t (Fin 4003)) (settle {e} w))"
    unfolding logs_def log_out_def
    by (rule exI [of _ "app (settle {e} w)"], rule exI [of _ "[Shut t (Fin 4003)]"]) (simp add: user_call_def)
  then show ?thesis
    by (simp add: k does_def look_def bnd_def modify_def w1 ret_def fail_callback_def transport_on_error_def t(1)
        clear_timers_def clear skip_def shut_def)
qed

lemma abort_call_quiet:
  assumes q: "quiet E" and m: "map_of (t_cbs (trs w t)) cid = Some e" and a: "awaited t (evs w e)"
    and t: "\<not> t_attached (trs w t)" "timers_off (trs w t)"
  shows "does (abort_call E t ft cid) w (fails E (c_authState w) ft (evs w e)) (settle {e} (forget t {cid} w))"
proof -
  let ?m = "steps [modify (upd_ev e (\<lambda>ob. ob\<lparr>ev_timer := None\<rparr>)),
      look (\<lambda>w. evs w e) (\<lambda>ob. case ev_cb ob of None \<Rightarrow> raise TypeError
        | Some k \<Rightarrow> steps
           [modify (upd_ev e (\<lambda>ob. ob\<lparr>ev_cb := None\<rparr>)), fail_callback E k (aborted ob ft) (ev_js ob)])]"
  have eq: "abort_call E t ft cid w = ?m (forget t {cid} w)"
    by (simp add: abort_call_def look_def m bnd_def forget_one)
  show ?thesis
  proof (cases "user_event (evs w e)")
    case True
    then show ?thesis
      using fail_event [OF q, of "forget t {cid} w" e "raise TypeError" ft] a by (simp add: does_def eq awaited_def)
  next
    case False
    then obtain tok where k: "ev_cb (evs w e) = Some (HandshakeCb t tok)" using a by (auto simp: awaited_def)
    then show ?thesis
      using fail_handshake [of "forget t {cid} w" e t tok "raise TypeError" E ft] t
      by (simp add: does_def eq fails_def)
  qed
qed

lemma abort_calls_quiet:
  assumes q: "quiet E"
  shows "distinct (map fst L) \<Longrightarrow> distinct (map snd L) \<Longrightarrow> \<forall>(c, e)\<in>set L. map_of (t_cbs (trs w t)) c = Some e \<and> awaited t (evs w e)
    \<Longrightarrow> \<not> t_attached (trs w t) \<Longrightarrow> timers_off (trs w t) \<Longrightarrow>
    does (each (abort_call E t ft) (map fst L)) w (concat (map (\<lambda>(c, e). fails E (c_authState w) ft (evs w e)) L))
      (settle (snd ` set L) (forget t (fst ` set L) w))"
proof (induction L arbitrary: w)
  case Nil
  then show ?case by (simp add: settle_def forget_none)
next
  case (Cons p L)
  obtain c e where p: "p = (c, e)" by (cases p)
  have hd: "map_of (t_cbs (trs w t)) c = Some e" "awaited t (evs w e)" using Cons.prems(3) p by auto
  have new: "c \<notin> fst ` set L" "e \<notin> snd ` set L" using Cons.prems(1,2) p by auto
  have "does (bnd (abort_call E t ft c) (\<lambda>_. each (abort_call E t ft) (map fst L))) w (fails E (c_authState w) ft (evs w e)
      @ concat (map (\<lambda>(c, e). fails E (c_authState w) ft (evs w e)) L))
      (settle (snd ` set (p # L)) (forget t (fst ` set (p # L)) w))"
  proof (rule does_bnd [OF abort_call_quiet [OF q hd Cons.prems(4,5)],
        where g = "\<lambda>w. settle (snd ` set L) (forget t (fst ` set L) w)"])
    fix v assume v: "logs (fails E (c_authState w) ft (evs w e)) (settle {e} (forget t {c} w)) v"
    have ev: "evs v = evs (settle {e} w)" "c_authState v = c_authState w" "trs v = trs (forget t {c} w)"
      using logsD(5,8,6) [OF v] by (simp_all add: settle_def cong: if_cong)
    have same: "map (\<lambda>(c, e). fails E (c_authState w) ft (evs w e)) L = map (\<lambda>(c, e). fails E (c_authState v) ft (evs v e)) L"
      using new by (auto simp: ev image_iff)
    have each: "map_of (t_cbs (trs v t)) k = Some i \<and> awaited t (evs v i)" if "(k, i) \<in> set L" for k i
    proof -
      have "k \<noteq> c" "i \<noteq> e" using that new by (auto simp: image_iff)
      moreover have "map_of (filter (\<lambda>p. fst p \<notin> {c}) (t_cbs (trs w t))) k = map_of (t_cbs (trs w t)) k"
        using \<open>k \<noteq> c\<close> map_of_al_del [of c "t_cbs (trs w t)"] by (simp add: al_del_def)
      ultimately show ?thesis using Cons.prems(3) that by (auto simp: ev)
    qed
    have h: "\<forall>(k, i)\<in>set L. map_of (t_cbs (trs v t)) k = Some i \<and> awaited t (evs v i)"
      using each by blast
    show "does (each (abort_call E t ft) (map fst L)) v (concat (map (\<lambda>(c, e). fails E (c_authState w) ft (evs w e)) L))
      (settle (snd ` set L) (forget t (fst ` set L) v))"
      unfolding same by (rule Cons.IH [OF _ _ h]) (use Cons.prems in \<open>simp_all add: ev(3)\<close>)
    have "settle (snd ` set (p # L)) (forget t (fst ` set (p # L)) w)
        = settle (snd ` set L) (forget t (fst ` set L) (settle {e} (forget t {c} w)))"
      by (simp add: p forget_settle settle_more forget_more)
    then show "logs (fails E (c_authState w) ft (evs w e)) (settle (snd ` set (p # L)) (forget t (fst ` set (p # L)) w))
        (settle (snd ` set L) (forget t (fst ` set L) v))"
      using logs_settle [OF logs_forget [OF v]] by simp
  qed
  then show ?case by (simp add: p)
qed

lemma map_fst_sort: "map fst (sort_key fst xs) = sort (map fst xs)" for xs :: "(nat \<times> 'b) list"
  by (rule properties_for_sort [symmetric]) (simp_all add: sorted_sort_key)

lemma abort_transport_quiet:
  assumes q: "quiet E" and d: "distinct (map fst (t_cbs (trs w t)))" "distinct (map snd (t_cbs (trs w t)))"
    and a: "\<forall>(c, e)\<in>set (t_cbs (trs w t)). awaited t (evs w e)" and t: "\<not> t_attached (trs w t)" "timers_off (trs w t)"
  shows "does (abort_transport E t ft) w
      (concat (map (\<lambda>(c, e). fails E (c_authState w) ft (evs w e)) (sort_key fst (t_cbs (trs w t)))))
      (settle (snd ` set (t_cbs (trs w t))) (forget t (fst ` set (t_cbs (trs w t))) w))"
proof -
  let ?L = "sort_key fst (t_cbs (trs w t))"
  have m: "mset (map snd ?L) = mset (map snd (t_cbs (trs w t)))" by simp
  have "distinct (map fst ?L)" using d(1) by (simp add: map_fst_sort)
  moreover have "distinct (map snd ?L)" using d(2) mset_eq_imp_distinct_iff [OF m] by simp
  moreover have "\<forall>(c, e)\<in>set ?L. map_of (t_cbs (trs w t)) c = Some e \<and> awaited t (evs w e)"
    using a d(1) by auto
  ultimately have "does (each (abort_call E t ft) (map fst ?L)) w
      (concat (map (\<lambda>(c, e). fails E (c_authState w) ft (evs w e)) ?L)) (settle (snd ` set ?L) (forget t (fst ` set ?L) w))"
    by (rule abort_calls_quiet [OF q _ _ _ t])
  then show ?thesis by (simp add: abort_transport_def look_def map_fst_sort does_def)
qed

subsection \<open>A lost connection\<close>

text \<open>
  The state a client is in between two calls: what is in the buffer was not sent, what the
  transport waits for is the program's, its handshake's, or a subscription's whose channel
  knows the call id.
\<close>

definition wired :: "nat \<Rightarrow> 'a world \<Rightarrow> bool" where
  "wired t w \<longleftrightarrow> c_transport w = Some t \<and> t_attached (trs w t) \<and> t_state (trs w t) \<noteq> CLOSED
     \<and> distinct (c_buffer w) \<and> (\<forall>e\<in>set (c_buffer w). unsent (evs w e))
     \<and> distinct (map fst (t_cbs (trs w t))) \<and> distinct (map snd (t_cbs (trs w t)))
     \<and> snd ` set (t_cbs (trs w t)) \<inter> set (c_buffer w) = {}
     \<and> (\<forall>(c, e)\<in>set (t_cbs (trs w t)).
          (if \<exists>i\<in>registered w. ch_cid (chans w i) = Some c then \<exists>i so. ev_cb (evs w e) = Some (SubscribeCb i so)
           else awaited t (evs w e)))"

text \<open>When the client tries again, if it does.\<close>

definition retry_after :: "'a env \<Rightarrow> jnum \<Rightarrow> nat \<Rightarrow> rat \<Rightarrow> rat option" where
  "retry_after E code n r =
     (if \<not> autoReconnect E then None
      else if code \<in> immediate_codes then Some (reconnect_delay E True n r)
      else if code \<noteq> Fin 1000 \<and> num_less code (Fin 4500) then Some (reconnect_delay E False n r)
      else None)"

lemma retry_eq:
  fixes w :: "'a world"
  assumes "c_timer w = None" "c_pendingReconnect w = False"
  shows "\<exists>w'. (if autoReconnect E then
        (if code \<in> immediate_codes then tryReconnect E True
         else if code \<noteq> Fin 1000 \<and> num_less code (Fin 4500) then tryReconnect E False else skip)
      else skip) w = (Done (), w') \<and> c_timer w' = retry_after E code (c_attempts w) (math_random w 0)
      \<and> c_pendingReconnect w' = (c_timer w' \<noteq> None)
      \<and> c_attempts w' = (if c_timer w' = None then c_attempts w else Suc (c_attempts w))
      \<and> (c_state w' = c_state w \<and> c_transport w' = c_transport w \<and> c_buffer w' = c_buffer w \<and> trs w' = trs w
      \<and> chans w' = chans w \<and> evs w' = evs w \<and> c_authState w' = c_authState w \<and> out w' = out w \<and> c_channels w' = c_channels w)"
  using assms by (simp add: tryReconnect_def modify_def Let_def retry_after_def skip_def ret_def)

lemma does_run: "does m w us v \<Longrightarrow> \<exists>w'. m w = (Done (), w') \<and> logs us v w'"
  by (simp add: does_def)

lemma sc_close_quiet:
  assumes q: "quiet E" and t: "c_transport w = Some t" and b: "distinct (c_buffer w)"
    "length (c_buffer w) \<le> loop_fuel E" "\<forall>e\<in>set (c_buffer w). unsent (evs w e)"
  shows "\<exists>w'. on_sc_close E code data oa w = (Done (), w')
     \<and> c_state w' = c_state w \<and> c_transport w' = Some t \<and> c_buffer w' = [] \<and> c_authState w' = c_authState w
     \<and> trs w' = trs (suspend_chans t (registered w) (upd_tr t (\<lambda>x. x\<lparr>t_attached := False\<rparr>) w))
     \<and> chans w' = chans (suspend_chans t (registered w) w)
     \<and> evs w' = evs (settle (set (c_buffer w)) w) \<and> c_channels w' = c_channels w
     \<and> user_calls (out w') = user_calls (out w) @ concat (map (\<lambda>e. fails E (c_authState w)
          (if oa then ''connectAbort'' else ''disconnect'') (evs w e)) (c_buffer w))
     \<and> c_timer w' = retry_after E code (c_attempts w) (math_random w 0)
     \<and> c_pendingReconnect w' = (c_timer w' \<noteq> None)"
proof -
  define w3 where "w3 = (upd_tr t (\<lambda>x. x\<lparr>t_attached := False\<rparr>) (w\<lparr>c_id := JNull\<rparr>))
      \<lparr>c_pendingReconnect := False, c_pendingTimeout := None, c_timer := None\<rparr>"
  have t3: "c_transport w3 = Some t" using t by (simp add: w3_def)
  obtain w4 where w4: "suspendSubscriptions E w3 = (Done (), w4)" "logs [] (suspend_chans t (registered w3) w3) w4"
    using does_run [OF suspend_quiet [OF q t3]] by blast
  have s4: "c_buffer w4 = c_buffer w" "evs w4 = evs w"
    using logsD(3,5) [OF w4(2)] by (simp_all add: suspend_chans_def w3_def)
  let ?ft = "if oa then ''connectAbort'' else ''disconnect''"
  obtain w5 where w5: "abort_all_buffered E ?ft w4 = (Done (), w5)"
      "logs (concat (map (\<lambda>e. fails E (c_authState w4) ?ft (evs w4 e)) (c_buffer w4)))
        (settle (set (c_buffer w4)) (w4\<lparr>c_buffer := []\<rparr>)) w5"
    using does_run [OF abort_all_quiet [of E w4 ?ft]] q b s4 by fastforce
  have n5: "c_timer w5 = None" "c_pendingReconnect w5 = False"
    using logsD(12,11) [OF w5(2)] logsD(12,11) [OF w4(2)] by (simp_all add: settle_def suspend_chans_def w3_def)
  obtain w6 where w6: "(if autoReconnect E then
        (if code \<in> immediate_codes then tryReconnect E True
         else if code \<noteq> Fin 1000 \<and> num_less code (Fin 4500) then tryReconnect E False else skip)
      else skip) w5 = (Done (), w6)" "c_timer w6 = retry_after E code (c_attempts w5) (math_random w5 0)"
      "c_pendingReconnect w6 = (c_timer w6 \<noteq> None)"
      "c_state w6 = c_state w5" "c_transport w6 = c_transport w5" "c_buffer w6 = c_buffer w5" "trs w6 = trs w5"
      "chans w6 = chans w5" "evs w6 = evs w5" "c_authState w6 = c_authState w5" "out w6 = out w5" "c_channels w6 = c_channels w5"
    using retry_eq [OF n5] by blast
  obtain w7 where w7: "(if oa then emit_local E ''connectAbort'' [JNum code, data]
      else emit_local E ''disconnect'' [JNum code, data]) w6 = (Done (), w7)" "logs [] w6 w7"
    using does_run [OF does_emit [OF q]] by (cases oa) fastforce+
  obtain w8 where w8: "emit_local E ''close'' [JNum code, data] w7 = (Done (), w8)" "logs [] w7 w8"
    using does_run [OF does_emit [OF q]] by blast
  let ?m = "if status_entry socketProtocolIgnoreStatuses code = None then
        on_sc_error (new_error SocketProtocolError
          (case status_entry socketProtocolErrorStatuses code of Some m \<Rightarrow> m | None \<Rightarrow> code_message E code data)
          (JNum code))
      else skip"
  obtain d where d: "?m w8 = (Done (), w8\<lparr>deferred := d\<rparr>)"
  proof -
    have "?m w8 = (Done (), w8\<lparr>deferred := deferred (snd (?m w8))\<rparr>)"
      by (simp add: on_sc_error_def modify_def skip_def ret_def)
    then show thesis by (rule that)
  qed
  have start: "drop_current (w\<lparr>c_id := JNull\<rparr>) = upd_tr t (\<lambda>x. x\<lparr>t_attached := False\<rparr>) (w\<lparr>c_id := JNull\<rparr>)"
    using t by (simp add: drop_current_def)
  have run: "on_sc_close E code data oa w = (Done (), w8\<lparr>deferred := d\<rparr>)"
    by (simp only: on_sc_close_eq sc_close_rest_def start steps.simps bnd_modify w3_def [symmetric]
        bnd_eval(1) w4(1) w5(1) w6(1) w7(1) w8(1) d ret_def)
  have r: "registered w3 = registered w" by (simp add: registered_def w3_def)
  have p: "trs w8 = trs w4" "chans w8 = chans w4" "c_authState w8 = c_authState w4" "c_channels w8 = c_channels w4"
    "c_state w8 = c_state w4" "c_transport w8 = c_transport w4" "c_buffer w8 = []"
    "evs w8 = evs (settle (set (c_buffer w4)) w4)"
    "c_timer w8 = retry_after E code (c_attempts w4) (math_random w4 0)" "c_pendingReconnect w8 = (c_timer w8 \<noteq> None)"
    by (simp_all add: w6(2-) logsD [OF w7(2)] logsD [OF w8(2)] logsD [OF w5(2)], simp_all add: settle_def cong: if_cong)
  have u: "user_calls (out w8) = user_calls (out w) @ concat (map (\<lambda>e. fails E (c_authState w) ?ft (evs w e)) (c_buffer w))"
    using w6(11) logsD(9) [OF w7(2)] logsD(9) [OF w8(2)] logsD(9) [OF w5(2)] logsD(9,8,5,3) [OF w4(2)]
    by (simp add: w3_def suspend_chans_def upd_tr_def)
  have p4: "trs w4 = trs (suspend_chans t (registered w) (upd_tr t (\<lambda>x. x\<lparr>t_attached := False\<rparr>) w))"
    "chans w4 = chans (suspend_chans t (registered w) w)" "c_authState w4 = c_authState w" "c_channels w4 = c_channels w"
    "c_state w4 = c_state w" "c_transport w4 = Some t" "evs (settle (set (c_buffer w4)) w4) = evs (settle (set (c_buffer w)) w)"
    "c_attempts w4 = c_attempts w" "math_random w4 = math_random w"
    by (simp_all add: logsD [OF w4(2)] r registered_def settle_def suspend_chans_def w3_def upd_tr_def t cong: if_cong)
  show ?thesis unfolding run by (simp add: p u p4)
qed

lemma clear_timers_eq:
  "clear_timers t w = (Done (), upd_tr t (\<lambda>x. x\<lparr>t_conn_timer := False, t_ping_timer := None, t_batch_timer := False\<rparr>) w)"
  by (simp add: clear_timers_def modify_def)

lemma concat_sort_filter:
  assumes "\<And>x. x \<in> set xs \<Longrightarrow> \<not> P x \<Longrightarrow> f x = []"
  shows "concat (map f (sort_key k (filter P xs))) = concat (map f (sort_key k xs))"
proof -
  have "concat (map f (filter P ys)) = concat (map f ys)" if "set ys \<subseteq> set xs" for ys
    using that assms by (induction ys) auto
  then show ?thesis by (simp add: filter_sort [symmetric])
qed

text \<open>The state in which the client's close handler starts.\<close>

definition closing_state :: "nat \<Rightarrow> 'a world \<Rightarrow> 'a world" where
  "closing_state t w = (upd_tr t (\<lambda>x. x\<lparr>t_conn_timer := False, t_ping_timer := None, t_batch_timer := False,
     t_state := CLOSED\<rparr>) w)\<lparr>c_state := CLOSED\<rparr>"

lemma on_close_eq:
  fixes E :: "'a env"
  assumes "t_attached (trs w t)" "t_state (trs w t) = s" "s \<noteq> CLOSED"
  shows "on_close E t code data w = bnd (on_sc_close E code data (s = CONNECTING))
     (\<lambda>_. abort_transport E t (if s = CONNECTING then ''connectAbort'' else ''disconnect'')) (closing_state t w)"
proof -
  have st: "(upd_tr t (\<lambda>x. x\<lparr>t_state := CLOSED\<rparr>) (upd_tr t (\<lambda>x. x\<lparr>t_conn_timer := False, t_ping_timer := None, t_batch_timer := False\<rparr>) w))
      \<lparr>c_state := CLOSED\<rparr> = closing_state t w"
    by (simp add: closing_state_def upd_tr_def)
  show ?thesis
    using assms by (cases s) (simp_all add: on_close_def bnd_eval(1) [OF clear_timers_eq] look_def bnd_assoc st bnd_unit)
qed

definition failure_type :: "sock_state \<Rightarrow> string" where
  "failure_type s = (if s = CONNECTING then ''connectAbort'' else ''disconnect'')"

lemma close_quiet:
  assumes q: "quiet E" and w: "wired t w" and fuel: "length (c_buffer w) \<le> loop_fuel E"
  shows "\<exists>w'. on_close E t code data w = (Done (), w')
     \<and> c_state w' = CLOSED \<and> t_state (trs w' t) = CLOSED \<and> \<not> t_attached (trs w' t)
     \<and> c_buffer w' = [] \<and> t_cbs (trs w' t) = [] \<and> (\<forall>i\<in>registered w. chans w' i = suspended (chans w i))
     \<and> c_timer w' = retry_after E code (c_attempts w) (math_random w 0) \<and> c_pendingReconnect w' = (c_timer w' \<noteq> None)
     \<and> user_calls (out w') = user_calls (out w)
        @ concat (map (\<lambda>e. fails E (c_authState w) (failure_type (t_state (trs w t))) (evs w e)) (c_buffer w))
        @ concat (map (\<lambda>(c, e). fails E (c_authState w) (failure_type (t_state (trs w t))) (evs w e))
            (sort_key fst (t_cbs (trs w t))))"
proof -
  let ?s = "t_state (trs w t)" and ?v = "closing_state t w" and ?ft = "failure_type (t_state (trs w t))"
  have ft: "(if ?s = CONNECTING then ''connectAbort'' else ''disconnect'') = ?ft" by (simp add: failure_type_def)
  have v: "c_transport ?v = Some t" "c_buffer ?v = c_buffer w" "evs ?v = evs w" "c_authState ?v = c_authState w"
    "registered ?v = registered w" "chans ?v = chans w" "c_attempts ?v = c_attempts w" "math_random ?v = math_random w"
    "out ?v = out w" "t_cbs (trs ?v t) = t_cbs (trs w t)" "c_state ?v = CLOSED" "t_state (trs ?v t) = CLOSED"
    "timers_off (trs ?v t)"
    using w by (simp_all add: closing_state_def wired_def registered_def upd_tr_def timers_off_def)
  obtain w1 where run1: "on_sc_close E code data (?s = CONNECTING) ?v = (Done (), w1)"
    and w1: "c_state w1 = CLOSED" "c_buffer w1 = []" "c_authState w1 = c_authState w"
      "trs w1 = trs (suspend_chans t (registered w) (upd_tr t (\<lambda>x. x\<lparr>t_attached := False\<rparr>) ?v))"
      "chans w1 = chans (suspend_chans t (registered w) ?v)" "evs w1 = evs (settle (set (c_buffer w)) w)"
      "user_calls (out w1) = user_calls (out w) @ concat (map (\<lambda>e. fails E (c_authState w) ?ft (evs w e)) (c_buffer w))"
      "c_timer w1 = retry_after E code (c_attempts w) (math_random w 0)" "c_pendingReconnect w1 = (c_timer w1 \<noteq> None)"
  proof -
    have h: "distinct (c_buffer ?v)" "length (c_buffer ?v) \<le> loop_fuel E" "\<forall>e\<in>set (c_buffer ?v). unsent (evs ?v e)"
      using w fuel by (simp_all add: v wired_def)
    have e: "evs (settle S ?v) = evs (settle S w)" for S by (simp add: settle_def v cong: if_cong)
    show thesis
      using sc_close_quiet [OF q v(1) h, of code data "?s = CONNECTING", unfolded ft e v] that by blast
  qed
  let ?P = "\<lambda>(c, e). \<forall>i\<in>registered w. ch_cid (chans w i) \<noteq> Some c"
  have cbs: "t_cbs (trs w1 t) = filter ?P (t_cbs (trs w t))"
    by (simp add: w1(4) suspend_chans_def v closing_state_def upd_tr_def)
  have off: "\<not> t_attached (trs w1 t)" "timers_off (trs w1 t)" "t_state (trs w1 t) = CLOSED"
    by (simp_all add: w1(4) suspend_chans_def closing_state_def upd_tr_def timers_off_def)
  have keep: "evs w1 e = evs w e" "awaited t (evs w1 e)" if "(c, e) \<in> set (t_cbs (trs w1 t))" for c e
  proof -
    have "(c, e) \<in> set (t_cbs (trs w t))" "?P (c, e)" using that by (auto simp: cbs)
    then show "evs w1 e = evs w e" "awaited t (evs w1 e)" using w by (fastforce simp: wired_def w1(6))+
  qed
  have d: "distinct (map fst (t_cbs (trs w1 t)))" "distinct (map snd (t_cbs (trs w1 t)))"
    using w by (auto simp: cbs wired_def intro: distinct_map_filter)
  obtain w2 where run2: "abort_transport E t ?ft w1 = (Done (), w2)"
    and w2: "logs (concat (map (\<lambda>(c, e). fails E (c_authState w1) ?ft (evs w1 e)) (sort_key fst (t_cbs (trs w1 t)))))
      (settle (snd ` set (t_cbs (trs w1 t))) (forget t (fst ` set (t_cbs (trs w1 t))) w1)) w2"
    using does_run [OF abort_transport_quiet [OF q d _ off(1,2)], of ?ft] keep by blast
  have same: "map (\<lambda>(c, e). fails E (c_authState w1) ?ft (evs w1 e)) (sort_key fst (t_cbs (trs w1 t)))
      = map (\<lambda>(c, e). fails E (c_authState w) ?ft (evs w e)) (sort_key fst (t_cbs (trs w1 t)))"
    using keep(1) by (auto simp: w1(3))
  have subs: "fails E (c_authState w) ?ft (evs w e) = []" if "(c, e) \<in> set (t_cbs (trs w t))" "\<not> ?P (c, e)" for c e
  proof -
    have "\<forall>(c, e)\<in>set (t_cbs (trs w t)). (if \<exists>i\<in>registered w. ch_cid (chans w i) = Some c
        then \<exists>i so. ev_cb (evs w e) = Some (SubscribeCb i so) else awaited t (evs w e))"
      using w unfolding wired_def by blast
    from bspec [OF this that(1)] have "if \<exists>i\<in>registered w. ch_cid (chans w i) = Some c
        then \<exists>i so. ev_cb (evs w e) = Some (SubscribeCb i so) else awaited t (evs w e)" by simp
    moreover have "\<exists>i\<in>registered w. ch_cid (chans w i) = Some c" using that(2) by simp
    ultimately show ?thesis by (auto simp: fails_def)
  qed
  have all: "concat (map (\<lambda>(c, e). fails E (c_authState w) ?ft (evs w e)) (sort_key fst (t_cbs (trs w1 t))))
      = concat (map (\<lambda>(c, e). fails E (c_authState w) ?ft (evs w e)) (sort_key fst (t_cbs (trs w t))))"
    unfolding cbs by (rule concat_sort_filter) (use subs in auto)
  have "on_close E t code data w = (Done (), w2)"
    using w by (subst on_close_eq [OF _ refl]) (simp_all add: wired_def bnd_eval(1) run1 ft run2)
  moreover have "t_cbs (trs w2 t) = []"
    using logsD(6) [OF w2] by (force simp: filter_empty_conv)
  moreover have "user_calls (out w2) = user_calls (out w)
        @ concat (map (\<lambda>e. fails E (c_authState w) ?ft (evs w e)) (c_buffer w))
        @ concat (map (\<lambda>(c, e). fails E (c_authState w) ?ft (evs w e)) (sort_key fst (t_cbs (trs w t))))"
    using logsD(9) [OF w2] unfolding same all by (simp add: w1(7))
  moreover have "c_state w2 = CLOSED" "c_buffer w2 = []" "c_timer w2 = c_timer w1" "c_pendingReconnect w2 = c_pendingReconnect w1"
    "chans w2 = chans w1" "t_state (trs w2 t) = CLOSED" "\<not> t_attached (trs w2 t)"
    by (simp_all add: logsD [OF w2] w1(1,2) off)
  moreover have "\<forall>i\<in>registered w. chans w1 i = suspended (chans w i)"
    by (simp add: w1(5) suspend_chans_def v)
  ultimately show ?thesis using w1(8,9) by simp
qed

end
