(* ===== verification/Sc_Demo.thy ===== *)
theory Sc_Demo
  imports Sc_Inv
begin

text \<open>
  A client with the default options and no listeners, followed from its construction through
  the handshake, a subscription and a call that waits for its answer; the concrete states
  the properties are applied at.
\<close>

definition demo_reply :: js where
  "demo_reply = JObj [(''rid'', JNum (Fin 1)), (''data'', JObj [(''id'', JStr ''x''),
     (''pingTimeout'', JNum (Fin 10000)), (''isAuthenticated'', JBool False)])]"

definition demo_open :: "unit world" where
  "demo_open = snd (run demo_env (WsMessage 0 demo_reply) (snd (run demo_env (WsOpen 0) demo_start)))"

definition demo_waiting :: "unit world" where
  "demo_waiting = snd (run demo_env (Api (Subscribe ''news'' JUndef)) demo_open)"

definition demo_busy :: "unit world" where
  "demo_busy = snd (run demo_env (Api (EmitEvent ''hello'' JNull (Some 7))) demo_waiting)"

lemma key_order_Nil [simp]: "key_order [] = []"
  by (simp add: key_order_def)

lemma to_key_rid [simp]: "show_nat (Suc 0) = to_key E (JNum (Fin 1))"
  by (simp add: to_key_def show_int_def)

lemmas demo_eval = construct_def too_long_def connect_def emit_local_def call_out_def
  demo_env_def default_env_def initial_world_def no_reconnect_def log_out_def bnd_def act_eval
  new_transport_def on_open_def resetPingTimeout_def handshake_def loadToken_def transport_emit_def new_event_def
  emitObject_def sendObject_def sendObjectSingle_def send_serialized_def serializeObject_def send_def on_message_def
  handleEventObject_def upd_tr_def upd_ev_def upd_chan_def no_event_def no_transport_def cancelPendingResponse_def
  run_callback_def handshake_status_def handshake_done_def on_sc_open_def on_transport_def
  changeToUnauthenticatedStateAndClearTokens_def set_prop_def processPendingSubscriptions_def pending_channels_def
  flushEmitBuffer_def head_of_def al_del_def hydrateError_def

lemma demo_open_eq:
  "demo_open = (initial_world demo_env (\<lambda>_. 1 / 2) [] False ())\<lparr>c_state := OPEN, c_id := JStr ''x'',
     c_pingTimeout := JNum (Fin 10000), c_cid := 2, c_transport := Some 0,
     trs := (\<lambda>_. no_transport)(0 := (new_transport demo_env)\<lparr>t_state := OPEN, t_ready := True, t_conn_timer := False,
       t_ping_timer := Some (JNum (Fin 10000)), t_pingTimeout := JNum (Fin 10000)\<rparr>), n_trs := 1,
     evs := (\<lambda>_. no_event)(0 := \<lparr>ev_name = ''#handshake'', ev_data = JObj [(''authToken'', JNull)],
       ev_cb = Some (HandshakeCb 0 JNull), ev_timer = None, ev_cid = Some 1\<rparr>), n_evs := 1,
     out := [Called (Emit ''connecting'' []), Opened 0, Sent 0 ''{}'', Called (Emit ''message'' [demo_reply]),
       Called (Emit ''connect'' [JObj [(''id'', JStr ''x''), (''pingTimeout'', JNum (Fin 10000)),
          (''isAuthenticated'', JBool False), (''authToken'', JNull)]])]\<rparr>"
  by (simp add: demo_open_def demo_start_def demo_eval demo_reply_def List.map_filter_def)

definition demo_channel :: channel where
  "demo_channel = \<lparr>ch_name = ''news'', ch_state = PENDING, ch_wait = False, ch_batch = False, ch_data = JUndef,
     ch_priority = 0, ch_cid = Some 2\<rparr>"

definition demo_options :: js where
  "demo_options = JObj [(''channel'', JStr ''news'')]"

lemma demo_waiting_eq:
  "demo_waiting = demo_open\<lparr>c_channels := [(''news'', 0)], c_cid := 3, n_chans := 1,
     chans := (\<lambda>_. new_channel '''' JUndef)(0 := demo_channel),
     trs := (trs demo_open)(0 := (trs demo_open 0)\<lparr>t_cbs := [(2, 1)]\<rparr>),
     evs := (evs demo_open)(1 := \<lparr>ev_name = ''#subscribe'', ev_data = demo_options,
       ev_cb = Some (SubscribeCb 0 demo_options), ev_timer = None, ev_cid = Some 2\<rparr>), n_evs := 2,
     out := out demo_open @ [Sent 0 ''{}'', Called (Emit ''subscribeRequest'' [JStr ''news'', demo_options])]\<rparr>"
  by (simp add: demo_waiting_def demo_open_eq demo_eval demo_channel_def demo_options_def subscribe_def add_channel_def
      new_channel_def setOptions_def trySubscribe_def subscription_options_def decorateChannelName_def)

lemma demo_busy_eq:
  "demo_busy = demo_waiting\<lparr>c_cid := 4,
     trs := (trs demo_waiting)(0 := (trs demo_waiting 0)\<lparr>t_cbs := [(3, 2), (2, 1)]\<rparr>),
     evs := (evs demo_waiting)(2 := \<lparr>ev_name = ''hello'', ev_data = JNull, ev_cb = Some (UserCb 7),
       ev_timer = Some NodeTimer, ev_cid = Some 3\<rparr>), n_evs := 3,
     out := out demo_waiting @ [Sent 0 ''{}'']\<rparr>"
  by (simp add: demo_busy_def demo_waiting_eq demo_open_eq demo_eval demo_channel_def client_emit_def local_events_def
      inherited_def emit_event_def eval_nat_numeral)

end
