(* ===== verification/Sc_Lost.thy ===== *)
theory Sc_Lost
  imports Sc_Close Sc_Demo
begin

text \<open>
  The properties of a lost connection: what becomes of the client, its channels and its
  calls, and when it tries again.
\<close>

subsection \<open>The close handler\<close>

text \<open>
  C2: When the transport of a connected or connecting client closes, and the listeners only
  look, \<open>_onClose\<close> returns; the client and the transport are closed and the transport is
  detached, the emit buffer and the transport's pending responses are empty, every channel
  that was subscribed or pending is pending with no request under way (the others stay
  unsubscribed), and a reconnection is scheduled exactly when the options and the close
  code call for one, after the delay that the attempts so far give.
\<close>

theorem connection_lost:
  assumes "quiet E" and "wired t w" and "length (c_buffer w) \<le> loop_fuel E"
  shows "\<exists>w'. on_close E t code data w = (Done (), w')
     \<and> c_state w' = CLOSED \<and> t_state (trs w' t) = CLOSED \<and> \<not> t_attached (trs w' t)
     \<and> c_buffer w' = [] \<and> t_cbs (trs w' t) = []
     \<and> (\<forall>i\<in>registered w. chans w' i = suspended (chans w i))
     \<and> c_timer w' = retry_after E code (c_attempts w) (math_random w 0)
     \<and> c_pendingReconnect w' = (c_timer w' \<noteq> None)"
  using close_quiet [OF assms] by blast

lemma wired_demo: "wired 0 demo_busy"
  by (auto simp: wired_def demo_busy_eq demo_waiting_eq demo_open_eq initial_world_def new_transport_def registered_def
      awaited_def user_event_def demo_channel_def)

lemma buffer_demo: "c_buffer demo_busy = []"
  by (simp add: demo_busy_eq demo_waiting_eq demo_open_eq initial_world_def)

theorem connection_lost_witness:
  "\<exists>w'. on_close demo_env 0 (Fin 1006) JUndef demo_busy = (Done (), w') \<and> c_state w' = CLOSED
     \<and> chans w' 0 = suspended demo_channel \<and> c_timer w' = Some (15000 :: rat)"
proof -
  have r: "0 \<in> registered demo_busy" "chans demo_busy 0 = demo_channel"
    by (simp_all add: demo_busy_eq demo_waiting_eq registered_def)
  have half: "\<lfloor>30001 / 2 :: rat\<rfloor> = 15000" "\<lfloor>1 / 2 :: rat\<rfloor> = 0" by (simp_all add: floor_eq_iff)
  have d: "retry_after demo_env (Fin 1006) (c_attempts demo_busy) (math_random demo_busy 0) = Some 15000"
    by (simp add: demo_busy_eq demo_waiting_eq demo_open_eq initial_world_def demo_env_def default_env_def retry_after_def
        immediate_codes_def reconnect_delay_def math_round_def Let_def half)
  show ?thesis
    using connection_lost [OF quiet_demo wired_demo, of "Fin 1006" JUndef] r d
    by (fastforce simp: buffer_demo)
qed

text \<open>
  C4: Every callback that waits when the connection is lost is called exactly once, with a
  BadConnectionError that names its event and the kind of failure: first those of the
  buffered events, in the order they were emitted, then those of the calls that were sent,
  in the order of their call ids; no other callback of the program is called. (The listeners and
  callbacks do nothing to the client; \<open>Sc_Flaws\<close> has callbacks that emit again.)
\<close>

theorem waiting_calls_fail_once:
  assumes "quiet E" and "wired t w" and "length (c_buffer w) \<le> loop_fuel E"
  shows "user_calls (out (snd (on_close E t code data w))) = user_calls (out w)
     @ concat (map (\<lambda>e. fails E (c_authState w) (failure_type (t_state (trs w t))) (evs w e)) (c_buffer w))
     @ concat (map (\<lambda>(c, e). fails E (c_authState w) (failure_type (t_state (trs w t))) (evs w e))
         (sort_key fst (t_cbs (trs w t))))"
  using close_quiet [OF assms, of code data] by auto

theorem waiting_calls_fail_once_witness:
  "user_calls (out (snd (on_close demo_env 0 (Fin 1006) JUndef demo_busy)))
     = [(7, aborted (evs demo_busy 2) ''disconnect'', ev_js (evs demo_busy 2))]"
  using waiting_calls_fail_once [OF quiet_demo wired_demo, of "Fin 1006" JUndef]
  by (simp add: buffer_demo)
    (simp add: demo_busy_eq demo_waiting_eq demo_open_eq initial_world_def fails_def failure_type_def user_call_def
      List.map_filter_def new_transport_def)

subsection \<open>Delays\<close>

lemma math_round_mono: "p \<le> q \<Longrightarrow> math_round p \<le> math_round q"
  by (simp add: math_round_def floor_mono)

lemma math_round_nonneg: "0 \<le> q \<Longrightarrow> 0 \<le> math_round q"
  using math_round_mono [of 0 q] by (simp add: math_round_def)

definition first_delay :: "'a env \<Rightarrow> rat \<Rightarrow> int" where
  "first_delay E r = math_round (initialDelay E + randomness E * r)"

lemma delay_eq:
  "reconnect_delay E im n r = min (maxDelay E)
     (if \<not> im \<or> n > 0 then of_int (math_round (of_int (first_delay E r) * multiplier E ^ n)) else 0)"
  by (auto simp: reconnect_delay_def first_delay_def Let_def)

text \<open>
  C19: The delays of \<open>_tryReconnect\<close> stay between zero and the maximal delay. The first
  attempt after a ping or pong timeout is immediate; later ones wait as long as those after
  other codes. With a multiplier of at least one, and whatever \<open>Math.random\<close> gives for each
  attempt, the delay of attempt \<open>n\<close> lies between the \<open>n\<close>-th power of the multiplier times the
  initial delay and times the initial delay with its full randomness, up to the rounding to whole
  milliseconds, until these reach the maximum. (From one attempt to the next it may shrink:
  each draws anew.)
\<close>

theorem reconnect_delay_bounds:
  assumes "0 \<le> initialDelay E" "0 \<le> randomness E" "1 \<le> multiplier E" "0 \<le> maxDelay E" "0 \<le> r" "r \<le> 1"
  shows "0 \<le> reconnect_delay E im n r \<and> reconnect_delay E im n r \<le> maxDelay E
    \<and> reconnect_delay E True 0 r = 0 \<and> reconnect_delay E True (Suc n) r = reconnect_delay E False (Suc n) r
    \<and> min (maxDelay E) ((initialDelay E - 1 / 2) * multiplier E ^ n - 1 / 2) \<le> reconnect_delay E False n r
    \<and> reconnect_delay E False n r \<le> min (maxDelay E) ((initialDelay E + randomness E + 1 / 2) * multiplier E ^ n + 1 / 2)"
proof -
  let ?d = "first_delay E r" and ?m = "multiplier E"
  have i: "0 \<le> initialDelay E + randomness E * r" using assms by simp
  have d: "0 \<le> ?d" using math_round_nonneg [OF i] by (simp add: first_delay_def)
  have m: "0 \<le> ?m ^ n" using assms(3) by simp
  have pos: "(0 :: rat) \<le> of_int (math_round (of_int ?d * ?m ^ k))" for k
    using math_round_nonneg [of "of_int ?d * ?m ^ k"] d assms(3) by simp
  have "0 \<le> randomness E * r" "randomness E * r \<le> randomness E" using assms(2,5,6) by (simp_all add: mult_left_le)
  then have "initialDelay E - 1 / 2 \<le> of_int ?d" "of_int ?d \<le> initialDelay E + randomness E + 1 / 2"
    using math_round_near [of "initialDelay E + randomness E * r"] unfolding first_delay_def by linarith+
  from mult_right_mono [OF this(1) m] mult_right_mono [OF this(2) m]
  have "(initialDelay E - 1 / 2) * ?m ^ n - 1 / 2 \<le> of_int (math_round (of_int ?d * ?m ^ n))"
    "of_int (math_round (of_int ?d * ?m ^ n)) \<le> (initialDelay E + randomness E + 1 / 2) * ?m ^ n + 1 / 2"
    using math_round_near [of "of_int ?d * ?m ^ n"] by linarith+
  then show ?thesis
    using assms(4) pos by (auto simp: delay_eq min_le_iff_disj)
qed

theorem reconnect_delay_bounds_witness:
  "0 \<le> reconnect_delay demo_env False 3 (1 / 2) \<and> reconnect_delay demo_env False 3 (1 / 2) \<le> 60000
    \<and> min 60000 ((10000 - 1 / 2) * (3 / 2) ^ 3 - 1 / 2) \<le> reconnect_delay demo_env False 3 (1 / 2)"
  using reconnect_delay_bounds [of demo_env "1 / 2" False 3] by (simp add: demo_env_def default_env_def)

text \<open>With the default options the second delay can be shorter than the first.\<close>

lemma delay_may_shrink: "reconnect_delay demo_env False 1 0 < reconnect_delay demo_env False 0 (99 / 100)"
  by code_simp

end
