(* ===== verification/Sc_Traffic.thy ===== *)
theory Sc_Traffic
  imports Sc_Close Sc_Demo
begin

text \<open>
  The traffic of an open client: the emit buffer is sent in order, subscriptions are asked
  for once and answered, pending channels are asked for again by priority when a connection
  opens, publications reach the watchers of the channel, and a response is sent once.
\<close>

subsection \<open>The emit buffer\<close>

text \<open>The texts that events turn into, the first of those with a callback taking the call id \<open>c\<close>.\<close>

fun wire :: "nat \<Rightarrow> event_obj list \<Rightarrow> js list" where
  "wire c [] = []"
| "wire c (ob # obs) =
     (if ev_cb ob = None then JObj [(''event'', JStr (ev_name ob)), (''data'', ev_data ob)] # wire c obs
      else JObj [(''event'', JStr (ev_name ob)), (''data'', ev_data ob), (''cid'', JNum (Fin (of_nat c)))]
             # wire (Suc c) obs)"

definition calls :: "'a world \<Rightarrow> nat list \<Rightarrow> nat list" where
  "calls w b = filter (\<lambda>e. ev_cb (evs w e) \<noteq> None) b"

text \<open>A codec that never throws, and a WebSocket that is open.\<close>

definition sends :: "'a env \<Rightarrow> (js \<Rightarrow> string) \<Rightarrow> nat \<Rightarrow> 'a world \<Rightarrow> bool" where
  "sends E f t w \<longleftrightarrow> encode E = (\<lambda>v. Inr (f v)) \<and> t_ready (trs w t)"

lemma send_single:
  "sends E f t w \<Longrightarrow> sendObject E t v False w = (Done (), log_out (Sent t (f v)) w)"
  by (simp add: sends_def sendObject_def sendObjectSingle_def send_serialized_def serializeObject_def send_def act_eval)

lemma emit_call:
  assumes "sends E f t w" and "ev_cb (evs w e) = Some k"
  shows "emitObject E t e False w = (Done (Some (c_cid w)),
     log_out (Sent t (f (JObj [(''event'', JStr (ev_name (evs w e))), (''data'', ev_data (evs w e)),
        (''cid'', JNum (Fin (of_nat (c_cid w))))])))
       (upd_tr t (\<lambda>x. x\<lparr>t_cbs := (c_cid w, e) # al_del (c_cid w) (t_cbs x)\<rparr>)
         (upd_ev e (\<lambda>ob. ob\<lparr>ev_cid := Some (c_cid w)\<rparr>) (w\<lparr>c_cid := Suc (c_cid w)\<rparr>))))"
proof -
  have "sends E f t (upd_tr t (\<lambda>x. x\<lparr>t_cbs := (c_cid w, e) # al_del (c_cid w) (t_cbs x)\<rparr>)
         (upd_ev e (\<lambda>ob. ob\<lparr>ev_cid := Some (c_cid w)\<rparr>) (w\<lparr>c_cid := Suc (c_cid w)\<rparr>)))"
    using assms(1) by (simp add: sends_def)
  from send_single [OF this] show ?thesis
    using assms(2) by (simp add: emitObject_def look_def bnd_assoc bnd_def ret_def modify_def)
qed

lemma emit_plain:
  assumes "sends E f t w" and "ev_cb (evs w e) = None"
  shows "emitObject E t e False w = (Done (ev_cid (evs w e)),
     log_out (Sent t (f (JObj [(''event'', JStr (ev_name (evs w e))), (''data'', ev_data (evs w e))]))) w)"
  using send_single [OF assms(1)] assms(2) by (simp add: emitObject_def look_def bnd_def ret_def)

lemma flush_loop_sends:
  assumes "distinct b" "length b \<le> fuel" "c_buffer w = b" "sends E f t w" "c_transport w = Some t"
    "\<forall>(c, e)\<in>set (t_cbs (trs w t)). c < c_cid w"
  shows "\<exists>w'. flush_loop E fuel (head_of b) w = (Done (), w') \<and> c_buffer w' = []
     \<and> out w' = out w @ map (\<lambda>v. Sent t (f v)) (wire (c_cid w) (map (evs w) b))
     \<and> c_cid w' = c_cid w + length (calls w b)
     \<and> t_cbs (trs w' t) = rev (zip [c_cid w..<c_cid w + length (calls w b)] (calls w b)) @ t_cbs (trs w t)
     \<and> c_state w' = c_state w"
  using assms
proof (induction b arbitrary: fuel w)
  case Nil
  then show ?case by (simp add: head_of_def skip_def ret_def calls_def)
next
  case (Cons e es)
  obtain n where n: "fuel = Suc n" using Cons.prems(2) by (cases fuel) auto
  define w0 where "w0 = w\<lparr>c_buffer := es\<rparr>"
  have w0: "sends E f t w0" "c_transport w0 = Some t" "evs w0 = evs w" "c_cid w0 = c_cid w" "c_buffer w0 = es"
      "out w0 = out w" "trs w0 = trs w" "c_state w0 = c_state w"
    using Cons.prems by (simp_all add: w0_def sends_def)
  have step: "flush_loop E fuel (head_of (e # es)) w = bnd (bnd (emitObject E t e False) (\<lambda>_. skip))
      (\<lambda>_. flush_loop E n (head_of es)) w0"
  proof -
    have h: "head_of (e # es) = Some e" "next_of (c_buffer w) e = head_of es"
      using Cons.prems(3) by (simp_all add: head_of_def del: next_of.simps)
    have b: "w\<lparr>c_buffer := remove1 e (c_buffer w)\<rparr> = w0" using Cons.prems(3) by (simp add: w0_def)
    have "bnd (on_transport k) g w0 = bnd (k t) g w0" for k :: "nat \<Rightarrow> ('a world, unit) act" and g
      by (simp add: on_transport_def bnd_def look_def w0(2))
    then show ?thesis unfolding n h(1) flush_loop.simps by (simp add: look_def h(2) b bnd_unit)
  qed
  show ?case
  proof (cases "ev_cb (evs w e)")
    case None
    let ?w1 = "log_out (Sent t (f (JObj [(''event'', JStr (ev_name (evs w e))), (''data'', ev_data (evs w e))]))) w0"
    have s1: "sends E f t ?w1" using w0(1) by (simp add: sends_def)
    have run: "flush_loop E fuel (head_of (e # es)) w = flush_loop E n (head_of es) ?w1"
      unfolding step using emit_plain [OF w0(1), of e] None by (simp add: w0 bnd_def skip_def ret_def)
    show ?thesis
      unfolding run using Cons.IH [of n ?w1] Cons.prems(1,2,6) n s1 None by (simp add: w0 calls_def)
  next
    case (Some k)
    let ?c = "c_cid w"
    let ?w1 = "log_out (Sent t (f (JObj [(''event'', JStr (ev_name (evs w e))), (''data'', ev_data (evs w e)),
        (''cid'', JNum (Fin (of_nat ?c)))])))
       (upd_tr t (\<lambda>x. x\<lparr>t_cbs := (?c, e) # al_del ?c (t_cbs x)\<rparr>)
         (upd_ev e (\<lambda>ob. ob\<lparr>ev_cid := Some ?c\<rparr>) (w0\<lparr>c_cid := Suc ?c\<rparr>)))"
    have s1: "sends E f t ?w1" using w0(1) by (simp add: sends_def)
    have run: "flush_loop E fuel (head_of (e # es)) w = flush_loop E n (head_of es) ?w1"
      unfolding step using emit_call [OF w0(1), of e k] Some by (simp add: w0 bnd_def skip_def ret_def)
    have fresh: "al_del ?c (t_cbs (trs w t)) = t_cbs (trs w t)"
      using Cons.prems(6) by (auto simp: al_del_def filter_id_conv)
    have cbs: "t_cbs (trs ?w1 t) = (?c, e) # t_cbs (trs w t)" by (simp add: w0 fresh)
    have e: "map (evs ?w1) es = map (evs w) es" "calls ?w1 es = calls w es"
      using Cons.prems(1) by (auto simp: calls_def w0 intro!: filter_cong)
    have up: "[?c..<?c + length (calls w (e # es))] = ?c # [Suc ?c..<Suc ?c + length (calls w es)]"
    proof -
      have "length (calls w (e # es)) = Suc (length (calls w es))" using Some by (simp add: calls_def)
      then show ?thesis by (simp add: upt_conv_Cons del: upt_Suc)
    qed
    have "\<forall>(c, e)\<in>set (t_cbs (trs ?w1 t)). c < c_cid ?w1"
      using Cons.prems(6) unfolding cbs by (auto simp: less_Suc_eq)
    then obtain w' where "flush_loop E n (head_of es) ?w1 = (Done (), w')" "c_buffer w' = []"
      "out w' = out ?w1 @ map (\<lambda>v. Sent t (f v)) (wire (Suc ?c) (map (evs w) es))"
      "c_cid w' = Suc ?c + length (calls w es)"
      "t_cbs (trs w' t) = rev (zip [Suc ?c..<Suc ?c + length (calls w es)] (calls w es)) @ (?c, e) # t_cbs (trs w t)"
      "c_state w' = c_state w"
      using Cons.IH [of n ?w1] Cons.prems(1,2) n s1 unfolding e cbs by (auto simp: w0)
    then show ?thesis
      unfolding run up using Some by (simp add: calls_def w0)
  qed
qed

text \<open>
  C6: Flushing the buffer of a client whose WebSocket is open sends the buffered events in the
  order in which they were emitted, each with its name and data; those with a callback carry
  consecutive call ids, under which the transport then awaits their responses (added in front
  of those it awaited before), the others none; the buffer is empty afterwards, and the loop
  needs no more rounds than there are events.
\<close>

theorem flush_in_order:
  assumes "distinct (c_buffer w)" and "length (c_buffer w) \<le> loop_fuel E" and "c_transport w = Some t"
    and "sends E f t w" and "\<forall>(c, e)\<in>set (t_cbs (trs w t)). c < c_cid w"
  shows "\<exists>w'. flushEmitBuffer E w = (Done (), w') \<and> c_buffer w' = []
     \<and> out w' = out w @ map (\<lambda>v. Sent t (f v)) (wire (c_cid w) (map (evs w) (c_buffer w)))
     \<and> c_cid w' = c_cid w + length (calls w (c_buffer w))
     \<and> t_cbs (trs w' t) = rev (zip [c_cid w..<c_cid w + length (calls w (c_buffer w))] (calls w (c_buffer w)))
          @ t_cbs (trs w t)"
  using flush_loop_sends [OF assms(1,2) refl assms(4,3,5)] by (auto simp: flushEmitBuffer_def look_def)

text \<open>Two events in the buffer of the client, one with a callback.\<close>

definition demo_buffered :: "unit world" where
  "demo_buffered = demo_waiting\<lparr>c_buffer := [2, 3], n_evs := 4,
     evs := (evs demo_waiting)(2 := \<lparr>ev_name = ''a'', ev_data = JNull, ev_cb = None, ev_timer = None, ev_cid = None\<rparr>,
       3 := \<lparr>ev_name = ''b'', ev_data = JNull, ev_cb = Some (UserCb 7), ev_timer = None, ev_cid = None\<rparr>)\<rparr>"

theorem flush_in_order_witness:
  "\<exists>w'. flushEmitBuffer demo_env demo_buffered = (Done (), w') \<and> t_cbs (trs w' 0) = [(3, 3), (2, 1)]"
proof -
  let ?w = demo_buffered
  have h: "distinct (c_buffer ?w)" "length (c_buffer ?w) \<le> loop_fuel demo_env" "c_transport ?w = Some 0"
    "sends demo_env (\<lambda>_. ''{}'') 0 ?w" "\<forall>(c, e)\<in>set (t_cbs (trs ?w 0)). c < c_cid ?w"
    by (simp_all add: demo_buffered_def demo_waiting_eq demo_open_eq initial_world_def demo_env_def default_env_def sends_def)
  have v: "calls ?w (c_buffer ?w) = [3]" "c_cid ?w = 3" "t_cbs (trs ?w 0) = [(2, 1)]"
    by (simp_all add: demo_buffered_def demo_waiting_eq demo_open_eq initial_world_def calls_def)
  show ?thesis using flush_in_order [OF h] unfolding v by auto
qed

subsection \<open>Asking for a subscription\<close>

definition subscribe_message :: "'a env \<Rightarrow> channel \<Rightarrow> nat \<Rightarrow> js" where
  "subscribe_message E c cid = JObj [(''event'', JStr ''#subscribe''), (''data'', subscription_options E c),
     (''cid'', JNum (Fin (of_nat cid)))]"

text \<open>The state after channel \<open>i\<close> has asked.\<close>

definition asked :: "'a env \<Rightarrow> (js \<Rightarrow> string) \<Rightarrow> nat \<Rightarrow> nat \<Rightarrow> 'a world \<Rightarrow> 'a world" where
  "asked E f t i w = w\<lparr>c_cid := Suc (c_cid w), n_evs := Suc (n_evs w),
     evs := (evs w)(n_evs w := \<lparr>ev_name = ''#subscribe'', ev_data = subscription_options E (chans w i),
        ev_cb = Some (SubscribeCb i (subscription_options E (chans w i))), ev_timer = None, ev_cid = Some (c_cid w)\<rparr>),
     trs := (trs w)(t := (trs w t)\<lparr>t_cbs := (c_cid w, n_evs w) # al_del (c_cid w) (t_cbs (trs w t))\<rparr>),
     out := out w @ [Sent t (f (subscribe_message E (chans w i) (c_cid w)))],
     chans := (chans w)(i := (chans w i)\<lparr>ch_cid := Some (c_cid w)\<rparr>)\<rparr>"

text \<open>A client that is connected and lets channel \<open>i\<close> ask.\<close>

definition online :: "'a env \<Rightarrow> (js \<Rightarrow> string) \<Rightarrow> nat \<Rightarrow> 'a world \<Rightarrow> bool" where
  "online E f t w \<longleftrightarrow> c_state w = OPEN \<and> \<not> c_preparing w \<and> c_transport w = Some t
     \<and> t_state (trs w t) = OPEN \<and> sends E f t w"

definition may_ask :: "'a world \<Rightarrow> nat \<Rightarrow> bool" where
  "may_ask w i \<longleftrightarrow> ch_cid (chans w i) = None \<and> \<not> ch_batch (chans w i)
     \<and> (ch_wait (chans w i) \<longrightarrow> c_authState w = AUTHENTICATED)"

lemma subscription_options_cid [simp]:
  "subscription_options E (c\<lparr>ch_cid := x\<rparr>) = subscription_options E c"
  "subscription_options E (c\<lparr>ch_state := s\<rparr>) = subscription_options E c"
  by (simp_all add: subscription_options_def)

lemma subscribe_emit:
  assumes "online E f t w" and "\<not> ch_batch (chans w i)"
  shows "transport_emit E t ''#subscribe'' (subscription_options E (chans w i))
      (Some (SubscribeCb i (subscription_options E (chans w i)))) True False False w
    = (Done (Some (c_cid w)), w\<lparr>c_cid := Suc (c_cid w), n_evs := Suc (n_evs w),
     evs := (evs w)(n_evs w := \<lparr>ev_name = ''#subscribe'', ev_data = subscription_options E (chans w i),
        ev_cb = Some (SubscribeCb i (subscription_options E (chans w i))), ev_timer = None, ev_cid = Some (c_cid w)\<rparr>),
     trs := (trs w)(t := (trs w t)\<lparr>t_cbs := (c_cid w, n_evs w) # al_del (c_cid w) (t_cbs (trs w t))\<rparr>),
     out := out w @ [Sent t (f (subscribe_message E (chans w i) (c_cid w)))]\<rparr>)"
proof -
  let ?e = "\<lparr>ev_name = ''#subscribe'', ev_data = subscription_options E (chans w i),
        ev_cb = Some (SubscribeCb i (subscription_options E (chans w i))), ev_timer = None, ev_cid = None\<rparr>"
  let ?w = "w\<lparr>evs := (evs w)(n_evs w := ?e), n_evs := Suc (n_evs w)\<rparr>"
  have s: "sends E f t ?w" "t_state (trs ?w t) = OPEN" using assms(1) by (simp_all add: online_def sends_def)
  have new: "new_event ?e w = (Done (n_evs w), ?w)"
    by (simp add: new_event_def look_def modify_def ret_def bnd_def)
  have "transport_emit E t ''#subscribe'' (subscription_options E (chans w i))
      (Some (SubscribeCb i (subscription_options E (chans w i)))) True False False w = emitObject E t (n_evs w) False ?w"
    using s(2) by (simp add: transport_emit_def bnd_eval(1) new look_def)
  also have "\<dots> = (Done (Some (c_cid w)), w\<lparr>c_cid := Suc (c_cid w), n_evs := Suc (n_evs w),
     evs := (evs w)(n_evs w := \<lparr>ev_name = ''#subscribe'', ev_data = subscription_options E (chans w i),
        ev_cb = Some (SubscribeCb i (subscription_options E (chans w i))), ev_timer = None, ev_cid = Some (c_cid w)\<rparr>),
     trs := (trs w)(t := (trs w t)\<lparr>t_cbs := (c_cid w, n_evs w) # al_del (c_cid w) (t_cbs (trs w t))\<rparr>),
     out := out w @ [Sent t (f (subscribe_message E (chans w i) (c_cid w)))]\<rparr>)"
    using emit_call [OF s(1), of "n_evs w"]
    by (simp add: subscribe_message_def upd_tr_def upd_ev_def log_out_def)
  finally show ?thesis .
qed

lemma trySubscribe_asks:
  assumes q: "quiet E" and c: "online E f t w" and m: "may_ask w i"
  shows "does (trySubscribe E i) w [] (asked E f t i w)"
proof -
  let ?so = "subscription_options E (chans w i)"
  let ?k = "\<lambda>cid. steps [modify (upd_chan i (\<lambda>c. c\<lparr>ch_cid := cid\<rparr>)),
       emit_local E ''subscribeRequest'' [JStr (ch_name (chans w i)), ?so]]"
  have "trySubscribe E i w = bnd (transport_emit E t ''#subscribe'' ?so (Some (SubscribeCb i ?so)) True False False) ?k w"
    using c m by (simp add: trySubscribe_def look_def online_def may_ask_def on_transport_def bnd_def)
  also have "\<dots> = emit_local E ''subscribeRequest'' [JStr (ch_name (chans w i)), ?so] (asked E f t i w)"
    using subscribe_emit [OF c, of i] m
    by (simp add: bnd_eval(1) may_ask_def asked_def upd_chan_def bnd_unit)
  finally have eq: "trySubscribe E i w
      = emit_local E ''subscribeRequest'' [JStr (ch_name (chans w i)), ?so] (asked E f t i w)" .
  show ?thesis
    using does_emit [OF q, of "''subscribeRequest''" "[JStr (ch_name (chans w i)), ?so]" "asked E f t i w"]
    by (simp add: does_def eq)
qed

lemma logs_online: "logs us w w' \<Longrightarrow> online E f t w' = online E f t w"
  by (simp add: online_def sends_def logsD)

lemma asked_sel [simp]:
  "online E f t (asked E f t i w) = online E f t w" "c_cid (asked E f t i w) = Suc (c_cid w)"
  "chans (asked E f t i w) = (chans w)(i := (chans w i)\<lparr>ch_cid := Some (c_cid w)\<rparr>)"
  "c_channels (asked E f t i w) = c_channels w" "c_authState (asked E f t i w) = c_authState w"
  "sents (out (asked E f t i w)) = sents (out w) @ [(t, f (subscribe_message E (chans w i) (c_cid w)))]"
  by (auto simp: asked_def online_def sends_def)

text \<open>
  C7: Subscribing a connected client without options to a channel that is new or unsubscribed and
  may ask (with a name that no object inherits) makes the channel
  pending and sends exactly one \<open>#subscribe\<close> request, with the channel's options, under a
  fresh call id that the channel remembers; subscribing again changes nothing.
\<close>

theorem subscribe_asks_once:
  assumes "quiet E" and "online E f t w"
    and "map_of (c_channels w) n = None \<or>
      (\<exists>i. map_of (c_channels w) n = Some i \<and> ch_state (chans w i) = UNSUBSCRIBED \<and> may_ask w i)"
  shows "\<exists>i w'. subscribe E n JUndef w = (Done i, w') \<and> map_of (c_channels w') n = Some i
     \<and> ch_state (chans w' i) = PENDING \<and> ch_cid (chans w' i) = Some (c_cid w)
     \<and> sents (out w') = sents (out w) @ [(t, f (subscribe_message E (chans w' i) (c_cid w)))]
     \<and> subscribe E n JUndef w' = (Done i, w')"
proof -
  define found where "found = (look (\<lambda>w. map_of (c_channels w) n) (\<lambda>x. case x of None \<Rightarrow> add_channel n JUndef
        | Some i \<Rightarrow> if truthy JUndef then bnd (modify (upd_chan i (setOptions JUndef))) (\<lambda>_. ret i) else ret i)) w"
  obtain i v where v: "found = (Done i, v)" "map_of (c_channels v) n = Some i" "ch_state (chans v i) = UNSUBSCRIBED"
      "may_ask v i" "online E f t v" "c_cid v = c_cid w" "out v = out w"
  proof (cases "map_of (c_channels w) n")
    case None
    then show thesis
      using assms(2) by (intro that [of "n_chans w" "w\<lparr>chans := (chans w)(n_chans w := new_channel n JUndef),
          n_chans := Suc (n_chans w), c_channels := al_set n (n_chans w) (c_channels w)\<rparr>"])
        (simp_all add: found_def look_def add_channel_def ret_def new_channel_def setOptions_def may_ask_def
          online_def sends_def)
  next
    case (Some i)
    then show thesis using assms(2,3) by (intro that [of i w]) (simp_all add: found_def look_def ret_def)
  qed
  let ?v = "upd_chan i (\<lambda>c. c\<lparr>ch_state := PENDING\<rparr>) v"
  have "online E f t ?v" "may_ask ?v i" using v(4,5) by (simp_all add: online_def sends_def may_ask_def)
  then obtain w' where w': "trySubscribe E i ?v = (Done (), w')" "logs [] (asked E f t i ?v) w'"
    using does_run [OF trySubscribe_asks [OF assms(1)]] by blast
  have run: "subscribe E n JUndef w = (Done i, w')"
    using v(1,3) w'(1) by (simp add: subscribe_def found_def bnd_def look_def ret_def modify_def)
  have f: "c_channels w' = c_channels v" "chans w' i = (chans v i)\<lparr>ch_state := PENDING, ch_cid := Some (c_cid w)\<rparr>"
    "sents (out w') = sents (out w) @ [(t, f (subscribe_message E (chans w' i) (c_cid w)))]"
    using v(6,7) by (simp_all add: logsD [OF w'(2)] subscribe_message_def)
  have "subscribe E n JUndef w' = (Done i, w')"
    using v(2) by (simp add: subscribe_def look_def f bnd_def ret_def skip_def)
  then show ?thesis using run f v(2) by auto
qed

lemma demo_online: "online demo_env (\<lambda>_. ''{}'') 0 demo_open" "online demo_env (\<lambda>_. ''{}'') 0 demo_waiting"
  by (simp_all add: demo_waiting_eq demo_open_eq initial_world_def demo_env_def default_env_def online_def sends_def)

theorem subscribe_asks_once_witness:
  "\<exists>i w'. subscribe demo_env ''news'' JUndef demo_open = (Done i, w') \<and> ch_state (chans w' i) = PENDING
     \<and> ch_cid (chans w' i) = Some 2 \<and> subscribe demo_env ''news'' JUndef w' = (Done i, w')"
proof -
  have n: "map_of (c_channels demo_open) ''news'' = None" "c_cid demo_open = 2"
    by (simp_all add: demo_open_eq initial_world_def)
  show ?thesis
    using subscribe_asks_once [OF quiet_demo demo_online(1), of "''news''"] n by auto
qed

text \<open>
  Channels that ask at once: without a request under way, and with the authentication they may
  wait for. What a batched channel asks waits in the transport's batch.
\<close>

definition asks :: "'a world \<Rightarrow> nat \<Rightarrow> bool" where
  "asks w i \<longleftrightarrow> ch_cid (chans w i) = None \<and> (ch_wait (chans w i) \<longrightarrow> c_authState w = AUTHENTICATED)"

lemma subscribe_queue:
  assumes "ch_batch (chans w i)" and "t_state (trs w t) = OPEN"
  shows "\<exists>v. transport_emit E t ''#subscribe'' (subscription_options E (chans w i))
      (Some (SubscribeCb i (subscription_options E (chans w i)))) True False True w = (Done (Some (c_cid w)), v)
    \<and> c_cid v = Suc (c_cid w) \<and> chans v = chans w \<and> out v = out w \<and> c_authState v = c_authState w
    \<and> t_batch (trs v t) = t_batch (trs w t) @ [subscribe_message E (chans w i) (c_cid w)] \<and> online E f t v = online E f t w"
  using assms(2)
  by (simp add: transport_emit_def new_event_def emitObject_def sendObject_def sendObjectBatch_def subscribe_message_def act_eval bnd_def
      online_def sends_def upd_ev_def)

lemma trySubscribe_step:
  assumes q: "quiet E" and c: "online E f t w"
  shows "\<exists>v. trySubscribe E i w = (Done (), v) \<and> online E f t v \<and> c_authState v = c_authState w
    \<and> (if asks w i
       then let m = subscribe_message E (chans w i) (c_cid w); batched = ch_batch (chans w i) in
         c_cid v = Suc (c_cid w) \<and> chans v = (chans w)(i := (chans w i)\<lparr>ch_cid := Some (c_cid w)\<rparr>)
         \<and> sents (out v) = sents (out w) @ (if batched then [] else [(t, f m)])
         \<and> t_batch (trs v t) = t_batch (trs w t) @ (if batched then [m] else [])
       else v = w)"
proof (cases "asks w i")
  case False
  then show ?thesis using c by (auto simp: trySubscribe_def look_def online_def asks_def skip_def ret_def)
next
  case True
  let ?so = "subscription_options E (chans w i)"
  show ?thesis
  proof (cases "ch_batch (chans w i)")
    case False
    then have "may_ask w i" using True by (simp add: asks_def may_ask_def)
    from does_run [OF trySubscribe_asks [OF q c this]]
    obtain v where v: "trySubscribe E i w = (Done (), v)" "logs [] (asked E f t i w) v" by blast
    show ?thesis
      using True False c by (intro exI [of _ v]) (simp add: v(1) logs_online [OF v(2)] logsD [OF v(2)] Let_def, simp add: asked_def)
  next
    case batched: True
    have o: "t_state (trs w t) = OPEN" using c by (simp add: online_def)
    from subscribe_queue [OF batched o, of E f]
    obtain u where u: "transport_emit E t ''#subscribe'' ?so (Some (SubscribeCb i ?so)) True False True w = (Done (Some (c_cid w)), u)"
      "c_cid u = Suc (c_cid w)" "chans u = chans w" "out u = out w" "c_authState u = c_authState w"
      "t_batch (trs u t) = t_batch (trs w t) @ [subscribe_message E (chans w i) (c_cid w)]" "online E f t u = online E f t w"
      by blast
    let ?u = "upd_chan i (\<lambda>c. c\<lparr>ch_cid := Some (c_cid w)\<rparr>) u"
    let ?k = "\<lambda>cid. steps [modify (upd_chan i (\<lambda>c. c\<lparr>ch_cid := cid\<rparr>)),
       emit_local E ''subscribeRequest'' [JStr (ch_name (chans w i)), ?so]]"
    have "trySubscribe E i w = bnd (transport_emit E t ''#subscribe'' ?so (Some (SubscribeCb i ?so)) True False True) ?k w"
      using True batched c by (simp add: trySubscribe_def look_def online_def asks_def on_transport_def bnd_def)
    also have "\<dots> = ?k (Some (c_cid w)) u" by (simp only: bnd_def u(1) prod.case res.case)
    also have "\<dots> = emit_local E ''subscribeRequest'' [JStr (ch_name (chans w i)), ?so] ?u" by (simp add: bnd_unit)
    finally have "trySubscribe E i w = emit_local E ''subscribeRequest'' [JStr (ch_name (chans w i)), ?so] ?u" .
    moreover from does_run [OF does_emit [OF q]]
    obtain v where v: "emit_local E ''subscribeRequest'' [JStr (ch_name (chans w i)), ?so] ?u = (Done (), v)" "logs [] ?u v" by blast
    moreover have "online E f t ?u = online E f t u" by (simp add: online_def sends_def)
    ultimately show ?thesis
      using True batched c u by (intro exI [of _ v]) (simp add: logs_online [OF v(2)] logsD [OF v(2)] Let_def)
  qed
qed

text \<open>The requests of a list of channels, from call id \<open>c\<close> on.\<close>

definition requests :: "'a env \<Rightarrow> 'a world \<Rightarrow> nat \<Rightarrow> nat list \<Rightarrow> (nat \<times> js) list" where
  "requests E w c is = map (\<lambda>(k, i). (i, subscribe_message E (chans w i) k)) (enumerate c is)"

definition sent_now :: "'a world \<Rightarrow> (nat \<times> js) list \<Rightarrow> js list" where
  "sent_now w rs = map snd (filter (\<lambda>(i, m). \<not> ch_batch (chans w i)) rs)"

definition batched :: "'a world \<Rightarrow> (nat \<times> js) list \<Rightarrow> js list" where
  "batched w rs = map snd (filter (\<lambda>(i, m). ch_batch (chans w i)) rs)"

lemma requests_Cons: "requests E w c (i # is) = (i, subscribe_message E (chans w i) c) # requests E w (Suc c) is"
  by (simp add: requests_def)

lemma requests_cong: "(\<And>i. i \<in> set is \<Longrightarrow> chans v i = chans w i) \<Longrightarrow> requests E v c is = requests E w c is"
  unfolding requests_def by (rule map_cong) (auto simp: in_set_enumerate_eq)

lemma split_cong:
  assumes "\<And>i. i \<in> set is \<Longrightarrow> chans v i = chans w i"
  shows "sent_now v (requests E w c is) = sent_now w (requests E w c is)" "batched v (requests E w c is) = batched w (requests E w c is)"
  using assms unfolding sent_now_def batched_def requests_def
  by (auto intro!: arg_cong [where f = "map snd"] filter_cong simp: in_set_enumerate_eq)

lemma each_asks:
  assumes q: "quiet E"
  shows "distinct is \<Longrightarrow> online E f t w \<Longrightarrow>
    \<exists>w'. each (trySubscribe E) is w = (Done (), w')
      \<and> sents (out w') = sents (out w) @ map (\<lambda>m. (t, f m)) (sent_now w (requests E w (c_cid w) (filter (asks w) is)))
      \<and> t_batch (trs w' t) = t_batch (trs w t) @ batched w (requests E w (c_cid w) (filter (asks w) is))
      \<and> (\<forall>k<length (filter (asks w) is). let i = filter (asks w) is ! k in chans w' i = (chans w i)\<lparr>ch_cid := Some (c_cid w + k)\<rparr>)
      \<and> (\<forall>i. i \<notin> set (filter (asks w) is) \<longrightarrow> chans w' i = chans w i)"
proof (induction "is" arbitrary: w)
  case Nil
  then show ?case by (simp add: ret_def requests_def sent_now_def batched_def)
next
  case (Cons i js)
  obtain v where v: "trySubscribe E i w = (Done (), v)" "online E f t v" "c_authState v = c_authState w"
    "if asks w i
     then let m = subscribe_message E (chans w i) (c_cid w); b = ch_batch (chans w i) in
       c_cid v = Suc (c_cid w) \<and> chans v = (chans w)(i := (chans w i)\<lparr>ch_cid := Some (c_cid w)\<rparr>)
       \<and> sents (out v) = sents (out w) @ (if b then [] else [(t, f m)])
       \<and> t_batch (trs v t) = t_batch (trs w t) @ (if b then [m] else [])
     else v = w"
    using trySubscribe_step [OF q Cons.prems(2), of i] by blast
  have i: "i \<notin> set js" "distinct js" using Cons.prems(1) by simp_all
  have ch: "chans v j = chans w j" if "j \<in> set js" for j using v(4) that i(1) by (auto simp: Let_def split: if_splits)
  have as: "filter (asks v) js = filter (asks w) js" by (rule filter_cong) (auto simp: asks_def ch v(3))
  have req: "requests E v c (filter (asks w) js) = requests E w c (filter (asks w) js)" for c
    by (rule requests_cong) (use ch in simp)
  have split: "sent_now v (requests E w c (filter (asks w) js)) = sent_now w (requests E w c (filter (asks w) js))"
    "batched v (requests E w c (filter (asks w) js)) = batched w (requests E w c (filter (asks w) js))" for c
    by (rule split_cong; use ch in simp)+
  obtain w' where w': "each (trySubscribe E) js v = (Done (), w')"
    "sents (out w') = sents (out v) @ map (\<lambda>m. (t, f m)) (sent_now w (requests E w (c_cid v) (filter (asks w) js)))"
    "t_batch (trs w' t) = t_batch (trs v t) @ batched w (requests E w (c_cid v) (filter (asks w) js))"
    "\<And>k. k < length (filter (asks w) js) \<Longrightarrow>
      chans w' (filter (asks w) js ! k) = (chans v (filter (asks w) js ! k))\<lparr>ch_cid := Some (c_cid v + k)\<rparr>"
    "\<And>j. j \<notin> set (filter (asks w) js) \<Longrightarrow> chans w' j = chans v j"
    using Cons.IH [OF i(2) v(2)] unfolding as req split Let_def by blast
  have run: "each (trySubscribe E) (i # js) w = (Done (), w')" using v(1) w'(1) by (simp add: bnd_def)
  show ?case
  proof (cases "asks w i")
    case False
    then have "v = w" using v(4) by simp
    then show ?thesis using run w' False by (intro exI [of _ w']) (simp add: Let_def)
  next
    case True
    let ?as = "filter (asks w) (i # js)"
    have f: "c_cid v = Suc (c_cid w)" "chans v = (chans w)(i := (chans w i)\<lparr>ch_cid := Some (c_cid w)\<rparr>)"
      using v(4) True by (simp_all add: Let_def)
    have "chans w' (?as ! k) = (chans w (?as ! k))\<lparr>ch_cid := Some (c_cid w + k)\<rparr>" if "k < length ?as" for k
    proof (cases k)
      case 0
      then show ?thesis using True w'(5) [of i] i(1) by (simp add: f)
    next
      case (Suc n)
      then have n: "n < length (filter (asks w) js)" using that True by simp
      then have "filter (asks w) js ! n \<noteq> i" using nth_mem [OF n] i(1) by auto
      then show ?thesis using Suc True w'(4) [OF n] by (simp add: f)
    qed
    moreover have "chans w' j = chans w j" if "j \<notin> set ?as" for j
      using that w'(5) [of j] True by (auto simp: f)
    ultimately show ?thesis
      using run w'(2,3) v(4) True f(1) by (intro exI [of _ w']) (auto simp: requests_Cons sent_now_def batched_def Let_def)
  qed
qed

lemma pending_channels_set:
  "set (pending_channels w) = {i \<in> registered w. ch_state (chans w i) = PENDING}"
proof -
  have "set (List.map_filter (map_of (c_channels w)) ns) = named ns w" for ns
    by (induction ns) (auto simp: List.map_filter_simps named_def split: option.split)
  then have "set (List.map_filter (map_of (c_channels w)) (key_order (map fst (c_channels w)))) = registered w"
    by (simp add: named_all)
  then show ?thesis by (auto simp: pending_channels_def)
qed

lemma sorted_pending: "sorted (map (\<lambda>i. - ch_priority (chans w i)) (pending_channels w))"
  by (simp add: pending_channels_def)

text \<open>
  C11: When the pending subscriptions are processed on an open connection, the pending channels
  are taken in descending order of priority, and those of them that can ask (no request of theirs
  is under way, and they do not wait for an authentication that is missing) ask exactly once,
  under consecutive call ids that they remember: their request is sent, or waits in the batch
  of the transport if the channel is batched. The others stay as they are, as do all other
  channels, and nothing else is sent. (Listeners only look.)
\<close>

theorem pending_ask_by_priority:
  assumes "quiet E" and "online E f t (w\<lparr>c_preparing := False\<rparr>)" and "distinct (pending_channels w)"
  shows "\<exists>w' is. processPendingSubscriptions E w = (Done (), w')
    \<and> distinct is \<and> set is = {i \<in> registered w. ch_state (chans w i) = PENDING}
    \<and> sorted (map (\<lambda>i. - ch_priority (chans w i)) is)
    \<and> sents (out w') = sents (out w) @ map (\<lambda>m. (t, f m)) (sent_now w (requests E w (c_cid w) (filter (asks w) is)))
    \<and> t_batch (trs w' t) = t_batch (trs w t) @ batched w (requests E w (c_cid w) (filter (asks w) is))
    \<and> (\<forall>k<length (filter (asks w) is). let i = filter (asks w) is ! k in chans w' i = (chans w i)\<lparr>ch_cid := Some (c_cid w + k)\<rparr>)
    \<and> (\<forall>i. i \<notin> set (filter (asks w) is) \<longrightarrow> chans w' i = chans w i)"
proof -
  let ?w = "w\<lparr>c_preparing := False\<rparr>" and ?is = "pending_channels w"
  have p: "pending_channels ?w = ?is" "asks ?w = asks w" "requests E ?w = requests E w" "sent_now ?w = sent_now w" "batched ?w = batched w"
    by (simp_all add: pending_channels_def asks_def requests_def sent_now_def batched_def fun_eq_iff)
  have "processPendingSubscriptions E w = each (trySubscribe E) ?is ?w"
    by (simp add: processPendingSubscriptions_def look_def p bnd_unit)
  then show ?thesis
    using each_asks [OF assms(1,3,2)] assms(3) sorted_pending [of w] pending_channels_set [of w]
    unfolding p by (intro exI [of _ "snd (each (trySubscribe E) ?is ?w)"] exI [of _ ?is]) auto
qed

definition demo_pending :: "unit world" where
  "demo_pending = demo_open\<lparr>c_channels := [(''a'', 0), (''b'', 1)], n_chans := 2,
     chans := (chans demo_open)(0 := demo_channel\<lparr>ch_name := ''a'', ch_priority := 1, ch_cid := None\<rparr>,
       1 := demo_channel\<lparr>ch_name := ''b'', ch_priority := 2, ch_cid := None\<rparr>)\<rparr>"

theorem pending_ask_by_priority_witness:
  "\<exists>w'. processPendingSubscriptions demo_env demo_pending = (Done (), w')
     \<and> ch_cid (chans w' 1) = Some 2 \<and> ch_cid (chans w' 0) = Some 3"
proof -
  let ?w = demo_pending
  have o: "online demo_env (\<lambda>_. ''{}'') 0 (?w\<lparr>c_preparing := False\<rparr>)"
    using demo_online(1) by (simp add: demo_pending_def online_def sends_def)
  have r: "registered ?w = {0, 1}" by (simp add: demo_pending_def registered_def)
  have c: "ch_state (chans ?w 0) = PENDING" "ch_state (chans ?w 1) = PENDING" "ch_priority (chans ?w 0) = 1"
    "ch_priority (chans ?w 1) = 2" "c_cid ?w = 2" "asks ?w 0" "asks ?w 1"
    by (simp_all add: demo_pending_def demo_channel_def demo_open_eq asks_def)
  have d: "distinct (pending_channels ?w)"
    by (simp add: demo_pending_def pending_channels_def demo_channel_def key_order_def List.map_filter_simps
        is_index_key_def is_digit_def)
  have p: "{i \<in> {0, 1}. ch_state (chans ?w i) = PENDING} = {0, 1}" using c by auto
  obtain w' ns where w': "processPendingSubscriptions demo_env ?w = (Done (), w')" "distinct ns" "set ns = {0, 1}"
    "sorted (map (\<lambda>i. - ch_priority (chans ?w i)) ns)"
    "\<forall>k<length (filter (asks ?w) ns). let i = filter (asks ?w) ns ! k in chans w' i = (chans ?w i)\<lparr>ch_cid := Some (c_cid ?w + k)\<rparr>"
    using pending_ask_by_priority [OF quiet_demo o d] unfolding r p by blast
  have "length ns = 2" using w'(2,3) distinct_card by fastforce
  then have ns: "ns = [1, 0]" using w'(2,3,4) c by (cases ns; cases "tl ns") (auto simp: doubleton_eq_iff)
  then have as: "filter (asks ?w) ns = [1, 0]" using c by simp
  have "chans w' 1 = (chans ?w 1)\<lparr>ch_cid := Some (c_cid ?w + 0)\<rparr>"
    using w'(5) unfolding as by (rule allE [of _ 0]) simp
  moreover have "chans w' 0 = (chans ?w 0)\<lparr>ch_cid := Some (c_cid ?w + 1)\<rparr>"
    using w'(5) unfolding as by (rule allE [of _ 1]) simp
  ultimately show ?thesis using w'(1) c by (intro exI [of _ w']) simp
qed

subsection \<open>Answers\<close>

lemma truthy_hydrate [simp]: "truthy (hydrateError s e) = truthy e"
  by (simp add: hydrateError_def split: js.split)

lemma find_call:
  assumes "distinct (map fst ps)" and "(c, e) \<in> set ps"
  shows "find (\<lambda>(cid, e). show_nat cid = show_nat c) ps = Some (c, e)"
  using assms by (induction ps) (force simp: show_nat_inject)+

text \<open>
  C12: A response to a pending subscription settles it: without an error the channel becomes
  subscribed (if it waits for authentication, on an authenticated client), with one it becomes
  unsubscribed; the listeners do nothing to the client. Either way the channel no longer waits for a
  response, the call is forgotten by the transport, so that a second response with the
  same id finds nothing, and nothing is sent.
\<close>

theorem subscription_answered:
  assumes "quiet E" and "distinct (map fst (t_cbs (trs w t)))" and "(c, e) \<in> set (t_cbs (trs w t))"
    and "ev_cb (evs w e) = Some (SubscribeCb i so)" and "ch_state (chans w i) = PENDING"
    and "ch_wait (chans w i) \<longrightarrow> c_authState w = AUTHENTICATED"
    and "truthy obj" and "nullish (get obj ''event'')" and "\<not> nullish (get obj ''rid'')"
    and "to_key E (get obj ''rid'') = show_nat c"
  shows "\<exists>w'. handleEventObject E t obj message w = (Done (), w')
     \<and> ch_state (chans w' i) = (if truthy (get obj ''error'') then UNSUBSCRIBED else SUBSCRIBED)
     \<and> ch_cid (chans w' i) = None \<and> t_cbs (trs w' t) = al_del c (t_cbs (trs w t))
     \<and> sents (out w') = sents (out w) \<and> (\<forall>j. j \<noteq> i \<longrightarrow> chans w' j = chans w j)"
proof -
  define v where "v = upd_chan i (\<lambda>c. c\<lparr>ch_cid := None\<rparr>) (forget t {c} (upd_ev e (\<lambda>ob. ob\<lparr>ev_timer := None\<rparr>) w))"
  let ?s = "if truthy (get obj ''error'') then UNSUBSCRIBED else SUBSCRIBED"
  let ?v = "upd_chan i (\<lambda>c. c\<lparr>ch_state := ?s\<rparr>) v"
  let ?m = "if truthy (hydrateError (to_key E) (get obj ''error''))
     then triggerChannelSubscribeFail E (hydrateError (to_key E) (get obj ''error'')) i so else triggerChannelSubscribe E i so"
  have run: "handleEventObject E t obj message w = ?m v"
    using assms(7-9) unfolding handleEventObject_def assms(10)
    by (simp add: look_def find_call [OF assms(2,3)] bnd_eval(1) [OF forget_one] assms(4) run_callback_def bnd_unit v_def)
  have c: "c_authState v = c_authState w" "chans v = (chans w)(i := (chans w i)\<lparr>ch_cid := None\<rparr>)" "out v = out w"
    "t_cbs (trs v t) = al_del c (t_cbs (trs w t))"
    by (simp_all add: v_def al_del_def)
  have d: "does ?m v [] ?v"
  proof (cases "truthy (get obj ''error'')")
    case True
    let ?err = "hydrateError (to_key E) (get obj ''error'')"
    let ?k = "steps [call_out E (ChanEmit i ''subscribeFail'' [?err, JStr (ch_name (chans v i)), so]),
          emit_local E ''subscribeFail'' [?err, JStr (ch_name (chans v i)), so]]"
    have "does ?k ?v [] ?v"
      by (rule does_calls) (auto intro: does_call [OF assms(1)] does_emit [OF assms(1)] simp: user_call_def)
    then show ?thesis
      using True assms(5,6) by (simp add: does_def triggerChannelSubscribeFail_def look_def c)
  next
    case False
    let ?d = "state_change (chans v i) SUBSCRIBED [(''subscriptionOptions'', so)]"
    let ?k = "steps [call_out E (ChanEmit i ''subscribeStateChange'' [?d]),
          call_out E (ChanEmit i ''subscribe'' [JStr (ch_name (chans v i)), so]),
          emit_local E ''subscribeStateChange'' [?d],
          emit_local E ''subscribe'' [JStr (ch_name (chans v i)), so]]"
    have "does ?k ?v [] ?v"
      by (rule does_calls) (auto intro: does_call [OF assms(1)] does_emit [OF assms(1)] simp: user_call_def)
    then show ?thesis
      using False assms(5,6) by (simp add: does_def triggerChannelSubscribe_def look_def c Let_def)
  qed
  obtain w' where "?m v = (Done (), w')" "logs [] ?v w'" using does_run [OF d] by blast
  then show ?thesis unfolding run
    by (intro exI [of _ w']) (simp add: logsD c)
qed

theorem subscription_answered_witness:
  "\<exists>w'. handleEventObject demo_env 0 (JObj [(''rid'', JNum (Fin 2))]) JNull demo_busy = (Done (), w')
     \<and> ch_state (chans w' 0) = SUBSCRIBED \<and> t_cbs (trs w' 0) = [(3, 2)]"
proof -
  let ?obj = "JObj [(''rid'', JNum (Fin 2))]"
  have s: "t_cbs (trs demo_busy 0) = [(3, 2), (2, 1)]" "ev_cb (evs demo_busy 1) = Some (SubscribeCb 0 demo_options)"
    "chans demo_busy 0 = demo_channel"
    by (simp_all add: demo_busy_eq demo_waiting_eq)
  note s = s s(2) [unfolded One_nat_def]
  have k: "to_key demo_env (get ?obj ''rid'') = show_nat 2" by (simp add: to_key_def show_int_def)
  show ?thesis
    using subscription_answered [OF quiet_demo, of demo_busy 0 2 1 0 demo_options ?obj JNull] k
    by (simp add: s demo_channel_def al_del_def) blast
qed

subsection \<open>Publications\<close>

lemma each_calls:
  assumes "quiet E"
  shows "\<exists>a. each (\<lambda>x. call_out E (g x)) xs w = (Done (), w\<lparr>out := out w @ map (\<lambda>x. Called (g x)) xs, app := a\<rparr>)"
proof (induction xs arbitrary: w)
  case Nil
  show ?case by (rule exI [of _ "app w"]) (simp add: ret_def)
next
  case (Cons x xs)
  obtain a where a: "lis E (g x) (log_out (Called (g x)) w) = (Done (), (log_out (Called (g x)) w)\<lparr>app := a\<rparr>)"
    using assms unfolding quiet_def by blast
  let ?v = "(log_out (Called (g x)) w)\<lparr>app := a\<rparr>"
  obtain b where b: "each (\<lambda>x. call_out E (g x)) xs ?v = (Done (), ?v\<lparr>out := out ?v @ map (\<lambda>x. Called (g x)) xs, app := b\<rparr>)"
    using Cons by blast
  have "call_out E (g x) w = (Done (), ?v)" by (simp add: call_out_def bnd_unit a)
  moreover have "?v\<lparr>out := out ?v @ map (\<lambda>x. Called (g x)) xs, app := b\<rparr>
      = w\<lparr>out := out w @ map (\<lambda>x. Called (g x)) (x # xs), app := b\<rparr>" by (simp add: log_out_def)
  ultimately show ?case using b by (intro exI [of _ b]) (simp add: bnd_eval(1))
qed

lemma undecorate_decorate [simp]: "undecorate E (decorateChannelName E n) = n"
  by (simp add: undecorate_def decorateChannelName_def)

text \<open>
  C16: A publication that another client made on channel \<open>n\<close> (under the name that
  \<open>_decorateChannelName\<close> gives it, with any channel prefix) is handed to the watchers of \<open>n\<close>
  and to no one else, each once and in the order in which they were registered, provided
  that the client is subscribed to \<open>n\<close> or its subscription is pending; otherwise nobody is
  called. Nothing else changes. (The watchers do nothing to the client.)
\<close>

theorem publication_reaches_watchers:
  assumes "quiet E" and "get data ''channel'' = JStr (decorateChannelName E n)"
  shows "\<exists>a. on_publish E data w = (Done (), w\<lparr>out := out w @
     (if isSubscribed n True w then map (\<lambda>g. Called (Watcher g (get data ''data''))) (watchers n w) else []), app := a\<rparr>)"
proof -
  have d: "\<not> nullish data" using assms(2) by (cases data) auto
  have run: "on_publish E data w = (if isSubscribed n True w
      then each (\<lambda>g. call_out E (Watcher g (get data ''data''))) (watchers n w) else skip) w"
    using d assms(2) by (simp add: on_publish_def undecorateChannelName_def look_def)
  show ?thesis
  proof (cases "isSubscribed n True w")
    case True
    then show ?thesis using each_calls [OF assms(1), of "\<lambda>g. Watcher g (get data ''data'')" "watchers n w" w]
      unfolding run by (simp only: if_True simp_thms)
  next
    case False
    show ?thesis unfolding run by (rule exI [of _ "app w"]) (simp add: False skip_def ret_def)
  qed
qed

theorem publication_reaches_watchers_witness:
  "\<exists>a. on_publish demo_env (JObj [(''channel'', JStr ''news''), (''data'', JStr ''x'')])
       (demo_waiting\<lparr>c_watch := on new_emitter ''news'' (Fn 5)\<rparr>)
     = (Done (), demo_waiting\<lparr>c_watch := on new_emitter ''news'' (Fn 5),
          out := out demo_waiting @ [Called (Watcher (Fn 5) (JStr ''x''))], app := a\<rparr>)"
proof -
  let ?w = "demo_waiting\<lparr>c_watch := on new_emitter ''news'' (Fn 5)\<rparr>"
  have s: "isSubscribed ''news'' True ?w" "watchers ''news'' ?w = [Fn 5]"
    by (simp_all add: isSubscribed_def demo_waiting_eq demo_channel_def watchers_def on_def listeners_def new_emitter_def)
  have d: "decorateChannelName demo_env ''news'' = ''news''"
    by (simp add: decorateChannelName_def demo_env_def default_env_def)
  let ?d = "JObj [(''channel'', JStr ''news''), (''data'', JStr ''x'')]"
  have c: "get ?d ''channel'' = JStr (decorateChannelName demo_env ''news'')" "get ?d ''data'' = JStr ''x''" by (simp_all add: d)
  obtain a where "on_publish demo_env ?d ?w = (Done (), ?w\<lparr>out := out ?w @ map (\<lambda>g. Called (Watcher g (JStr ''x''))) [Fn 5], app := a\<rparr>)"
    using publication_reaches_watchers [OF quiet_demo c(1), of ?w] by (simp only: s c(2) if_True) blast
  then show ?thesis by (intro exI [of _ a]) simp
qed

subsection \<open>Responses\<close>

text \<open>
  C21: A response object answers at most once: the first answer to a call that carries an id
  sends exactly one text, with that id, and marks the response as sent; every later answer,
  with or without an error, throws and sends nothing; a response to an event without an id
  never sends anything.
\<close>

theorem responds_once:
  assumes "sends E f (r_transport (resps w r)) w"
  shows "(truthy (r_id (resps w r)) \<and> \<not> r_sent (resps w r) \<longrightarrow>
      (\<exists>w' ps. response_callback E r err data w = (Done (), w')
        \<and> out w' = out w @ [Sent (r_transport (resps w r)) (f (JObj ((''rid'', r_id (resps w r)) # ps)))]
        \<and> r_sent (resps w' r)))
    \<and> (truthy (r_id (resps w r)) \<and> r_sent (resps w r) \<longrightarrow>
      (\<exists>e. response_callback E r err data w = (Raise e, w)))
    \<and> (\<not> truthy (r_id (resps w r)) \<longrightarrow> response_callback E r err data w = (Done (), w))"
proof (intro conjI impI)
  let ?t = "r_transport (resps w r)" and ?x = "resps w r"
  let ?w = "w\<lparr>resps := (resps w)(r := ?x\<lparr>r_sent := True\<rparr>)\<rparr>"
  {
    assume h: "truthy (r_id ?x) \<and> \<not> r_sent ?x"
    have "respond E r v w = (Done (), log_out (Sent ?t (f v)) ?w)" for v
      using assms h by (simp add: respond_def look_def sends_def send_def act_eval bnd_unit)
    then show "\<exists>w' ps. response_callback E r err data w = (Done (), w')
        \<and> out w' = out w @ [Sent ?t (f (JObj ((''rid'', r_id ?x) # ps)))] \<and> r_sent (resps w' r)"
      using h by (auto simp: response_callback_def response_error_def response_end_def look_def with_data_def log_out_def)
  next
    assume "truthy (r_id ?x) \<and> r_sent ?x"
    then show "\<exists>e. response_callback E r err data w = (Raise e, w)"
      by (simp add: response_callback_def response_error_def response_end_def look_def respond_def raise_def)
  next
    assume "\<not> truthy (r_id ?x)"
    then show "response_callback E r err data w = (Done (), w)"
      by (simp add: response_callback_def response_error_def response_end_def look_def skip_def ret_def)
  }
qed

definition demo_asked :: "unit world" where
  "demo_asked = demo_open\<lparr>resps := (resps demo_open)(0 := \<lparr>r_transport = 0, r_id = JNum (Fin 9), r_sent = False\<rparr>), n_resps := 1\<rparr>"

theorem responds_once_witness:
  "\<exists>w'. response_callback demo_env 0 JNull JNull demo_asked = (Done (), w') \<and> r_sent (resps w' 0)"
proof -
  have "sends demo_env (\<lambda>_. ''{}'') (r_transport (resps demo_asked 0)) demo_asked"
    using demo_online(1) by (simp add: demo_asked_def online_def sends_def)
  from responds_once [OF this, of JNull JNull] show ?thesis by (auto simp: demo_asked_def)
qed

end
