(* ===== verification/Sc_Flaws.thy ===== *)
theory Sc_Flaws
  imports Sc_Traffic
begin

text \<open>
  Runs in which the client does not do what it means to: a half-closed WebSocket, callbacks
  that call the client back while it closes, and an authentication without a status.
\<close>

subsection \<open>Runs\<close>

definition runs :: "'a env \<Rightarrow> input list \<Rightarrow> 'a world \<Rightarrow> 'a world" where
  "runs E is w = fold (\<lambda>i v. snd (run E i v)) is w"

lemma runs_Cons: "runs E (i # is) w = runs E is (snd (run E i w))" and runs_Nil: "runs E [] w = w"
  by (simp_all add: runs_def)

subsection \<open>Retrying from a failed callback\<close>

text \<open>
  Listeners that emit the event again from the callback that reports its failure. The client
  they call back has listeners that only look.
\<close>

definition retrying :: "'a env \<Rightarrow> 'a env" where
  "retrying E = E\<lparr>lis := (\<lambda>c. case c of UserCall n err d \<Rightarrow> emit_event E ''retry'' d (Some (UserCb n)) | _ \<Rightarrow> skip)\<rparr>"

lemma retrying_call [simp]:
  "lis (retrying E) (UserCall n err d) = emit_event E ''retry'' d (Some (UserCb n))"
  by (simp add: retrying_def)

text \<open>A buffer of at least two different events, all with the program's callbacks.\<close>

definition retry_state :: "nat \<Rightarrow> 'a world \<Rightarrow> bool" where
  "retry_state e w \<longleftrightarrow> c_state w \<noteq> OPEN \<and> hd (c_buffer w) = e \<and> 2 \<le> length (c_buffer w) \<and> distinct (c_buffer w)
     \<and> (\<forall>d\<in>set (c_buffer w). d < n_evs w \<and> ev_cid (evs w d) = None \<and> (\<exists>n. ev_cb (evs w d) = Some (UserCb n)))"

lemma connect_buffer:
  assumes "quiet E" and "c_state w \<noteq> OPEN"
  shows "\<exists>w'. connect E w = (Done (), w') \<and> c_buffer w' = c_buffer w \<and> evs w' = evs w \<and> n_evs w' = n_evs w \<and> c_state w' \<noteq> OPEN"
proof (cases "c_active w \<and> c_state w = CLOSED")
  case False
  then show ?thesis using assms(2)
    by (auto simp: connect_def look_def on_sc_error_def modify_def skip_def ret_def)
next
  case True
  define u where "u = (no_reconnect w)\<lparr>c_state := CONNECTING\<rparr>"
  have u: "c_buffer u = c_buffer w" "evs u = evs w" "n_evs u = n_evs w" "c_state u = CONNECTING"
    by (simp_all add: u_def no_reconnect_def)
  obtain v where v: "emit_local E ''connecting'' [] u = (Done (), v)" "logs [] u v"
    using does_run [OF does_emit [OF assms(1)]] by blast
  show ?thesis
    using True
    by (cases "c_transport v") (simp_all add: connect_def look_def u_def [symmetric] bnd_eval(1) v(1) bnd_unit
        modify_def skip_def ret_def logsD [OF v(2)] u log_out_def upd_tr_def)
qed

lemma emit_buffers:
  assumes "quiet E" and "c_state w \<noteq> OPEN"
  shows "\<exists>w'. emit_event E ev d cb w = (Done (), w') \<and> c_buffer w' = c_buffer w @ [n_evs w] \<and> n_evs w' = Suc (n_evs w)
     \<and> evs w' = (evs w)(n_evs w := \<lparr>ev_name = ev, ev_data = d, ev_cb = cb, ev_timer = Some NodeTimer, ev_cid = None\<rparr>)
     \<and> c_state w' \<noteq> OPEN"
proof -
  obtain v where v: "(if c_state w = CLOSED then connect E else skip) w = (Done (), v)" "c_buffer v = c_buffer w"
      "evs v = evs w" "n_evs v = n_evs w" "c_state v \<noteq> OPEN"
    using connect_buffer [OF assms] assms(2) by (cases "c_state w = CLOSED") (auto simp: skip_def ret_def)
  show ?thesis
    by (simp add: emit_event_def bnd_def look_def v new_event_def modify_def ret_def skip_def)
qed

lemma retry_step:
  assumes "quiet E" and "retry_state e w"
  shows "\<exists>w' d. retry_state d w' \<and> (\<forall>fuel. abort_buffer (retrying E) ft (Suc fuel) (Some e) w
     = abort_buffer (retrying E) ft fuel (Some d) w')"
proof -
  obtain d es where b: "c_buffer w = e # d # es"
    using assms(2) by (cases "c_buffer w"; cases "tl (c_buffer w)") (auto simp: retry_state_def)
  obtain n where n: "ev_cb (evs w e) = Some (UserCb n)" "ev_cid (evs w e) = None" "e < n_evs w"
    using assms(2) b by (auto simp: retry_state_def)
  let ?u = "upd_ev e (\<lambda>ob. ob\<lparr>ev_timer := None\<rparr>) w"
  let ?v = "upd_ev e (\<lambda>ob. ob\<lparr>ev_cb := None\<rparr>) (?u\<lparr>c_buffer := d # es\<rparr>)"
  let ?c = "UserCall n (aborted (evs ?u e) ft) (ev_js (evs ?u e))"
  let ?l = "log_out (Called ?c) ?v"
  have s: "c_state ?l \<noteq> OPEN" using assms(2) by (simp add: retry_state_def)
  obtain w' where w': "emit_event E ''retry'' (ev_js (evs ?u e)) (Some (UserCb n)) ?l = (Done (), w')"
     "c_buffer w' = d # es @ [n_evs w]" "n_evs w' = Suc (n_evs w)" "c_state w' \<noteq> OPEN"
     "evs w' = (evs ?v)(n_evs w := \<lparr>ev_name = ''retry'', ev_data = ev_js (evs ?u e), ev_cb = Some (UserCb n),
        ev_timer = Some NodeTimer, ev_cid = None\<rparr>)"
    using emit_buffers [OF assms(1) s, of "''retry''" "ev_js (evs ?u e)" "Some (UserCb n)"]
    by (auto simp: upd_ev_def log_out_def)
  have "retry_state d w'"
    using assms(2) b by (auto simp: retry_state_def w')
  moreover have "ev_cid (evs w' e) = None" using n by (simp add: w')
  moreover have "next_of (c_buffer w) e = Some d" using b by (simp add: head_of_def)
  ultimately show ?thesis
    using n w'(1) b
    by (intro exI [of _ w'] exI [of _ d])
      (simp add: look_def fail_callback_def call_out_def bnd_unit bnd_eval(1) skip_def ret_def)
qed

text \<open>
  C22: If the program's callbacks emit their event again when it fails, and two events or more
  wait in the buffer when the connection is lost, the loop that aborts the buffered events
  never ends, whatever the number of rounds: every aborted event is appended again behind
  the one whose successor was already read.
\<close>

theorem retrying_callbacks_never_end:
  assumes "quiet E" and "retry_state e w"
  shows "fst (abort_buffer (retrying E) ft fuel (Some e) w) = Stuck"
  using assms(2)
proof (induction fuel arbitrary: e w)
  case 0
  then show ?case by (simp add: stuck_def)
next
  case (Suc fuel)
  then show ?case using retry_step [OF assms(1) Suc.prems, of ft] by metis
qed

definition demo_two :: "unit world" where
  "demo_two = demo_open\<lparr>c_state := CLOSED, c_buffer := [1, 2], n_evs := 3,
     evs := (evs demo_open)(1 := \<lparr>ev_name = ''a'', ev_data = JNull, ev_cb = Some (UserCb 7), ev_timer = None, ev_cid = None\<rparr>,
       2 := \<lparr>ev_name = ''b'', ev_data = JNull, ev_cb = Some (UserCb 8), ev_timer = None, ev_cid = None\<rparr>)\<rparr>"

theorem retrying_callbacks_never_end_witness:
  "fst (abort_buffer (retrying demo_env) ''disconnect'' 1000 (Some 1) demo_two) = Stuck"
  by (rule retrying_callbacks_never_end [OF quiet_demo]) (simp add: retry_state_def demo_two_def)

subsection \<open>Authentication without a status\<close>

text \<open>
  When the server acknowledges \<open>#authenticate\<close> without an authentication status, a client
  that is not authenticated becomes authenticated with the token it sent: the status that
  \<open>authenticate\<close> makes up holds the name of the current state, \<open>unauthenticated\<close>, where a
  boolean is read, and that string is truthy.
\<close>

theorem missing_status_authenticates:
  assumes "quiet E" and "c_authState w = UNAUTHENTICATED" and "c_preparing w \<or> pending_channels w = []"
    and "\<not> truthy (fst (save_token E (authTokenName E) tok (auth_store w)))"
    and "extractAuthTokenData E tok = Inr v"
  shows "\<exists>w'. run_callback E (AuthCb tok None) JNull JUndef w = (Done (), w')
    \<and> c_authState w' = AUTHENTICATED \<and> c_signed w' = tok \<and> c_token w' = v"
proof -
  obtain err st where s: "save_token E (authTokenName E) tok (auth_store w) = (err, st)" "\<not> truthy err"
    using assms(4) by (cases "save_token E (authTokenName E) tok (auth_store w)") auto
  define u where "u = w\<lparr>auth_store := st, c_signed := tok, c_token := v, c_authState := AUTHENTICATED\<rparr>"
  have u: "c_authState u = AUTHENTICATED" "c_signed u = tok" "c_token u = v" "c_preparing u = c_preparing w"
    "pending_channels u = pending_channels w"
    by (simp_all add: u_def pending_channels_def)
  define m where "m = (if \<not> c_preparing u then processPendingSubscriptions E else skip)"
  have p: "m u = (Done (), u)"
    using assms(3) u by (auto simp: m_def processPendingSubscriptions_def skip_def ret_def bnd_def modify_def look_def pending_channels_def)
  let ?d = "JObj [(''oldState'', JStr (auth_name UNAUTHENTICATED)), (''newState'', JStr (auth_name AUTHENTICATED)),
                  (''signedAuthToken'', tok), (''authToken'', v)]"
  obtain v1 where v1: "emit_local E ''authStateChange'' [?d] u = (Done (), v1)" "logs [] u v1"
    using does_run [OF does_emit [OF assms(1)]] by blast
  obtain v2 where v2: "emit_local E ''authenticate'' [tok] v1 = (Done (), v2)" "logs [] v1 v2"
    using does_run [OF does_emit [OF assms(1)]] by blast
  have t: "truthy (get (auth_status E UNAUTHENTICATED JUndef) ''isAuthenticated'')"
    by (simp add: auth_status_def)
  have "changeToAuthenticatedState E tok (w\<lparr>auth_store := st\<rparr>) = (Done (), v2)"
  proof -
    have "changeToAuthenticatedState E tok (w\<lparr>auth_store := st\<rparr>)
        = bnd (bnd m
          (\<lambda>_. emit_local E ''authStateChange'' [?d])) (\<lambda>_. emit_local E ''authenticate'' [tok]) u"
      using assms(2,5)
      by (simp add: m_def changeToAuthenticatedState_def u_def look_def modify_def bnd_unit bnd_assoc)
    then show ?thesis by (simp add: bnd_eval(1) p v1(1) [simplified] v2(1))
  qed
  then have "run_callback E (AuthCb tok None) JNull JUndef w = (Done (), v2)"
    using assms(2) s t
    by (simp add: run_callback_def authenticated_def look_def bnd_def modify_def skip_def ret_def user_callback_def)
  moreover have "c_authState v2 = AUTHENTICATED \<and> c_signed v2 = tok \<and> c_token v2 = v"
    using u v1(2) v2(2) by (auto simp: logs_def)
  ultimately show ?thesis by blast
qed

theorem missing_status_authenticates_witness:
  "\<exists>w'. run_callback demo_env (AuthCb (JStr ''t'') None) JNull JUndef demo_open = (Done (), w')
    \<and> c_authState w' = AUTHENTICATED"
proof -
  let ?w = demo_open
  have p: "pending_channels ?w = []"
    by (simp add: pending_channels_def demo_open_eq initial_world_def List.map_filter_simps)
  have e: "extractAuthTokenData demo_env (JStr ''t'') = Inr JNull" "c_authState ?w = UNAUTHENTICATED"
     "\<not> truthy (fst (save_token demo_env (authTokenName demo_env) (JStr ''t'') (auth_store ?w)))"
    by (simp_all add: extractAuthTokenData_def demo_env_def default_env_def demo_open_eq initial_world_def saveToken_def nth_opt_eq split_on_no_sep)
  show ?thesis using missing_status_authenticates [OF quiet_demo e(2) _ e(3,1)] p by auto
qed

subsection \<open>A half-closed WebSocket\<close>

lemmas close_eval = on_close_def clear_timers_def on_sc_close_def suspendSubscriptions_def for_channels_def
  triggerChannelUnsubscribe_def cancelPendingSubscribeCallback_def abort_all_buffered_def
  abort_transport_def abort_call_def tryReconnect_def immediate_codes_def status_entry_def on_sc_error_def
  socketProtocolIgnoreStatuses_def socketProtocolErrorStatuses_def transport_close_def disconnect_def shut_def runs_Cons runs_Nil

text \<open>
  Disconnecting a connected client whose WebSocket is closing already, but has not reported
  it yet, does not keep it disconnected: the farewell event fails to be sent, which closes
  the transport with the code 1005 (closed without status), and that code schedules an
  immediate reconnection; the close that was asked for then finds the transport closed.
\<close>

theorem disconnect_reconnects:
  "(let w = runs demo_env [WsReady 0 False, Api (Disconnect JUndef JUndef)] demo_open
    in c_state w = CLOSED \<and> c_timer w = Some 0 \<and> c_active w \<and>
       c_state (runs demo_env [ReconnectTimer] w) = CONNECTING)"
  by (simp add: demo_open_eq demo_eval close_eval reconnect_timer_fires_def reconnect_delay_def Let_def)

definition demo_half :: "unit world" where
  "demo_half = snd (run demo_env (Api (Subscribe ''news'' JUndef)) (snd (run demo_env (WsReady 0 False) demo_open)))"

lemma demo_half_eq:
  "\<exists>d xs. sents xs = [] \<and> demo_half = demo_open\<lparr>c_state := CLOSED, c_id := JNull, c_pendingReconnect := True,
     c_pendingTimeout := Some 0, c_timer := Some 0, c_attempts := 1, c_channels := [(''news'', 0)], c_cid := 3,
     chans := (\<lambda>_. new_channel '''' JUndef)(0 := demo_channel\<lparr>ch_state := UNSUBSCRIBED\<rparr>), n_chans := 1,
     trs := (trs demo_open)(0 := (new_transport demo_env)\<lparr>t_state := CLOSED, t_ready := False, t_attached := False,
       t_ping_timer := None, t_conn_timer := False, t_pingTimeout := JNum (Fin 10000)\<rparr>),
     evs := (evs demo_open)(1 := \<lparr>ev_name = ''#subscribe'', ev_data = demo_options, ev_cb = None, ev_timer = None,
       ev_cid = Some 2\<rparr>), n_evs := 2, deferred := d, out := out demo_open @ xs\<rparr>"
  by (simp add: demo_half_def demo_open_eq demo_eval close_eval reconnect_delay_def Let_def subscribe_def add_channel_def
      new_channel_def setOptions_def trySubscribe_def subscription_options_def decorateChannelName_def
      key_order_def is_index_key_def is_digit_def fail_callback_def triggerChannelSubscribeFail_def aborted_def
      demo_channel_def demo_options_def)

lemma demo_half_channel:
  "c_channels demo_half = [(''news'', 0)]" "ch_state (chans demo_half 0) = UNSUBSCRIBED"
  "ch_cid (chans demo_half 0) = Some 2" "\<not> c_preparing demo_half"
proof -
  obtain d xs where h: "demo_half = demo_open\<lparr>c_state := CLOSED, c_id := JNull, c_pendingReconnect := True,
     c_pendingTimeout := Some 0, c_timer := Some 0, c_attempts := 1, c_channels := [(''news'', 0)], c_cid := 3,
     chans := (\<lambda>_. new_channel '''' JUndef)(0 := demo_channel\<lparr>ch_state := UNSUBSCRIBED\<rparr>), n_chans := 1,
     trs := (trs demo_open)(0 := (new_transport demo_env)\<lparr>t_state := CLOSED, t_ready := False, t_attached := False,
       t_ping_timer := None, t_conn_timer := False, t_pingTimeout := JNum (Fin 10000)\<rparr>),
     evs := (evs demo_open)(1 := \<lparr>ev_name = ''#subscribe'', ev_data = demo_options, ev_cb = None, ev_timer = None,
       ev_cid = Some 2\<rparr>), n_evs := 2, deferred := d, out := out demo_open @ xs\<rparr>"
    using demo_half_eq by blast
  show "c_channels demo_half = [(''news'', 0)]" "ch_state (chans demo_half 0) = UNSUBSCRIBED"
    "ch_cid (chans demo_half 0) = Some 2" "\<not> c_preparing demo_half"
    by (simp_all add: h demo_channel_def demo_open_eq initial_world_def)
qed

definition demo_reply3 :: js where
  "demo_reply3 = JObj [(''rid'', JNum (Fin 3)), (''data'', JObj [(''id'', JStr ''y''),
     (''pingTimeout'', JNum (Fin 10000)), (''isAuthenticated'', JBool False)])]"

definition demo_again :: "unit world" where
  "demo_again = runs demo_env [ReconnectTimer, WsOpen 1, WsMessage 1 demo_reply3] demo_half"

lemma demo_again_eq:
  "\<exists>xs. sents xs = [(1, ''{}'')] \<and> demo_again = demo_half\<lparr>c_state := OPEN, c_id := JStr ''y'', c_pendingReconnect := False,
     c_pendingTimeout := None, c_timer := None, c_attempts := 0, c_pingTimeout := JNum (Fin 10000), c_cid := 4,
     c_transport := Some 1,
     trs := (trs demo_half)(1 := (new_transport demo_env)\<lparr>t_state := OPEN, t_ready := True, t_conn_timer := False,
       t_ping_timer := Some (JNum (Fin 10000)), t_pingTimeout := JNum (Fin 10000)\<rparr>), n_trs := 2,
     evs := (evs demo_half)(2 := \<lparr>ev_name = ''#handshake'', ev_data = JObj [(''authToken'', JNull)],
       ev_cb = Some (HandshakeCb 1 JNull), ev_timer = None, ev_cid = Some 3\<rparr>), n_evs := 3, out := out demo_half @ xs\<rparr>"
proof -
  have k: "show_nat 3 = to_key E (JNum (Fin 3))" for E :: "unit env"
    by (simp add: to_key_def show_int_def)
  obtain d xs where x: "sents xs = []" and h: "demo_half = demo_open\<lparr>c_state := CLOSED, c_id := JNull, c_pendingReconnect := True,
     c_pendingTimeout := Some 0, c_timer := Some 0, c_attempts := 1, c_channels := [(''news'', 0)], c_cid := 3,
     chans := (\<lambda>_. new_channel '''' JUndef)(0 := demo_channel\<lparr>ch_state := UNSUBSCRIBED\<rparr>), n_chans := 1,
     trs := (trs demo_open)(0 := (new_transport demo_env)\<lparr>t_state := CLOSED, t_ready := False, t_attached := False,
       t_ping_timer := None, t_conn_timer := False, t_pingTimeout := JNum (Fin 10000)\<rparr>),
     evs := (evs demo_open)(1 := \<lparr>ev_name = ''#subscribe'', ev_data = demo_options, ev_cb = None, ev_timer = None,
       ev_cid = Some 2\<rparr>), n_evs := 2, deferred := d, out := out demo_open @ xs\<rparr>"
    using demo_half_eq by blast
  show ?thesis unfolding demo_again_def
    by (simp add: h demo_open_eq demo_eval runs_Cons runs_Nil reconnect_timer_fires_def
        demo_channel_def demo_reply3_def key_order_def is_index_key_def is_digit_def List.map_filter_simps k x)
qed

lemma try_blocked: "ch_cid (chans w i) \<noteq> None \<Longrightarrow> trySubscribe E i w = (Done (), w)"
  by (auto simp: trySubscribe_def look_def skip_def ret_def)

lemma subscribe_blocked:
  "map_of (c_channels w) n = Some i \<Longrightarrow> ch_state (chans w i) = UNSUBSCRIBED \<Longrightarrow> ch_cid (chans w i) \<noteq> None \<Longrightarrow>
   subscribe E n JUndef w = (Done i, upd_chan i (\<lambda>c. c\<lparr>ch_state := PENDING\<rparr>) w)"
  by (simp add: subscribe_def look_def bnd_def ret_def modify_def try_blocked del: not_None_eq)

lemma pending_blocked:
  "\<forall>i\<in>set (pending_channels w). ch_cid (chans w i) \<noteq> None \<Longrightarrow> \<not> c_preparing w \<Longrightarrow>
   processPendingSubscriptions E w = (Done (), w)"
proof -
  have skips: "(\<forall>i\<in>set is. ch_cid (chans w i) \<noteq> None) \<Longrightarrow> each (trySubscribe E) is w = (Done (), w)" for "is"
    by (induction "is") (simp_all add: ret_def bnd_def try_blocked del: not_None_eq)
  assume a: "\<forall>i\<in>set (pending_channels w). ch_cid (chans w i) \<noteq> None" "\<not> c_preparing w"
  then have "w\<lparr>c_preparing := False\<rparr> = w" by simp
  then show ?thesis using skips [OF a(1)] by (simp add: processPendingSubscriptions_def bnd_unit look_def)
qed

text \<open>
  Subscribing while the WebSocket is half closed blocks the channel. The request fails
  (which unsubscribes the channel and schedules a reconnection), but its call id is stored
  in the channel afterwards, and it is never cleared. After the reconnection has succeeded,
  subscribing makes the channel pending without sending a request: the only text sent on
  the new connection is the handshake, no response is awaited, and processing the pending
  subscriptions again changes nothing.
\<close>

theorem half_open_subscribe_blocks_channel:
  "\<exists>w. runs demo_env [ReconnectTimer, WsOpen 1, WsMessage 1 demo_reply3, Api (Subscribe ''news'' JUndef)] demo_half = w
     \<and> c_state w = OPEN \<and> c_transport w = Some 1 \<and> t_ready (trs w 1) \<and> t_cbs (trs w 1) = []
     \<and> ch_state (chans w 0) = PENDING \<and> ch_cid (chans w 0) = Some 2
     \<and> sents (out w) = sents (out demo_half) @ [(1, ''{}'')] \<and> runs demo_env [Api ProcessPending] w = w"
proof -
  obtain xs where a: "sents xs = [(1, ''{}'')]" "demo_again = demo_half\<lparr>c_state := OPEN, c_id := JStr ''y'', c_pendingReconnect := False,
     c_pendingTimeout := None, c_timer := None, c_attempts := 0, c_pingTimeout := JNum (Fin 10000), c_cid := 4,
     c_transport := Some 1,
     trs := (trs demo_half)(1 := (new_transport demo_env)\<lparr>t_state := OPEN, t_ready := True, t_conn_timer := False,
       t_ping_timer := Some (JNum (Fin 10000)), t_pingTimeout := JNum (Fin 10000)\<rparr>), n_trs := 2,
     evs := (evs demo_half)(2 := \<lparr>ev_name = ''#handshake'', ev_data = JObj [(''authToken'', JNull)],
       ev_cb = Some (HandshakeCb 1 JNull), ev_timer = None, ev_cid = Some 3\<rparr>), n_evs := 3, out := out demo_half @ xs\<rparr>"
    using demo_again_eq by blast

  have f: "c_channels demo_again = [(''news'', 0)]" "ch_state (chans demo_again 0) = UNSUBSCRIBED"
    "ch_cid (chans demo_again 0) = Some 2" "\<not> c_preparing demo_again" "c_state demo_again = OPEN"
    "c_transport demo_again = Some 1" "t_ready (trs demo_again 1)" "t_cbs (trs demo_again 1) = []"
    "sents (out demo_again) = sents (out demo_half) @ [(1, ''{}'')]"
    by (simp_all add: a demo_half_channel new_transport_def)
  let ?w = "upd_chan 0 (\<lambda>c. c\<lparr>ch_state := PENDING\<rparr>) demo_again"
  have b: "subscribe demo_env ''news'' JUndef demo_again = (Done 0, ?w)"
    by (rule subscribe_blocked) (simp_all add: f)
  have "runs demo_env [ReconnectTimer, WsOpen 1, WsMessage 1 demo_reply3, Api (Subscribe ''news'' JUndef)] demo_half
      = snd (run demo_env (Api (Subscribe ''news'' JUndef)) demo_again)"
    by (simp only: demo_again_def runs_Cons runs_Nil)
  also have "\<dots> = ?w" by (simp add: bnd_eval(1) b skip_def ret_def)
  finally have r: "runs demo_env [ReconnectTimer, WsOpen 1, WsMessage 1 demo_reply3, Api (Subscribe ''news'' JUndef)]
      demo_half = ?w" .
  have "registered ?w = {0}" by (simp add: registered_def f)
  then have "\<forall>i\<in>set (pending_channels ?w). ch_cid (chans ?w i) \<noteq> None"
    by (simp add: pending_channels_set f)
  moreover have "\<not> c_preparing ?w" by (simp add: f)
  ultimately have "processPendingSubscriptions demo_env ?w = (Done (), ?w)" by (rule pending_blocked)
  then have "runs demo_env [Api ProcessPending] ?w = ?w" by (simp add: runs_Cons runs_Nil)
  then show ?thesis unfolding r using f(7,8) by (simp add: f)
qed

subsection \<open>Closing from a callback that timed out\<close>

text \<open>A program whose callbacks disconnect the client when their call timed out.\<close>

definition giving_up :: "'a env \<Rightarrow> 'a env" where
  "giving_up E = E\<lparr>lis := (\<lambda>c. case c of UserCall n err d \<Rightarrow> disconnect E JUndef JUndef | _ \<Rightarrow> skip)\<rparr>"

lemma giving_up_call [simp]: "lis (giving_up E) (UserCall n err d) = disconnect E JUndef JUndef"
  by (simp add: giving_up_def)

text \<open>
  Disconnecting from the callback of a call that timed out throws a TypeError inside the
  transport: the call is still registered there, without its callback. The client shows
  closed and will not reconnect, but the WebSocket was never closed, so that the
  connection to the server stays up without a client.
\<close>

theorem disconnect_on_timeout_leaks_socket:
  "\<exists>w. run (giving_up demo_env) (AckTimer 2) demo_busy = (Raise TypeError, w)
     \<and> c_state w = CLOSED \<and> t_state (trs w 0) = CLOSED \<and> \<not> t_attached (trs w 0) \<and> t_ready (trs w 0) \<and> c_timer w = None
     \<and> (\<forall>code. Shut 0 code \<notin> set (out w))"
  by (simp add: demo_busy_eq demo_waiting_eq demo_open_eq ack_timeout_def node_timeout_def demo_eval close_eval Let_def
      demo_channel_def key_order_def is_index_key_def is_digit_def)

end
