(* ===== verification/Querystring.thy ===== *)
theory Querystring
  imports Prelude
begin

text \<open>
  The \<open>querystring\<close> package (modules 16 to 18 of \<open>socketcluster.js\<close>) with its default
  separators, on the language's \<open>encodeURIComponent\<close> and \<open>decodeURIComponent\<close> for characters
  below 256. A decoded text with other characters is not modelled: it is \<open>Beyond\<close>.
\<close>

subsection \<open>Percent encoding\<close>

definition upper_hex :: "nat \<Rightarrow> char" where
  "upper_hex n = ''0123456789ABCDEF'' ! n"

definition unreserved :: string where
  "unreserved = ''ABCDEFGHIJKLMNOPQRSTUVWXYZabcdefghijklmnopqrstuvwxyz0123456789-_.!~*()'' @ [CHR 0x27]"

definition pct :: "nat \<Rightarrow> string" where
  "pct n = [CHR ''%'', upper_hex (n div 16), upper_hex (n mod 16)]"

definition encode_char :: "char \<Rightarrow> string" where
  "encode_char c =
     (if c \<in> set unreserved then [c]
      else if of_char c < (128 :: nat) then pct (of_char c)
      else pct (0xC0 + of_char c div 64) @ pct (0x80 + of_char c mod 64))"

definition encodeURIComponent :: "string \<Rightarrow> string" where
  "encodeURIComponent s = concat (map encode_char s)"

datatype uri_text = Plain string | Malformed | Beyond

fun put :: "char \<Rightarrow> uri_text \<Rightarrow> uri_text" where
  "put c (Plain s) = Plain (c # s)"
| "put c Malformed = Malformed"
| "put c Beyond = Beyond"

definition hex_value :: "char \<Rightarrow> nat option" where
  "hex_value c =
     (let n = of_char c :: nat in
      if 48 \<le> n \<and> n \<le> 57 then Some (n - 48) else if 65 \<le> n \<and> n \<le> 70 then Some (n - 55)
      else if 97 \<le> n \<and> n \<le> 102 then Some (n - 87) else None)"

definition hex_byte :: "char \<Rightarrow> char \<Rightarrow> nat option" where
  "hex_byte a b = (case (hex_value a, hex_value b) of (Some x, Some y) \<Rightarrow> Some (16 * x + y) | _ \<Rightarrow> None)"

fun decodeURIComponent :: "string \<Rightarrow> uri_text" where
  "decodeURIComponent [] = Plain []"
| "decodeURIComponent (c # s) =
     (if c \<noteq> CHR ''%'' then put c (decodeURIComponent s)
      else case s of a # b # s' \<Rightarrow>
          (case hex_byte a b of None \<Rightarrow> Malformed
           | Some n \<Rightarrow>
               if n < 0x80 then put (char_of n) (decodeURIComponent s')
               else if n < 0xC2 \<or> 0xF4 < n then Malformed
               else if 0xC3 < n then Beyond
               else (case s' of p # a' # b' # s'' \<Rightarrow>
                       if p \<noteq> CHR ''%'' then Malformed
                       else (case hex_byte a' b' of None \<Rightarrow> Malformed
                         | Some k \<Rightarrow> if 0x80 \<le> k \<and> k < 0xC0
                             then put (char_of ((n - 0xC0) * 64 + (k - 0x80))) (decodeURIComponent s'') else Malformed)
                     | _ \<Rightarrow> Malformed))
        | _ \<Rightarrow> Malformed)"

subsection \<open>Stringify\<close>

fun stringifyPrimitive :: "(rat \<Rightarrow> string) \<Rightarrow> js \<Rightarrow> string" where
  "stringifyPrimitive fmt (JStr s) = s"
| "stringifyPrimitive fmt (JBool b) = (if b then ''true'' else ''false'')"
| "stringifyPrimitive fmt (JNum n) = (case n of Fin q \<Rightarrow> num_to_string fmt n | _ \<Rightarrow> '''')"
| "stringifyPrimitive fmt _ = ''''"

fun join :: "string \<Rightarrow> string list \<Rightarrow> string" where
  "join sep [] = []"
| "join sep [x] = x"
| "join sep (x # y # xs) = x @ sep @ join sep (y # xs)"

definition pair :: "string \<Rightarrow> string \<Rightarrow> string" where
  "pair k v = encodeURIComponent k @ ''='' @ encodeURIComponent v"

text \<open>The own enumerable properties, in the order of \<open>Object.keys\<close>.\<close>

definition entries :: "js \<Rightarrow> (string \<times> js) list" where
  "entries v = (case v of JObj ps \<Rightarrow> map (\<lambda>k. (k, get v k)) (key_order (map fst ps))
     | JArr vs \<Rightarrow> map (\<lambda>i. (show_nat i, vs ! i)) [0..<length vs] | _ \<Rightarrow> [])"

definition encode_entry :: "(rat \<Rightarrow> string) \<Rightarrow> string \<times> js \<Rightarrow> string" where
  "encode_entry fmt = (\<lambda>(k, v). case v of JArr vs \<Rightarrow> join ''&'' (map (\<lambda>v. pair k (stringifyPrimitive fmt v)) vs)
     | _ \<Rightarrow> pair k (stringifyPrimitive fmt v))"

definition qs_encode :: "(rat \<Rightarrow> string) \<Rightarrow> js \<Rightarrow> string \<Rightarrow> string" where
  "qs_encode fmt obj name =
     (if typeof_js obj = ''object'' \<and> obj \<noteq> JNull then join ''&'' (map (encode_entry fmt) (entries obj))
      else if name = '''' then '''' else pair name (stringifyPrimitive fmt (if obj = JNull then JUndef else obj)))"

subsection \<open>Parse\<close>

definition plus_to_space :: "string \<Rightarrow> string" where
  "plus_to_space s = concat (map (\<lambda>c. if c = CHR ''+'' then ''%20'' else [c]) s)"

text \<open>The part before the first \<open>=\<close> and the part behind it.\<close>

fun split_eq :: "string \<Rightarrow> string \<times> string" where
  "split_eq [] = ([], [])"
| "split_eq (c # s) = (if c = CHR ''='' then ([], s) else (let (k, v) = split_eq s in (c # k, v)))"

text \<open>
  One more value for a key. Assigning a text to \<open>__proto__\<close> has no effect and makes no own
  property.
\<close>

definition add_value :: "string \<Rightarrow> string \<Rightarrow> (string \<times> js) list \<Rightarrow> (string \<times> js) list" where
  "add_value k v ps =
     (case map_of ps k of
        None \<Rightarrow> if k = ''__proto__'' then ps else al_set k (JStr v) ps
      | Some (JArr vs) \<Rightarrow> al_set k (JArr (vs @ [JStr v])) ps
      | Some w \<Rightarrow> al_set k (JArr [w, JStr v]) ps)"

datatype parsed = Parsed "(string \<times> js) list" | Failed | Outside

definition parse_part :: "string \<Rightarrow> (string \<times> js) list \<Rightarrow> parsed" where
  "parse_part x ps =
     (case split_eq (plus_to_space x) of (k, v) \<Rightarrow>
        (case decodeURIComponent k of Malformed \<Rightarrow> Failed | Beyond \<Rightarrow> Outside
         | Plain k \<Rightarrow> (case decodeURIComponent v of Malformed \<Rightarrow> Failed | Beyond \<Rightarrow> Outside
            | Plain v \<Rightarrow> Parsed (add_value k v ps))))"

fun parse_parts :: "string list \<Rightarrow> (string \<times> js) list \<Rightarrow> parsed" where
  "parse_parts [] ps = Parsed ps"
| "parse_parts (x # xs) ps = (case parse_part x ps of Parsed ps' \<Rightarrow> parse_parts xs ps' | r \<Rightarrow> r)"

definition qs_decode :: "js \<Rightarrow> int \<Rightarrow> parsed" where
  "qs_decode qs maxKeys =
     (case qs of JStr s \<Rightarrow>
        if s = '''' then Parsed []
        else (let xs = split_on (CHR ''&'') s
              in parse_parts (if maxKeys > 0 \<and> int (length xs) > maxKeys then take (nat maxKeys) xs else xs) [])
      | _ \<Rightarrow> Parsed [])"

subsection \<open>Encoded texts\<close>

lemma upper_hex_set: "n < 16 \<Longrightarrow> upper_hex n \<in> set ''0123456789ABCDEF''"
  unfolding upper_hex_def by (rule nth_mem) simp

lemma hex_value_upper: "n < 16 \<Longrightarrow> hex_value (upper_hex n) = Some n"
proof -
  assume "n < 16"
  then have "n \<in> {0, 1, 2, 3, 4, 5, 6, 7, 8, 9, 10, 11, 12, 13, 14, 15}" by (simp only: insert_iff empty_iff) presburger
  then show ?thesis by (elim insertE emptyE) (simp_all add: hex_value_def upper_hex_def Let_def)
qed

lemma hex_byte_pct: "n < 256 \<Longrightarrow> hex_byte (upper_hex (n div 16)) (upper_hex (n mod 16)) = Some n"
  by (simp add: hex_byte_def hex_value_upper less_mult_imp_div_less)

lemma pct_set: "n < 256 \<Longrightarrow> set (pct n) \<subseteq> insert (CHR ''%'') (set ''0123456789ABCDEF'')"
  using upper_hex_set [of "n div 16"] upper_hex_set [of "n mod 16"]
  by (simp add: pct_def less_mult_imp_div_less del: list.set(2)) (simp only: list.set insert_subset empty_subsetI simp_thms insert_iff)

lemma char_code: "(of_char c :: nat) < 256"
  using of_char_mod_256 [of c, where ?'a = nat] by (metis mod_less_divisor zero_less_numeral)

definition uri_chars :: "char set" where
  "uri_chars = insert (CHR ''%'') (set unreserved)"

lemma uri_chars_sep: "CHR ''&'' \<notin> uri_chars" "CHR ''='' \<notin> uri_chars" "CHR ''+'' \<notin> uri_chars"
  by (simp_all add: uri_chars_def unreserved_def)

lemma pct_uri: "n < 256 \<Longrightarrow> set (pct n) \<subseteq> uri_chars"
  by (rule order_trans [OF pct_set]) (auto simp: uri_chars_def unreserved_def)

lemma encode_char_uri: "set (encode_char c) \<subseteq> uri_chars"
proof -
  have n: "of_char c div 64 < (4 :: nat)" using char_code [of c] by (simp add: less_mult_imp_div_less)
  show ?thesis using char_code [of c] pct_uri [of "of_char c"] pct_uri [of "0xC0 + of_char c div 64"] pct_uri [of "0x80 + of_char c mod 64"] n
    by (simp add: encode_char_def) (simp add: uri_chars_def)
qed

lemma encoded_uri: "set (encodeURIComponent s) \<subseteq> uri_chars"
  using encode_char_uri by (auto simp: encodeURIComponent_def)

lemma decode_byte: "n < 128 \<Longrightarrow> decodeURIComponent (pct n @ t) = put (char_of n) (decodeURIComponent t)"
  by (simp add: pct_def hex_byte_pct)

lemma decode_two_bytes:
  assumes "n = 0xC2 \<or> n = 0xC3" and "k < 64"
  shows "decodeURIComponent (pct n @ pct (0x80 + k) @ t) = put (char_of ((n - 0xC0) * 64 + k)) (decodeURIComponent t)"
proof -
  have "hex_byte (upper_hex (n div 16)) (upper_hex (n mod 16)) = Some n"
    "hex_byte (upper_hex ((0x80 + k) div 16)) (upper_hex ((0x80 + k) mod 16)) = Some (0x80 + k)"
    using assms by (auto intro!: hex_byte_pct)
  then show ?thesis using assms by (auto simp: pct_def simp del: mod_add_self1 div_add_self1)
qed

lemma decode_encode_char: "decodeURIComponent (encode_char c @ t) = put c (decodeURIComponent t)"
proof (cases "c \<in> set unreserved")
  case True
  then have "c \<noteq> CHR ''%''" by (auto simp: unreserved_def)
  then show ?thesis using True by (simp add: encode_char_def)
next
  case False
  show ?thesis
  proof (cases "of_char c < (128 :: nat)")
    case True
    then show ?thesis using False decode_byte [OF True] by (simp add: encode_char_def)
  next
    case high: False
    let ?n = "of_char c :: nat"
    have "2 \<le> ?n div 64" "?n div 64 < 4" using high char_code [of c] div_le_mono [of 128 ?n 64]
      by (simp_all add: less_mult_imp_div_less)
    then have "0xC0 + ?n div 64 = 0xC2 \<or> 0xC0 + ?n div 64 = 0xC3" by auto
    from decode_two_bytes [OF this, of "?n mod 64" t] show ?thesis
      using False high by (simp add: encode_char_def)
  qed
qed

lemma decode_encode: "decodeURIComponent (encodeURIComponent s) = Plain s"
  by (induction s) (simp_all add: encodeURIComponent_def decode_encode_char)

subsection \<open>Parsing what was stringified\<close>

lemma no_plus: "CHR ''+'' \<notin> set s \<Longrightarrow> plus_to_space s = s"
  by (induction s) (auto simp: plus_to_space_def)

lemma split_eq_append: "CHR ''='' \<notin> set k \<Longrightarrow> split_eq (k @ CHR ''='' # v) = (k, v)"
  by (induction k) auto

lemma encoded_seps: "CHR ''&'' \<notin> set (encodeURIComponent s)" "CHR ''='' \<notin> set (encodeURIComponent s)"
    "CHR ''+'' \<notin> set (encodeURIComponent s)"
  using encoded_uri [of s] uri_chars_sep by auto

lemma pair_no_amp: "CHR ''&'' \<notin> set (pair k v)"
  using encoded_seps by (simp add: pair_def)

lemma parse_pair: "parse_part (pair k v) ps = Parsed (add_value k v ps)"
proof -
  have "plus_to_space (pair k v) = pair k v" by (rule no_plus) (simp add: pair_def encoded_seps)
  moreover have "split_eq (pair k v) = (encodeURIComponent k, encodeURIComponent v)"
    by (simp add: pair_def split_eq_append encoded_seps)
  ultimately show ?thesis by (simp add: parse_part_def decode_encode)
qed

lemma parse_pairs:
  "parse_parts (map (\<lambda>(k, v). pair k v) kvs) ps = Parsed (fold (\<lambda>(k, v). add_value k v) kvs ps)"
  by (induction kvs arbitrary: ps) (auto simp: parse_pair)

lemma split_join: "xs \<noteq> [] \<Longrightarrow> (\<And>x. x \<in> set xs \<Longrightarrow> CHR ''&'' \<notin> set x) \<Longrightarrow> split_on (CHR ''&'') (join ''&'' xs) = xs"
proof (induction xs)
  case (Cons x xs)
  then show ?case by (cases xs) (simp_all add: split_on_no_sep split_on_append_sep)
qed simp

lemma join_append: "xs \<noteq> [] \<Longrightarrow> ys \<noteq> [] \<Longrightarrow> join sep (xs @ ys) = join sep xs @ sep @ join sep ys"
proof (induction xs)
  case (Cons x xs)
  then show ?case by (cases xs) (auto simp: neq_Nil_conv)
qed simp

lemma join_concat: "(\<And>xs. xs \<in> set xss \<Longrightarrow> xs \<noteq> []) \<Longrightarrow> join sep (map (join sep) xss) = join sep (concat xss)"
proof (induction xss)
  case (Cons xs xss)
  show ?case
  proof (cases xss)
    case (Cons ys yss)
    with Cons.prems have "concat xss \<noteq> []" "xs \<noteq> []" by auto
    then show ?thesis using Cons Cons.IH Cons.prems by (simp add: join_append)
  qed simp
qed simp

text \<open>The key-value pairs that an entry contributes to the text.\<close>

definition segments :: "(rat \<Rightarrow> string) \<Rightarrow> string \<times> js \<Rightarrow> (string \<times> string) list" where
  "segments fmt = (\<lambda>(k, v). case v of JArr vs \<Rightarrow> map (\<lambda>v. (k, stringifyPrimitive fmt v)) vs
     | _ \<Rightarrow> [(k, stringifyPrimitive fmt v)])"

lemma encode_segments: "encode_entry fmt e = join ''&'' (map (\<lambda>(k, v). pair k v) (segments fmt e))"
  by (cases e) (auto simp: encode_entry_def segments_def comp_def split: js.split)

lemma decode_segments:
  assumes "typeof_js obj = ''object''" and "obj \<noteq> JNull" and "\<And>e. e \<in> set (entries obj) \<Longrightarrow> segments fmt e \<noteq> []"
    and "maxKeys \<le> 0 \<or> int (length (concat (map (segments fmt) (entries obj)))) \<le> maxKeys"
  shows "qs_decode (JStr (qs_encode fmt obj name)) maxKeys
    = Parsed (fold (\<lambda>(k, v). add_value k v) (concat (map (segments fmt) (entries obj))) [])"
proof (cases "entries obj = []")
  case True
  then show ?thesis using assms(1,2) by (simp add: qs_encode_def qs_decode_def)
next
  case False
  let ?kvs = "concat (map (segments fmt) (entries obj))" and ?pair = "\<lambda>(k, v). pair k v"
  have "encode_entry fmt = join ''&'' \<circ> (\<lambda>e. map ?pair (segments fmt e))" by (auto simp: encode_segments)
  then have "qs_encode fmt obj name = join ''&'' (map (join ''&'') (map (\<lambda>e. map ?pair (segments fmt e)) (entries obj)))"
    using assms(1,2) by (simp add: qs_encode_def)
  also have "\<dots> = join ''&'' (concat (map (\<lambda>e. map ?pair (segments fmt e)) (entries obj)))"
    using assms(3) by (intro join_concat) auto
  also have "concat (map (\<lambda>e. map ?pair (segments fmt e)) (entries obj)) = map ?pair ?kvs"
    by (simp add: map_concat comp_def)
  finally have shown: "qs_encode fmt obj name = join ''&'' (map ?pair ?kvs)" .
  have ne: "?kvs \<noteq> []" using False assms(3) by (cases "entries obj") auto
  have parts: "split_on (CHR ''&'') (join ''&'' (map ?pair ?kvs)) = map ?pair ?kvs"
    by (rule split_join) (use ne in \<open>auto simp: pair_no_amp\<close>)
  moreover have "join ''&'' (map ?pair ?kvs) \<noteq> ''''"
  proof -
    have nonempty: "pair k v \<noteq> ''''" for k v by (simp add: pair_def)
    obtain k v r where "?kvs = (k, v) # r" using ne by (cases ?kvs) auto
    then show ?thesis using nonempty [of k v] by (cases r) simp_all
  qed
  ultimately show ?thesis using assms(4) by (auto simp: shown parts qs_decode_def Let_def parse_pairs)
qed

lemma al_set_new: "k \<notin> fst ` set ps \<Longrightarrow> al_set k v ps = ps @ [(k, v)]"
  by (induction ps) auto

lemma al_set_last: "k \<notin> fst ` set ps \<Longrightarrow> al_set k v (ps @ [(k, w)]) = ps @ [(k, v)]"
  by (induction ps) auto

lemma map_of_last: "k \<notin> fst ` set ps \<Longrightarrow> map_of (ps @ [(k, w)]) k = Some w"
  by (induction ps) auto

text \<open>
  Values that survive: texts, and arrays of texts that are not empty (an empty one leaves an
  empty part, which is read as an empty key). An array of one text is read back as the text.
\<close>

fun is_text :: "js \<Rightarrow> bool" where
  "is_text (JStr _) = True"
| "is_text _ = False"

fun query_value :: "js \<Rightarrow> bool" where
  "query_value (JStr _) = True"
| "query_value (JArr vs) = (vs \<noteq> [] \<and> list_all is_text vs)"
| "query_value _ = False"

fun read_back :: "js \<Rightarrow> js" where
  "read_back (JArr [v]) = v"
| "read_back v = v"

lemma text_stringify: "is_text v \<Longrightarrow> JStr (stringifyPrimitive fmt v) = v"
  by (cases v) auto

lemma add_more:
  "k \<notin> fst ` set ps \<Longrightarrow> list_all is_text vs \<Longrightarrow>
   fold (\<lambda>(k, v). add_value k v) (map (\<lambda>v. (k, stringifyPrimitive fmt v)) vs) (ps @ [(k, JArr ws)]) = ps @ [(k, JArr (ws @ vs))]"
  by (induction vs arbitrary: ws) (simp_all add: add_value_def map_of_last al_set_last text_stringify del: map_of_append)

lemma add_segments:
  assumes "k \<notin> fst ` set ps" and "k \<noteq> ''__proto__''" and "query_value v"
  shows "fold (\<lambda>(k, v). add_value k v) (segments fmt (k, v)) ps = ps @ [(k, read_back v)]"
proof -
  have new: "map_of ps k = None" using assms(1) by (simp add: map_of_eq_None_iff)
  show ?thesis
  proof (cases v)
    case (JArr vs)
    then obtain s ws where s: "vs = JStr s # ws" "list_all is_text ws"
      using assms(3) by (cases vs; cases "hd vs") auto
    show ?thesis
    proof (cases ws)
      case Nil
      then show ?thesis using JArr s new assms(2) by (simp add: segments_def add_value_def al_set_new assms(1))
    next
      case (Cons w us)
      then show ?thesis using JArr s new assms(1,2)
        by (simp add: segments_def add_value_def al_set_new al_set_last map_of_last text_stringify add_more del: map_of_append)
    qed
  qed (use assms new in \<open>simp_all add: segments_def add_value_def al_set_new\<close>)
qed

lemma add_proto: "map_of ps ''__proto__'' = None \<Longrightarrow> fold (\<lambda>(k, v). add_value k v) (segments fmt (''__proto__'', v)) ps = ps"
proof -
  assume n: "map_of ps ''__proto__'' = None"
  have "fold (\<lambda>(k, v). add_value k v) (map (\<lambda>v. (''__proto__'', f v)) vs) ps = ps" for f :: "js \<Rightarrow> string" and vs
    by (induction vs) (simp_all add: add_value_def n)
  then show ?thesis by (simp add: segments_def add_value_def n split: js.split)
qed

definition kept_entries :: "(string \<times> js) list \<Rightarrow> (string \<times> js) list" where
  "kept_entries es = map (\<lambda>(k, v). (k, read_back v)) (filter (\<lambda>(k, v). k \<noteq> ''__proto__'') es)"

lemma add_entries:
  "\<lbrakk>distinct (map fst es); fst ` set ps \<inter> fst ` set es = {}; ''__proto__'' \<notin> fst ` set ps; \<forall>(k, v)\<in>set es. query_value v\<rbrakk> \<Longrightarrow>
   fold (\<lambda>(k, v). add_value k v) (concat (map (segments fmt) es)) ps = ps @ kept_entries es"
proof (induction es arbitrary: ps)
  case (Cons e es)
  obtain k v where e: "e = (k, v)" by (cases e)
  show ?case
  proof (cases "k = ''__proto__''")
    case True
    have "map_of ps ''__proto__'' = None" using Cons.prems(3) by (simp add: map_of_eq_None_iff)
    then show ?thesis using Cons.IH [of ps] Cons.prems e True by (auto simp: add_proto kept_entries_def)
  next
    case False
    have "k \<notin> fst ` set ps" using Cons.prems(2) e by auto
    moreover have "query_value v" using Cons.prems(4) e by simp
    ultimately have "fold (\<lambda>(k, v). add_value k v) (segments fmt e) ps = ps @ [(k, read_back v)]"
      using add_segments False e by simp
    then show ?thesis using Cons.IH [of "ps @ [(k, read_back v)]"] Cons.prems e False by (auto simp: kept_entries_def)
  qed
qed (simp add: kept_entries_def)

text \<open>
  C23: Parsing what was stringified: an object whose values are texts or arrays of texts that
  are not empty is read back with the same keys and values, in the order of \<open>Object.keys\<close>,
  whatever characters below 256 the texts hold, except that an array of one text comes back as
  the text and a key \<open>__proto__\<close> is lost, provided that \<open>maxKeys\<close> does not cut the values off.
\<close>

theorem query_roundtrip:
  assumes "distinct (map fst ps)" and "list_all (\<lambda>(k, v). query_value v) ps"
    and "maxKeys \<le> 0 \<or> int (\<Sum>(k, v)\<leftarrow>ps. case v of JArr vs \<Rightarrow> length vs | _ \<Rightarrow> 1) \<le> maxKeys"
  shows "qs_decode (JStr (qs_encode fmt (JObj ps) name)) maxKeys
    = Parsed (map (\<lambda>k. (k, read_back (get (JObj ps) k))) (filter (\<lambda>k. k \<noteq> ''__proto__'') (key_order (map fst ps))))"
proof -
  let ?es = "entries (JObj ps)" and ?size = "\<lambda>(k, v). case v of JArr vs \<Rightarrow> length vs | _ \<Rightarrow> 1"
  have es: "?es = map (\<lambda>k. (k, get (JObj ps) k)) (key_order (map fst ps))" by (simp add: entries_def)
  have members: "set ?es = set ps" using assms(1) by (force simp: es image_iff split: option.split)
  have dist: "distinct (map fst ?es)" using assms(1) by (simp add: es comp_def)
  have ok: "query_value v" if "(k, v) \<in> set ?es" for k v
    using that assms(2) by (force simp: members list_all_iff)
  have "mset ?es = mset ps" using members dist assms(1)
    by (simp add: set_eq_iff_mset_eq_distinct [symmetric] distinct_map)
  then have "(\<Sum>e\<leftarrow>?es. ?size e) = (\<Sum>e\<leftarrow>ps. ?size e)" by (metis mset_map sum_mset_sum_list)
  moreover have "length (concat (map (segments fmt) ?es)) = (\<Sum>e\<leftarrow>?es. ?size e)"
    by (simp add: length_concat comp_def) (rule arg_cong [where f = sum_list], auto simp: segments_def split: js.split)
  ultimately have "maxKeys \<le> 0 \<or> int (length (concat (map (segments fmt) ?es))) \<le> maxKeys" using assms(3) by simp
  moreover have "segments fmt e \<noteq> []" if "e \<in> set ?es" for e
  proof -
    obtain k v where "e = (k, v)" by (cases e)
    then show ?thesis using that ok [of k v] by (cases v) (auto simp: segments_def)
  qed
  ultimately have "qs_decode (JStr (qs_encode fmt (JObj ps) name)) maxKeys
      = Parsed (fold (\<lambda>(k, v). add_value k v) (concat (map (segments fmt) ?es)) [])"
    by (intro decode_segments) simp_all
  also have "\<dots> = Parsed (kept_entries ?es)" using add_entries [OF dist, of "[]" fmt] ok by auto
  also have "kept_entries ?es = map (\<lambda>k. (k, read_back (get (JObj ps) k))) (filter (\<lambda>k. k \<noteq> ''__proto__'') (key_order (map fst ps)))"
    by (simp add: kept_entries_def es filter_map comp_def)
  finally show ?thesis .
qed

theorem query_roundtrip_witness:
  "qs_decode (JStr (qs_encode (\<lambda>_. []) (JObj [(''a&b'', JArr [JStr ''1+1'', JStr ''=2'']), (''7'', JStr ''100%''), ([CHR 0xE9], JArr [JStr '' ''])]) '''')) 1000
   = Parsed [(''7'', JStr ''100%''), (''a&b'', JArr [JStr ''1+1'', JStr ''=2'']), ([CHR 0xE9], JStr '' '')]"
proof -
  have order: "key_order [''a&b'', ''7'', [CHR 0xE9]] = [''7'', ''a&b'', [CHR 0xE9]]"
    by (simp add: key_order_def is_index_key_def is_digit_def digits_val_def digit_val_def)
  show ?thesis by (subst query_roundtrip) (simp_all add: order)
qed

end
