(* ===== verification/Uuid.thy ===== *)
theory Uuid
  imports Prelude
begin

text \<open>
  The identifiers of the \<open>uuid\<close> package (modules 23 to 27 of \<open>socketcluster.js\<close>). The
  factory names a client that is not multiplexed with \<open>v4\<close>. Bytes are integers; the random
  generator of the browser is a parameter (the list of the bytes it returns), the fallback
  on \<open>Math.random\<close> is modelled. The bitwise operators convert to 32 bits, written out as
  \<open>mod 2 ^ 32\<close>. Random arrays shorter than 16 and the rounding of the quotient that gives the
  high bits of a version 1 time to a double are not modelled.
\<close>

subsection \<open>Text\<close>

definition hex_chr :: "nat \<Rightarrow> char" where
  "hex_chr n = ''0123456789abcdef'' ! n"

fun to_hex :: "nat \<Rightarrow> string" where
  "to_hex n = (if n < 16 then [hex_chr n] else to_hex (n div 16) @ [hex_chr (n mod 16)])"

declare to_hex.simps [simp del]

text \<open>The table \<open>byteToHex\<close>, and what a lookup in it adds to a string.\<close>

definition byteToHex :: "int \<Rightarrow> string" where
  "byteToHex b = (if 0 \<le> b \<and> b < 256 then drop 1 (to_hex (nat b + 0x100)) else ''undefined'')"

definition byte_at :: "int list \<Rightarrow> nat \<Rightarrow> string" where
  "byte_at buf i = (if i < length buf then byteToHex (buf ! i) else ''undefined'')"

definition bytesToUuid :: "int list \<Rightarrow> nat \<Rightarrow> string" where
  "bytesToUuid buf i =
     byte_at buf i @ byte_at buf (i + 1) @ byte_at buf (i + 2) @ byte_at buf (i + 3) @ ''-'' @
     byte_at buf (i + 4) @ byte_at buf (i + 5) @ ''-'' @
     byte_at buf (i + 6) @ byte_at buf (i + 7) @ ''-'' @
     byte_at buf (i + 8) @ byte_at buf (i + 9) @ ''-'' @
     byte_at buf (i + 10) @ byte_at buf (i + 11) @ byte_at buf (i + 12) @ byte_at buf (i + 13) @
     byte_at buf (i + 14) @ byte_at buf (i + 15)"

subsection \<open>Random bytes\<close>

text \<open>\<open>mathRNG\<close>: every fourth byte draws a random number of 32 bits.\<close>

definition mathRNG :: "(nat \<Rightarrow> rat) \<Rightarrow> int list" where
  "mathRNG rnd = map (\<lambda>i. (\<lfloor>rnd (i div 4) * 0x100000000\<rfloor> mod 2 ^ 32) div 2 ^ (8 * (i mod 4)) mod 256) [0..<16]"

subsection \<open>Results\<close>

text \<open>A caller's array, whose holes are \<open>None\<close>.\<close>

definition write_at :: "nat \<Rightarrow> int \<Rightarrow> int option list \<Rightarrow> int option list" where
  "write_at i v xs = (if i < length xs then xs[i := Some v] else xs @ replicate (i - length xs) None @ [Some v])"

definition write_bytes :: "nat \<Rightarrow> int list \<Rightarrow> int option list \<Rightarrow> int option list" where
  "write_bytes i bs xs = fold (\<lambda>k. write_at (i + k) (bs ! k)) [0..<length bs] xs"

datatype uuid_out = Text string | Filled "int option list"

subsection \<open>Version 4\<close>

text \<open>The first argument: nothing, a string, or an object that may bring its own bytes.\<close>

datatype v4_options = NoOptions | Format string | Random "int list"

definition v4_bytes :: "int list \<Rightarrow> int list" where
  "v4_bytes rnds = (let r = rnds[6 := rnds ! 6 mod 16 + 0x40] in r[8 := r ! 8 mod 64 + 0x80])"

definition v4 :: "v4_options \<Rightarrow> int option list option \<Rightarrow> nat \<Rightarrow> int list \<Rightarrow> uuid_out" where
  "v4 options buf offset rng =
     (let i = (if buf \<noteq> None then offset else 0);
          buf = (case options of Format s \<Rightarrow> if s = ''binary'' then Some (replicate 16 None) else None | _ \<Rightarrow> buf);
          rnds = v4_bytes (case options of Random r \<Rightarrow> r | _ \<Rightarrow> rng)
      in case buf of Some b \<Rightarrow> Filled (write_bytes i (take 16 rnds) b) | None \<Rightarrow> Text (bytesToUuid rnds 0))"

subsection \<open>Version 1\<close>

record v1_state =
  nodeId :: "int list option"
  clockseq :: "int option"
  lastMSecs :: int
  lastNSecs :: int

definition v1_initial :: v1_state where
  "v1_initial = \<lparr>nodeId = None, clockseq = None, lastMSecs = 0, lastNSecs = 0\<rparr>"

record v1_options =
  o_node :: "int list option"
  o_clockseq :: "int option"
  o_msecs :: "int option"
  o_nsecs :: "int option"

definition no_options :: v1_options where
  "no_options = \<lparr>o_node = None, o_clockseq = None, o_msecs = None, o_nsecs = None\<rparr>"

definition first_some :: "'a option \<Rightarrow> 'a option \<Rightarrow> 'a option" where
  "first_some x y = (case x of None \<Rightarrow> y | Some v \<Rightarrow> Some v)"

text \<open>The lazy initialisation of node and clock sequence, which also stores them.\<close>

definition v1_seed :: "v1_options \<Rightarrow> int list \<Rightarrow> v1_state \<Rightarrow> int list \<times> int \<times> v1_state" where
  "v1_seed opts seed st =
     (let node = first_some (o_node opts) (nodeId st);
          cs = first_some (o_clockseq opts) (clockseq st);
          node' = (seed ! 0 div 2 * 2 + 1) # take 5 (drop 1 seed);
          cs' = (seed ! 6 * 256 + seed ! 7) mod 0x4000;
          st1 = (if node = None then st\<lparr>nodeId := Some node'\<rparr> else st);
          st2 = (if cs = None then st1\<lparr>clockseq := Some cs'\<rparr> else st1)
      in (case node of None \<Rightarrow> node' | Some n \<Rightarrow> n, case cs of None \<Rightarrow> cs' | Some c \<Rightarrow> c, st2))"

text \<open>\<open>msecs / 0x100000000 * 10000\<close>, truncated to an integer by \<open>&\<close>.\<close>

definition trunc_high :: "int \<Rightarrow> int" where
  "trunc_high m = (if 0 \<le> m then m * 10000 div 2 ^ 32 else - (- m * 10000 div 2 ^ 32))"

definition v1_bytes :: "int \<Rightarrow> int \<Rightarrow> int \<Rightarrow> int list \<Rightarrow> int list" where
  "v1_bytes msecs0 nsecs cs node =
     (let msecs = msecs0 + 12219292800000;
          tl = (msecs mod 2 ^ 28 * 10000 + nsecs) mod 0x100000000;
          tmh = trunc_high msecs mod 2 ^ 28
      in [tl div 2 ^ 24 mod 256, tl div 2 ^ 16 mod 256, tl div 2 ^ 8 mod 256, tl mod 256,
          tmh div 2 ^ 8 mod 256, tmh mod 256, tmh div 2 ^ 24 mod 16 + 0x10, tmh div 2 ^ 16 mod 256,
          or (cs mod 2 ^ 32 div 2 ^ 8) 0x80, cs mod 256] @ take 6 node)"

text \<open>Clock sequence and fraction of the millisecond of the next identifier.\<close>

definition v1_clock :: "v1_options \<Rightarrow> int \<Rightarrow> int \<Rightarrow> v1_state \<Rightarrow> int \<times> int" where
  "v1_clock opts msecs cs st =
     (let nsecs = (case o_nsecs opts of None \<Rightarrow> lastNSecs st + 1 | Some n \<Rightarrow> n);
          back = 10000 * (msecs - lastMSecs st) + (nsecs - lastNSecs st) < 0
      in (if back \<and> o_clockseq opts = None then (cs + 1) mod 0x4000 else cs,
          if (back \<or> msecs > lastMSecs st) \<and> o_nsecs opts = None then 0 else nsecs))"

definition v1 :: "v1_options \<Rightarrow> int option list option \<Rightarrow> nat \<Rightarrow> int list \<Rightarrow> int \<Rightarrow> v1_state
    \<Rightarrow> (string + uuid_out) \<times> v1_state" where
  "v1 opts buf offset seed now st =
     (let (node, cs, st1) = v1_seed opts seed st;
          msecs = (case o_msecs opts of None \<Rightarrow> now | Some n \<Rightarrow> n);
          (cs, nsecs) = v1_clock opts msecs cs st
      in if nsecs \<ge> 10000 then (Inl (''uuid.v1(): Can'' @ [CHR 0x27] @ ''t create more than 10M uuids/sec''), st1)
         else (Inr (case buf of None \<Rightarrow> Text (bytesToUuid (v1_bytes msecs nsecs cs node) 0)
                 | Some b \<Rightarrow> Filled (write_bytes offset (v1_bytes msecs nsecs cs node) b)),
               st1\<lparr>lastMSecs := msecs, lastNSecs := nsecs, clockseq := Some cs\<rparr>))"

subsection \<open>The shape of an identifier\<close>

lemma hex_chr_inject: "m < 16 \<Longrightarrow> n < 16 \<Longrightarrow> hex_chr m = hex_chr n \<longleftrightarrow> m = n"
  unfolding hex_chr_def by (rule nth_eq_iff_index_eq) simp_all

lemma hex_chr_set: "n < 16 \<Longrightarrow> hex_chr n \<in> set ''0123456789abcdef''"
  unfolding hex_chr_def by (rule nth_mem) simp

definition hex2 :: "int \<Rightarrow> string" where
  "hex2 b = [hex_chr (nat b div 16), hex_chr (nat b mod 16)]"

definition is_byte :: "int \<Rightarrow> bool" where
  "is_byte b \<longleftrightarrow> 0 \<le> b \<and> b < 256"

lemma byteToHex_hex2: "is_byte b \<Longrightarrow> byteToHex b = hex2 b"
proof -
  assume b: "is_byte b"
  let ?n = "nat b + 0x100"
  have n: "nat b < 256" using b unfolding is_byte_def by linarith
  have h2: "to_hex (?n div 16) = to_hex (?n div 16 div 16) @ [hex_chr (?n div 16 mod 16)]"
  proof -
    have "\<not> ?n div 16 < 16" by simp
    then show ?thesis by (subst to_hex.simps) simp
  qed
  have d: "?n div 16 = nat b div 16 + 16" by simp
  have e: "?n div 16 div 16 = 1" "?n div 16 mod 16 = nat b div 16"
    unfolding d using n by (simp_all add: less_mult_imp_div_less)
  have "(m + 256) mod 16 = m mod 16" for m :: nat by (subst mod_add_right_eq [symmetric]) simp
  then have e3: "?n mod 16 = nat b mod 16" .
  have h1: "to_hex ?n = to_hex (?n div 16) @ [hex_chr (?n mod 16)]" by (subst to_hex.simps) simp
  have "to_hex 1 = [hex_chr 1]" by (subst to_hex.simps) simp
  then have "to_hex ?n = [hex_chr 1, hex_chr (nat b div 16), hex_chr (nat b mod 16)]"
    unfolding h1 h2 e e3 by (simp only: append.simps)
  then show ?thesis using b by (simp add: byteToHex_def hex2_def is_byte_def)
qed

lemma hex2_inject: "is_byte a \<Longrightarrow> is_byte b \<Longrightarrow> hex2 a = hex2 b \<longleftrightarrow> a = b"
proof -
  assume ab: "is_byte a" "is_byte b"
  then have "nat a < 256" "nat b < 256" unfolding is_byte_def by linarith+
  then have "nat a div 16 < 16" "nat b div 16 < 16" by (auto simp: less_mult_imp_div_less)
  then have "hex2 a = hex2 b \<longleftrightarrow> nat a div 16 = nat b div 16 \<and> nat a mod 16 = nat b mod 16"
    by (simp add: hex2_def hex_chr_inject)
  also have "\<dots> \<longleftrightarrow> nat a = nat b" by (metis div_mult_mod_eq)
  finally show ?thesis using ab by (auto simp: is_byte_def)
qed

lemma hex2_length [simp]: "length (hex2 b) = 2"
  by (simp add: hex2_def)

lemma hex2_append: "hex2 a @ xs = hex2 b @ ys \<longleftrightarrow> hex2 a = hex2 b \<and> xs = ys"
  by (rule append_eq_append_conv) simp

definition bytes16 :: "int list \<Rightarrow> bool" where
  "bytes16 r \<longleftrightarrow> length r = 16 \<and> (\<forall>b\<in>set r. is_byte b)"

definition uuid_text :: "int list \<Rightarrow> string" where
  "uuid_text r = hex2 (r ! 0) @ hex2 (r ! 1) @ hex2 (r ! 2) @ hex2 (r ! 3) @ ''-'' @ hex2 (r ! 4) @ hex2 (r ! 5) @ ''-'' @
     hex2 (r ! 6) @ hex2 (r ! 7) @ ''-'' @ hex2 (r ! 8) @ hex2 (r ! 9) @ ''-'' @ hex2 (r ! 10) @ hex2 (r ! 11) @
     hex2 (r ! 12) @ hex2 (r ! 13) @ hex2 (r ! 14) @ hex2 (r ! 15)"

lemma bytesToUuid_text: "bytes16 r \<Longrightarrow> bytesToUuid r 0 = uuid_text r"
  by (simp add: bytesToUuid_def byte_at_def bytes16_def byteToHex_hex2 uuid_text_def numeral_2_eq_2)

lemma all_16: "(\<forall>i<16. P i) \<longleftrightarrow> P 0 \<and> P 1 \<and> P 2 \<and> P 3 \<and> P 4 \<and> P 5 \<and> P 6 \<and> P 7 \<and> P 8 \<and> P 9
   \<and> P 10 \<and> P 11 \<and> P 12 \<and> P 13 \<and> P 14 \<and> P (15 :: nat)"
  by (simp add: eval_nat_numeral All_less_Suc conj_ac)

lemma uuid_text_inject: "bytes16 r \<Longrightarrow> bytes16 s \<Longrightarrow> uuid_text r = uuid_text s \<longleftrightarrow> r = s"
proof -
  assume rs: "bytes16 r" "bytes16 s"
  then have b: "i < 16 \<Longrightarrow> is_byte (r ! i)" "i < 16 \<Longrightarrow> is_byte (s ! i)" for i by (simp_all add: bytes16_def)
  have "uuid_text r = uuid_text s \<longleftrightarrow> (\<forall>i<16. r ! i = s ! i)"
    unfolding all_16 uuid_text_def by (simp add: hex2_append hex2_inject b)
  also have "\<dots> \<longleftrightarrow> r = s" using rs by (auto simp: bytes16_def list_eq_iff_nth_eq)
  finally show ?thesis .
qed

lemma is_byte_mod: "is_byte (x mod 256)" "is_byte (x mod 16 + 0x40)" "is_byte (x mod 64 + 0x80)"
  unfolding is_byte_def by (simp, presburger, presburger)

lemma bytes16_v4: "bytes16 r \<Longrightarrow> bytes16 (v4_bytes r)"
proof -
  assume r: "bytes16 r"
  have upd: "bytes16 (s[i := x])" if "bytes16 s" "is_byte x" for s i x
    using that set_update_subset_insert [of s i x] by (auto simp: bytes16_def)
  show ?thesis unfolding v4_bytes_def Let_def by (intro upd r is_byte_mod)
qed

lemma v4_text: "bytes16 r \<Longrightarrow> v4 NoOptions None i r = Text (uuid_text (v4_bytes r))"
  using bytesToUuid_text [OF bytes16_v4] by (simp add: v4_def Let_def)

lemma version_digit: "hex2 (x mod 16 + 0x40) ! 0 = CHR ''4''"
proof -
  have "nat (x mod 16 + 64) div 16 = 4" by (simp add: nat_div_distrib [symmetric] nat_eq_iff)
  then show ?thesis by (simp add: hex2_def hex_chr_def)
qed

lemma variant_digit: "hex2 (x mod 64 + 0x80) ! 0 \<in> set ''89ab''"
proof -
  have "128 \<le> nat (x mod 64 + 128)" "nat (x mod 64 + 128) < 192" by simp_all
  then have "8 \<le> nat (x mod 64 + 128) div 16" "nat (x mod 64 + 128) div 16 < 12"
    by (auto simp: less_mult_imp_div_less div_le_mono [of 128 _ 16, simplified])
  then have "nat (x mod 64 + 128) div 16 \<in> {8, 9, 10, 11}" by auto
  then show ?thesis by (auto simp: hex2_def hex_chr_def)
qed

lemma uuid_positions:
  "length (uuid_text r) = 36 \<and> uuid_text r ! 8 = CHR ''-'' \<and> uuid_text r ! 13 = CHR ''-'' \<and> uuid_text r ! 18 = CHR ''-''
   \<and> uuid_text r ! 23 = CHR ''-'' \<and> uuid_text r ! 14 = hex2 (r ! 6) ! 0 \<and> uuid_text r ! 19 = hex2 (r ! 8) ! 0"
  by (simp add: uuid_text_def hex2_def)

lemma uuid_chars: "bytes16 r \<Longrightarrow> set (uuid_text r) \<subseteq> set ''-0123456789abcdef''"
proof -
  assume r: "bytes16 r"
  have "set (hex2 (r ! i)) \<subseteq> set ''0123456789abcdef''" if "i < 16" for i
  proof -
    have "is_byte (r ! i)" using r that by (simp add: bytes16_def)
    then have "nat (r ! i) < 256" unfolding is_byte_def by linarith
    then have "nat (r ! i) div 16 < 16" by (auto simp: less_mult_imp_div_less)
    then show ?thesis using hex_chr_set [of "nat (r ! i) div 16"] hex_chr_set [of "nat (r ! i) mod 16"]
      by (simp add: hex2_def del: list.set(2)) (simp only: list.set insert_subset empty_subsetI simp_thms)
  qed
  note c = this
  show ?thesis unfolding uuid_text_def set_append
  proof (intro Un_least)
  qed (rule order_trans [OF c], simp, simp, simp?)+
qed

text \<open>
  C39: \<open>v4\<close> turns any 16 random bytes into a well-formed version 4 identifier: 36 characters,
  lower-case hexadecimal digits with dashes at positions 8, 13, 18 and 23, the version digit
  4 and the variant digit 8, 9, a or b; and two calls give the same identifier only when
  their bytes agree apart from the six bits that version and variant overwrite.
\<close>

theorem v4_shape:
  assumes "bytes16 rng" and "bytes16 rng'"
  shows "\<exists>s s'. v4 NoOptions None i rng = Text s \<and> length s = 36 \<and> set s \<subseteq> set ''-0123456789abcdef''
    \<and> s ! 8 = CHR ''-'' \<and> s ! 13 = CHR ''-'' \<and> s ! 18 = CHR ''-'' \<and> s ! 23 = CHR ''-''
    \<and> s ! 14 = CHR ''4'' \<and> s ! 19 \<in> set ''89ab''
    \<and> v4 NoOptions None i rng' = Text s' \<and> (s' = s \<longleftrightarrow> (\<forall>k<16. if k = 6 then rng' ! 6 mod 16 = rng ! 6 mod 16
         else if k = 8 then rng' ! 8 mod 64 = rng ! 8 mod 64 else rng' ! k = rng ! k))"
proof -
  let ?b = "v4_bytes rng" and ?b' = "v4_bytes rng'"
  have b: "?b ! 6 = rng ! 6 mod 16 + 0x40" "?b ! 8 = rng ! 8 mod 64 + 0x80"
    using assms(1) by (simp_all add: v4_bytes_def Let_def bytes16_def)
  have "uuid_text ?b' = uuid_text ?b \<longleftrightarrow> ?b' = ?b" by (rule uuid_text_inject) (simp_all add: bytes16_v4 assms)
  also have "\<dots> \<longleftrightarrow> (\<forall>k<16. ?b' ! k = ?b ! k)"
    using assms bytes16_v4 by (auto simp: list_eq_iff_nth_eq bytes16_def)
  also have "\<dots> \<longleftrightarrow> (\<forall>k<16. if k = 6 then rng' ! 6 mod 16 = rng ! 6 mod 16
         else if k = 8 then rng' ! 8 mod 64 = rng ! 8 mod 64 else rng' ! k = rng ! k)"
    using assms by (simp add: v4_bytes_def Let_def bytes16_def nth_list_update all_16)
  finally show ?thesis
    using uuid_positions [of ?b] uuid_chars [OF bytes16_v4 [OF assms(1)]] version_digit [of "rng ! 6"] variant_digit [of "rng ! 8"]
    by (intro exI conjI) (rule v4_text [OF assms(1)], simp_all add: v4_text [OF assms(2)] b)
qed

lemma bytes16_mathRNG: "bytes16 (mathRNG rnd)"
  by (simp add: bytes16_def mathRNG_def is_byte_def)

theorem v4_shape_witness:
  "\<exists>s. v4 NoOptions None 0 (mathRNG (\<lambda>_. 1 / 2)) = Text s \<and> length s = 36 \<and> s ! 14 = CHR ''4''"
  using v4_shape [OF bytes16_mathRNG bytes16_mathRNG, of 0 "\<lambda>_. 1 / 2" "\<lambda>_. 1 / 3"] by blast

subsection \<open>The time in a version 1 identifier\<close>

lemma join2: "x div 256 mod 256 * 256 + x mod 256 = x mod 65536" for x :: int
  using zmod_zmult2_eq [of 256 x 256] by simp

lemma join4: "x div 2 ^ 24 mod 256 * 2 ^ 24 + x div 2 ^ 16 mod 256 * 2 ^ 16 + x div 2 ^ 8 mod 256 * 2 ^ 8 + x mod 256 = x mod 2 ^ 32"
  for x :: int
proof -
  have p: "(2 :: int) ^ 24 = 16777216" "(2 :: int) ^ 16 = 65536" "(2 :: int) ^ 8 = 256" "(2 :: int) ^ 32 = 4294967296"
    by simp_all
  have d: "x div 65536 div 256 = x div 16777216" using zdiv_zmult2_eq [of 256 x 65536] by simp
  have "x mod 4294967296 = 65536 * (x div 65536 mod 65536) + x mod 65536"
    using zmod_zmult2_eq [of 65536 x 65536] by simp
  then show ?thesis using join2 [of x] join2 [of "x div 65536"] unfolding p d by linarith
qed

text \<open>The 60 bits of time in the bytes of an identifier.\<close>

definition uuid_time :: "int list \<Rightarrow> int" where
  "uuid_time b = b ! 0 * 2 ^ 24 + b ! 1 * 2 ^ 16 + b ! 2 * 2 ^ 8 + b ! 3 + 2 ^ 32 * (b ! 4 * 2 ^ 8 + b ! 5)
     + 2 ^ 48 * ((b ! 6 - 0x10) * 2 ^ 8 + b ! 7)"

definition ticks :: "int \<Rightarrow> int \<Rightarrow> int" where
  "ticks msecs nsecs = (msecs + 12219292800000) * 10000 + nsecs"

lemma low_word: "(m mod 2 ^ 28 * 10000 + n) mod 2 ^ 32 = (m * 10000 + n) mod 2 ^ 32" for m n :: int
proof -
  have "m = 268435456 * (m div 268435456) + m mod 268435456" by simp
  then have "m * 10000 + n = (m mod 2 ^ 28 * 10000 + n) + 2 ^ 32 * (625 * (m div 2 ^ 28))"
  proof -
    have p: "(2 :: int) ^ 28 = 268435456" "(2 :: int) ^ 32 = 4294967296" by simp_all
    assume "m = 268435456 * (m div 268435456) + m mod 268435456"
    then show ?thesis unfolding p by linarith
  qed
  then show ?thesis by (metis mod_mult_self2)
qed

lemma high_bits: "2 ^ 32 * (y div 2 ^ 8 mod 256 * 2 ^ 8 + y mod 256)
    + 2 ^ 48 * (y div 2 ^ 24 mod 16 * 2 ^ 8 + y div 2 ^ 16 mod 256) = 2 ^ 32 * (y mod 2 ^ 28)" for y :: int
proof -
  have "y mod 2 ^ 28 = 65536 * (y div 65536 mod 4096) + y mod 65536"
    using zmod_zmult2_eq [of 4096 y 65536] by simp
  moreover have "y div 65536 mod 4096 = 256 * (y div 65536 div 256 mod 16) + y div 65536 mod 256"
    using zmod_zmult2_eq [of 16 "y div 65536" 256] by simp
  moreover have "y div 65536 div 256 = y div 2 ^ 24" using zdiv_zmult2_eq [of 256 y 65536] by simp
  moreover have "(2 :: int) ^ 48 = 2 ^ 32 * 65536" "(2 :: int) ^ 8 = 256" "(2 :: int) ^ 16 = 65536" by simp_all
  ultimately show ?thesis using join2 [of y] by (simp only: algebra_simps)
qed

lemma time_of_words:
  fixes t y :: int
  assumes "0 \<le> t" "t < 2 ^ 32" "0 \<le> y" "y < 2 ^ 28"
  shows "uuid_time ([t div 2 ^ 24 mod 256, t div 2 ^ 16 mod 256, t div 2 ^ 8 mod 256, t mod 256,
          y div 2 ^ 8 mod 256, y mod 256, y div 2 ^ 24 mod 16 + 0x10, y div 2 ^ 16 mod 256, c, d] @ node)
    = t + 2 ^ 32 * y"
proof -
  have "t mod 2 ^ 32 = t" "y mod 2 ^ 28 = y" using assms by (simp_all add: mod_pos_pos_trivial)
  then have "t + 2 ^ 32 * y = (t div 2 ^ 24 mod 256 * 2 ^ 24 + t div 2 ^ 16 mod 256 * 2 ^ 16 + t div 2 ^ 8 mod 256 * 2 ^ 8 + t mod 256)
      + (2 ^ 32 * (y div 2 ^ 8 mod 256 * 2 ^ 8 + y mod 256) + 2 ^ 48 * (y div 2 ^ 24 mod 16 * 2 ^ 8 + y div 2 ^ 16 mod 256))"
    by (simp only: join4 high_bits)
  then show ?thesis by (simp add: uuid_time_def)
qed

text \<open>
  A version 1 identifier carries its time stamp, in units of 100 ns, modulo \<open>2 ^ 60\<close>; but
  when adding the fraction of the millisecond carries out of the lower 32 bits, the carry
  is lost, and the identifier carries a time that is \<open>2 ^ 32\<close> units (429 s) too early.
\<close>

theorem v1_time:
  assumes "0 \<le> m + 12219292800000" and "0 \<le> n" and "n < 10000" and "length node = 6"
  shows "uuid_time (v1_bytes m n cs node) =
     (let carry = 2 ^ 32 \<le> (m + 12219292800000) * 10000 mod 2 ^ 32 + n
      in (if carry then ticks m n - 2 ^ 32 else ticks m n) mod 2 ^ 60)"
proof -
  define M where "M = (m + 12219292800000) * 10000"
  define lo where "lo = M mod 2 ^ 32"
  define hi where "hi = M div 2 ^ 32"
  have M: "M = 2 ^ 32 * hi + lo" "0 \<le> lo" "lo < 2 ^ 32" by (simp_all add: lo_def hi_def)
  have tl: "((m + 12219292800000) mod 2 ^ 28 * 10000 + n) mod 0x100000000 = (lo + n) mod 2 ^ 32"
    using low_word [of "m + 12219292800000" n] by (simp add: lo_def M_def mod_add_left_eq)
  have hi_eq: "trunc_high (m + 12219292800000) = hi" using assms(1) by (simp add: trunc_high_def hi_def M_def)
  have u: "uuid_time (v1_bytes m n cs node) = (lo + n) mod 2 ^ 32 + 2 ^ 32 * (hi mod 2 ^ 28)"
    unfolding v1_bytes_def Let_def tl hi_eq by (rule time_of_words) simp_all
  moreover have low: "(lo + n) mod 2 ^ 32 = (if 2 ^ 32 \<le> lo + n then lo + n - 2 ^ 32 else lo + n)"
  proof (cases "2 ^ 32 \<le> lo + n")
    case True
    have "(lo + n) mod 2 ^ 32 = (lo + n - 2 ^ 32) mod 2 ^ 32" by (simp only: minus_mod_self2)
    also have "\<dots> = lo + n - 2 ^ 32" using True M(3) assms(3) by (intro mod_pos_pos_trivial) simp_all
    finally show ?thesis using True by simp
  next
    case False
    have "(lo + n) mod 2 ^ 32 = lo + n" using False M(2) assms(2) by (intro mod_pos_pos_trivial) simp_all
    then show ?thesis using False by simp
  qed
  moreover have high: "(2 ^ 32 * hi + x) mod 2 ^ 60 = 2 ^ 32 * (hi mod 2 ^ 28) + x" if "0 \<le> x" "x < 2 ^ 32" for x
    using zmod_zmult2_eq [of "2 ^ 28" "2 ^ 32 * hi + x" "2 ^ 32"] that by simp
  moreover have "ticks m n = 2 ^ 32 * hi + (lo + n)" using M(1) by (simp add: ticks_def M_def)
  ultimately have "uuid_time (v1_bytes m n cs node)
      = (if 2 ^ 32 \<le> lo + n then ticks m n - 2 ^ 32 else ticks m n) mod 2 ^ 60"
  proof (cases "2 ^ 32 \<le> lo + n")
    case True
    have t: "ticks m n - 2 ^ 32 = 2 ^ 32 * hi + (lo + n - 2 ^ 32)" using M(1) by (simp add: ticks_def M_def)
    have "0 \<le> lo + n - 2 ^ 32" "lo + n - 2 ^ 32 < 2 ^ 32" using True M(3) assms(3) by simp_all
    note h = high [OF this]
    have "uuid_time (v1_bytes m n cs node) = (ticks m n - 2 ^ 32) mod 2 ^ 60"
      unfolding t h u low using True by simp
    then show ?thesis using True by (simp only: if_True)
  next
    case False
    have t: "ticks m n = 2 ^ 32 * hi + (lo + n)" using M(1) by (simp add: ticks_def M_def)
    have "0 \<le> lo + n" "lo + n < 2 ^ 32" using False M(2) assms(2) by simp_all
    note h = high [OF this]
    have "uuid_time (v1_bytes m n cs node) = ticks m n mod 2 ^ 60"
      unfolding t h u low using False by simp
    then show ?thesis using False by (simp only: if_False)
  qed
  then show ?thesis by (simp only: Let_def lo_def M_def)
qed

text \<open>
  With the lost carry, identifiers of two different times are the same: those with the same
  node and clock sequence made at 2017-07-14 04:29:17.986 and, as the 7297th of its
  millisecond, at 04:36:27.482.
\<close>

theorem v1_time_witness:
  "uuid_time (v1_bytes 1500006987482 7296 0 [1, 2, 3, 4, 5, 6]) = ticks 1500006987482 7296 - 2 ^ 32
   \<and> v1_bytes 1500006557986 0 0 [1, 2, 3, 4, 5, 6] = v1_bytes 1500006987482 7296 0 [1, 2, 3, 4, 5, 6]"
proof
  have c: "(2 ^ 32 \<le> (1500006987482 + 12219292800000) * 10000 mod 2 ^ 32 + (7296 :: int)) = True" by simp
  have t: "(ticks 1500006987482 7296 - 2 ^ 32) mod 2 ^ 60 = ticks 1500006987482 7296 - 2 ^ 32" by (simp add: ticks_def)
  show "uuid_time (v1_bytes 1500006987482 7296 0 [1, 2, 3, 4, 5, 6]) = ticks 1500006987482 7296 - 2 ^ 32"
    by (subst v1_time) (simp_all only: Let_def c t if_True, simp_all)
  show "v1_bytes 1500006557986 0 0 [1, 2, 3, 4, 5, 6] = v1_bytes 1500006987482 7296 0 [1, 2, 3, 4, 5, 6]"
    by code_simp
qed

subsection \<open>The clock of version 1\<close>

text \<open>
  Without options, the time of the next identifier is later than that of the last one unless
  the clock went back, in which case the clock sequence changes; ten thousand identifiers in
  one millisecond are an error, which leaves the clock as it was.
\<close>

theorem v1_advances:
  assumes "nodeId st = Some node" and "clockseq st = Some cs" and "0 \<le> lastNSecs st" and "lastNSecs st < 10000"
  shows "(case v1 no_options None 0 seed now st of
      (Inr _, st') \<Rightarrow> lastMSecs st' = now \<and> 0 \<le> lastNSecs st' \<and> lastNSecs st' < 10000 \<and> nodeId st' = Some node
        \<and> (if now < lastMSecs st then clockseq st' = Some ((cs + 1) mod 0x4000)
           else clockseq st' = Some cs \<and> ticks (lastMSecs st) (lastNSecs st) < ticks now (lastNSecs st'))
    | (Inl _, st') \<Rightarrow> st' = st \<and> now = lastMSecs st \<and> lastNSecs st = 9999)"
proof -
  let ?M = "lastMSecs st" and ?N = "lastNSecs st"
  have seed: "v1_seed no_options seed st = (node, cs, st)"
    using assms(1,2) by (simp add: v1_seed_def no_options_def first_some_def Let_def)
  have "10000 * (now - ?M) + (?N + 1 - ?N) < 0 \<longleftrightarrow> now < ?M" by auto
  then have clock: "v1_clock no_options now cs st
      = (if now < ?M then (cs + 1) mod 0x4000 else cs, if now = ?M then ?N + 1 else 0)"
    by (auto simp: v1_clock_def no_options_def Let_def)
  have opts: "(case o_msecs no_options of None \<Rightarrow> now | Some n \<Rightarrow> n) = now" by (simp add: no_options_def)
  define n where "n = (if now = ?M then ?N + 1 else 0)"
  define c where "c = (if now < ?M then (cs + 1) mod 0x4000 else cs)"
  obtain e x where run: "v1 no_options None 0 seed now st = (if 10000 \<le> n then (Inl e, st)
      else (Inr x, st\<lparr>lastMSecs := now, lastNSecs := n, clockseq := Some c\<rparr>))"
    unfolding v1_def seed opts Let_def prod.case clock n_def [symmetric] c_def [symmetric] by blast
  have "10000 \<le> n \<longleftrightarrow> now = ?M \<and> ?N = 9999" using assms(4) by (auto simp: n_def)
  moreover have "0 \<le> n" "now = ?M \<Longrightarrow> n = ?N + 1" "now \<noteq> ?M \<Longrightarrow> n = 0" using assms(3) by (auto simp: n_def)
  moreover have "now < ?M \<Longrightarrow> c = (cs + 1) mod 0x4000" "\<not> now < ?M \<Longrightarrow> c = cs" by (auto simp: c_def)
  moreover have "\<not> now < ?M \<Longrightarrow> now \<noteq> ?M \<Longrightarrow> ticks ?M ?N < ticks now 0" using assms(4) by (auto simp: ticks_def)
  moreover have "ticks ?M ?N < ticks ?M (?N + 1)" by (simp add: ticks_def)
  ultimately show ?thesis unfolding run using assms(1) by (cases "now = ?M") (auto simp del: power_numeral)
qed

end
