(* ===== verification/Factory.thy ===== *)
theory Factory
  imports Sc_Inv Querystring Uuid
begin

text \<open>
  The client factory (module 3 of \<open>socketcluster.js\<close>): \<open>create\<close> with its checks, its default
  options and the sharing of clients by multiplex id, \<open>destroy\<close>, what the constructor of a
  client reads and normalises of its options, and the transport's \<open>uri\<close>. A factory holds
  the clients made so far, each with its environment, its state and its options, and the
  registry \<open>_clients\<close>. Options whose types the code does not foresee (a prefix that is not
  a text, delays that are not numbers) are not modelled: \<open>Unmodelled\<close>.
\<close>

subsection \<open>Options\<close>

datatype 'x outcome = Ok 'x | Throws exn | Unmodelled

text \<open>\<open>for (k in v) if (v.hasOwnProperty(k))\<close>: an own \<open>hasOwnProperty\<close> hides the inherited one.\<close>

definition own_entries :: "js \<Rightarrow> exn + (string \<times> js) list" where
  "own_entries v =
     (case v of JStr s \<Rightarrow> Inr (map (\<lambda>i. (show_nat i, JStr [s ! i])) [0..<length s])
      | _ \<Rightarrow> if ''hasOwnProperty'' \<in> fst ` set (entries v) then Inl TypeError else Inr (entries v))"

fun host_ok :: "string \<Rightarrow> bool" where
  "host_ok (a # b # c # d # s) =
     (a \<noteq> CHR '':'' \<and> b = CHR '':'' \<and> is_digit c \<and> is_digit d \<or> host_ok (b # c # d # s))"
| "host_ok _ = False"

definition invalid :: "string \<Rightarrow> exn" where
  "invalid message = Thrown (new_error InvalidArgumentsError message JUndef)"

definition check_host :: "js \<Rightarrow> exn option" where
  "check_host options =
     (let host = get options ''host''
      in if truthy host \<and> typeof_js host \<noteq> ''string'' then Some TypeError
         else if truthy host \<and> (case host of JStr s \<Rightarrow> \<not> host_ok s | _ \<Rightarrow> False) then Some (invalid
           (''The host option should include both the hostname and the port number in the format '' @ ''\"hostname:port\"''))
         else if truthy host \<and> truthy (get options ''hostname'') then Some (invalid
           (''The host option should already include the hostname and the port number in the format \"hostname:port\"''
            @ '' - Because of this, you should never use host and hostname options together''))
         else if truthy host \<and> truthy (get options ''port'') then Some (invalid
           (''The host option should already include the hostname and the port number in the format \"hostname:port\"''
            @ '' - Because of this, you should never use host and port options together''))
         else None)"

text \<open>\<open>loc\<close> is the global \<open>location\<close>, undefined outside a browser.\<close>

definition isUrlSecure :: "js \<Rightarrow> js" where
  "isUrlSecure loc = (if truthy loc then JBool (get loc ''protocol'' = JStr ''https:'') else loc)"

definition getPort :: "js \<Rightarrow> js \<Rightarrow> js \<Rightarrow> js" where
  "getPort loc options isSecureDefault =
     (let isSecure = (if nullish (get options ''secure'') then isSecureDefault else get options ''secure'')
      in if truthy (get options ''port'') then get options ''port''
         else if truthy loc \<and> truthy (get loc ''port'') then get loc ''port''
         else JNum (Fin (if truthy isSecure then 443 else 80)))"

definition default_options :: "js \<Rightarrow> js \<Rightarrow> (string \<times> js) list" where
  "default_options loc options =
     [(''port'', getPort loc options (isUrlSecure loc)),
      (''hostname'', if truthy loc \<and> truthy (get loc ''hostname'') then get loc ''hostname'' else JStr ''localhost''),
      (''path'', JStr ''/socketcluster/''), (''secure'', isUrlSecure loc), (''autoConnect'', JBool True),
      (''autoReconnect'', JBool True), (''autoSubscribeOnConnect'', JBool True),
      (''connectTimeout'', JNum (Fin 20000)), (''ackTimeout'', JNum (Fin 10000)),
      (''timestampRequests'', JBool False), (''timestampParam'', JStr ''t''), (''authEngine'', JNull),
      (''authTokenName'', JStr ''socketCluster.authToken''), (''binaryType'', JStr ''arraybuffer''),
      (''multiplex'', JBool True), (''pubSubBatchDuration'', JNull), (''cloneData'', JBool False)]"

definition merged :: "(string \<times> js) list \<Rightarrow> (string \<times> js) list \<Rightarrow> js" where
  "merged ds kvs = JObj (fold (\<lambda>(k, v). al_set k v) kvs ds)"

definition getMultiplexId :: "'a env \<Rightarrow> js \<Rightarrow> exn + string" where
  "getMultiplexId E options =
     (let protocolPrefix = (if truthy (get options ''secure'') then ''https://'' else ''http://'');
          host = (if truthy (get options ''host'') then to_key E (get options ''host'')
                  else to_key E (get options ''hostname'') @ '':'' @ to_key E (get options ''port''));
          query = get options ''query'';
          queryString = (if \<not> truthy query then Inr ''''
             else (case query of JStr s \<Rightarrow> Inr s
               | _ \<Rightarrow> (case own_entries query of Inl e \<Rightarrow> Inl e
                  | Inr kvs \<Rightarrow> Inr (if kvs = [] then ''''
                      else ''?'' @ join ''&'' (map (\<lambda>(k, v). k @ ''='' @ to_key E v) kvs)))))
      in case queryString of Inl e \<Rightarrow> Inl e
         | Inr q \<Rightarrow> Inr (protocolPrefix @ host @ to_key E (get options ''path'') @ q))"

subsection \<open>The constructor's reading of the options\<close>

fun number_or :: "rat \<Rightarrow> js \<Rightarrow> rat option" where
  "number_or d JUndef = Some d"
| "number_or d JNull = Some d"
| "number_or d (JNum (Fin q)) = Some q"
| "number_or d _ = None"

definition reconnect_options :: "js \<Rightarrow> (rat \<times> rat \<times> rat \<times> rat) option" where
  "reconnect_options r =
     (if nullish r \<or> (case r of JObj _ \<Rightarrow> True | _ \<Rightarrow> False) then
        (case (number_or 10000 (get r ''initialDelay''), number_or 10000 (get r ''randomness''),
               number_or (3 / 2) (get r ''multiplier''), number_or 60000 (get r ''maxDelay'')) of
           (Some a, Some b, Some c, Some d) \<Rightarrow> Some (a, b, c, d) | _ \<Rightarrow> None)
      else None)"

definition client_env :: "'a env \<Rightarrow> js \<Rightarrow> 'a env option" where
  "client_env B opts =
     (case (reconnect_options (get opts ''autoReconnectOptions''), get opts ''authTokenName'',
            if truthy (get opts ''channelPrefix'') then get opts ''channelPrefix'' else JStr '''') of
        (Some (a, b, c, d), JStr n, JStr p) \<Rightarrow> Some (B\<lparr>autoReconnect := truthy (get opts ''autoReconnect''),
            initialDelay := a, randomness := b, multiplier := c, maxDelay := d,
            autoSubscribeOnConnect := truthy (get opts ''autoSubscribeOnConnect''),
            autoConnect := truthy (get opts ''autoConnect''), ackTimeout := get opts ''ackTimeout'',
            connectTimeout := get opts ''connectTimeout'', pingTimeoutDisabled := truthy (get opts ''pingTimeoutDisabled''),
            channelPrefix := p, authTokenName := n\<rparr>)
      | _ \<Rightarrow> None)"

definition normal_path :: "string \<Rightarrow> string" where
  "normal_path s = (if s \<noteq> [] \<and> last s = CHR ''/'' then butlast s else s) @ ''/''"

definition normal_options :: "js \<Rightarrow> (string \<times> js) list outcome" where
  "normal_options opts =
     (case (opts, get opts ''path'') of
        (JObj ps, JStr p) \<Rightarrow>
          (let ps' = al_set ''path'' (JStr (normal_path p)) ps; query = get opts ''query''
           in if \<not> truthy query then Ok (al_set ''query'' (JObj []) ps')
              else (case query of JStr s \<Rightarrow> (case qs_decode (JStr s) 1000 of Parsed q \<Rightarrow> Ok (al_set ''query'' (JObj q) ps')
                        | Failed \<Rightarrow> Throws URIError | Outside \<Rightarrow> Unmodelled)
                    | _ \<Rightarrow> Ok (al_set ''query'' query ps')))
      | _ \<Rightarrow> Throws TypeError)"

text \<open>No listener is attached while a client is constructed.\<close>

definition silent :: "'a env \<Rightarrow> 'a env" where
  "silent E = E\<lparr>lis := \<lambda>_. skip\<rparr>"

definition new_socket :: "'a env \<Rightarrow> ('a env \<Rightarrow> 'a world) \<Rightarrow> js \<Rightarrow> ('a env \<times> js \<times> 'a world) outcome" where
  "new_socket B blank opts =
     (case client_env B opts of None \<Rightarrow> Unmodelled
      | Some E \<Rightarrow> (case construct (silent E) (blank E) of
           (Raise e, _) \<Rightarrow> Throws e | (Stuck, _) \<Rightarrow> Unmodelled
         | (Done _, w) \<Rightarrow> (case normal_options opts of Ok ps \<Rightarrow> Ok (E, JObj ps, w) | Throws e \<Rightarrow> Throws e | Unmodelled \<Rightarrow> Unmodelled)))"

subsection \<open>The factory\<close>

record 'a factory =
  f_clients :: "(string \<times> nat) list"
  f_made :: nat
  f_id :: "nat \<Rightarrow> string"
  f_env :: "nat \<Rightarrow> 'a env"
  f_opts :: "nat \<Rightarrow> js"
  f_sock :: "nat \<Rightarrow> 'a world"

definition register :: "'a env \<Rightarrow> ('a env \<Rightarrow> 'a world) \<Rightarrow> js \<Rightarrow> string \<Rightarrow> 'a factory \<Rightarrow> nat outcome \<times> 'a factory" where
  "register B blank opts k f =
     (case new_socket B blank opts of
        Ok (E, ps, w) \<Rightarrow> (Ok (f_made f), f\<lparr>f_clients := al_set k (f_made f) (f_clients f), f_made := Suc (f_made f),
           f_id := (f_id f)(f_made f := k), f_env := (f_env f)(f_made f := E),
           f_opts := (f_opts f)(f_made f := ps), f_sock := (f_sock f)(f_made f := w)\<rparr>)
      | Throws e \<Rightarrow> (Throws e, f) | Unmodelled \<Rightarrow> (Unmodelled, f))"

definition outcome_of :: "'x \<Rightarrow> 'r res \<Rightarrow> 'x outcome" where
  "outcome_of x r = (case r of Done _ \<Rightarrow> Ok x | Raise e \<Rightarrow> Throws e | Stuck \<Rightarrow> Unmodelled)"

definition on_socket :: "nat \<Rightarrow> ('a env \<Rightarrow> ('a world, unit) act) \<Rightarrow> 'a factory \<Rightarrow> nat outcome \<times> 'a factory" where
  "on_socket i m f = (case m (f_env f i) (f_sock f i) of (r, w) \<Rightarrow> (outcome_of i r, f\<lparr>f_sock := (f_sock f)(i := w)\<rparr>))"

definition effective :: "js \<Rightarrow> js \<Rightarrow> exn + js" where
  "effective loc options =
     (case check_host options of Some e \<Rightarrow> Inl e
      | None \<Rightarrow> (case own_entries options of Inl e \<Rightarrow> Inl e
         | Inr kvs \<Rightarrow> Inr (merged (default_options loc options) kvs)))"

definition create :: "'a env \<Rightarrow> ('a env \<Rightarrow> 'a world) \<Rightarrow> js \<Rightarrow> int list \<Rightarrow> js \<Rightarrow> 'a factory \<Rightarrow> nat outcome \<times> 'a factory" where
  "create B blank loc rng options f =
     (case effective loc (if truthy options then options else JObj []) of Inl e \<Rightarrow> (Throws e, f)
      | Inr opts \<Rightarrow>
          if get opts ''multiplex'' = JBool False then
            (case v4 NoOptions None 0 rng of Text k \<Rightarrow> register B blank opts k f | _ \<Rightarrow> (Unmodelled, f))
          else (case getMultiplexId B opts of Inl e \<Rightarrow> (Throws e, f)
            | Inr k \<Rightarrow> (case map_of (f_clients f) k of None \<Rightarrow> register B blank opts k f
               | Some i \<Rightarrow> if truthy (get opts ''autoConnect'') then on_socket i connect f else (Ok i, f))))"

text \<open>The module's \<open>destroy\<close>, and the client's own, which leaves the registry last.\<close>

definition destroy_client :: "nat \<Rightarrow> js \<Rightarrow> js \<Rightarrow> 'a factory \<Rightarrow> nat outcome \<times> 'a factory" where
  "destroy_client i code data f =
     (case on_socket i (\<lambda>E. Sc_Client.destroy E code data) f of
        (Ok j, f') \<Rightarrow> (Ok j, f'\<lparr>f_clients := al_del (f_id f' i) (f_clients f')\<rparr>)
      | r \<Rightarrow> r)"

definition destroy_socket :: "nat \<Rightarrow> 'a factory \<Rightarrow> nat outcome \<times> 'a factory" where
  "destroy_socket i = destroy_client i JUndef JUndef"

subsection \<open>The address of the server\<close>

text \<open>\<open>v != n\<close>, the loose comparison of a value with a number.\<close>

definition loose_num :: "'a env \<Rightarrow> js \<Rightarrow> jnum" where
  "loose_num E v = (case v of JUndef \<Rightarrow> NaN | JNull \<Rightarrow> NaN | JBool b \<Rightarrow> Fin (if b then 1 else 0)
     | JNum n \<Rightarrow> n | _ \<Rightarrow> str_to_number (to_key E v))"

definition stamped :: "'a env \<Rightarrow> js \<Rightarrow> int \<Rightarrow> js" where
  "stamped E opts now =
     (let query = (if truthy (get opts ''query'') then get opts ''query'' else JObj [])
      in if truthy (get opts ''timestampRequests'')
         then (case query of JObj ps \<Rightarrow> JObj (al_set (to_key E (get opts ''timestampParam'')) (JNum (Fin (of_int now))) ps) | _ \<Rightarrow> query)
         else query)"

definition uri_host :: "'a env \<Rightarrow> js \<Rightarrow> string" where
  "uri_host E opts =
     (if truthy (get opts ''host'') then to_key E (get opts ''host'')
      else let standard = (if truthy (get opts ''secure'') then 443 else 80); port = get opts ''port''
           in to_key E (get opts ''hostname'')
              @ (if truthy port \<and> loose_num E port \<noteq> Fin standard then '':'' @ to_key E port else ''''))"

definition uri :: "'a env \<Rightarrow> js \<Rightarrow> int \<Rightarrow> string" where
  "uri E opts now =
     (let query = qs_encode (\<lambda>q. text_of E (JNum (Fin q))) (stamped E opts now) ''''
      in (if truthy (get opts ''secure'') then ''wss'' else ''ws'') @ ''://'' @ uri_host E opts
         @ to_key E (get opts ''path'') @ (if query \<noteq> '''' then ''?'' @ query else ''''))"

subsection \<open>Runs of a program that uses the factory\<close>

definition no_clients :: "'a factory" where
  "no_clients = \<lparr>f_clients = [], f_made = 0, f_id = \<lambda>_. '''', f_env = undefined, f_opts = \<lambda>_. JUndef, f_sock = undefined\<rparr>"

datatype use = Make "int list" js | Discard nat js js | Use nat input

fun use_ok :: "use \<Rightarrow> 'a factory \<Rightarrow> bool" where
  "use_ok (Make rng options) f = bytes16 rng"
| "use_ok (Discard i code data) f = (i < f_made f)"
| "use_ok (Use i x) f = (i < f_made f \<and> enabled x (f_sock f i) \<and> (\<nexists>code data. x = Api (Destroy code data)))"

fun apply_use :: "'a env \<Rightarrow> ('a env \<Rightarrow> 'a world) \<Rightarrow> js \<Rightarrow> use \<Rightarrow> 'a factory \<Rightarrow> nat outcome \<times> 'a factory" where
  "apply_use B blank loc (Make rng options) f = create B blank loc rng options f"
| "apply_use B blank loc (Discard i code data) f = destroy_client i code data f"
| "apply_use B blank loc (Use i x) f = on_socket i (\<lambda>E. run E x) f"

inductive made :: "'a env \<Rightarrow> ('a env \<Rightarrow> 'a world) \<Rightarrow> js \<Rightarrow> 'a factory \<Rightarrow> bool" for B blank loc where
  made_none: "made B blank loc no_clients"
| made_use: "made B blank loc f \<Longrightarrow> use_ok u f \<Longrightarrow> made B blank loc (snd (apply_use B blank loc u f))"

text \<open>The registry holds clients under their own ids.\<close>

definition registry_ok :: "'a factory \<Rightarrow> bool" where
  "registry_ok f \<longleftrightarrow> (\<forall>k i. map_of (f_clients f) k = Some i \<longrightarrow> i < f_made f \<and> f_id f i = k)"

named_theorems factory_frame \<open>what the operations on one client leave of the factory\<close>

lemma on_socket_frame [factory_frame]:
  "f_clients (snd (on_socket i m f)) = f_clients f" "f_made (snd (on_socket i m f)) = f_made f"
  "f_id (snd (on_socket i m f)) = f_id f" "f_env (snd (on_socket i m f)) = f_env f"
  "f_opts (snd (on_socket i m f)) = f_opts f"
  "f_sock (snd (on_socket i m f)) = (f_sock f)(i := snd (m (f_env f i) (f_sock f i)))"
  by (simp_all add: on_socket_def split: prod.split)

lemma destroy_client_frame [factory_frame]:
  "f_made (snd (destroy_client i code data f)) = f_made f" "f_id (snd (destroy_client i code data f)) = f_id f"
  "f_env (snd (destroy_client i code data f)) = f_env f" "f_opts (snd (destroy_client i code data f)) = f_opts f"
  "f_sock (snd (destroy_client i code data f)) = (f_sock f)(i := snd (Sc_Client.destroy (f_env f i) code data (f_sock f i)))"
  using on_socket_frame [of i "\<lambda>E. Sc_Client.destroy E code data" f]
  by (auto simp: destroy_client_def split: prod.split outcome.split)

lemma destroy_client_registry:
  "map_of (f_clients (snd (destroy_client i code data f))) k = Some j \<Longrightarrow> map_of (f_clients f) k = Some j"
  using on_socket_frame(1) [of i "\<lambda>E. Sc_Client.destroy E code data" f]
  by (auto simp: destroy_client_def split: prod.splits outcome.splits if_splits)

lemma register_ok: "registry_ok f \<Longrightarrow> registry_ok (snd (register B blank opts k f))"
  by (auto simp: register_def registry_ok_def less_Suc_eq split: outcome.split)

lemma create_cases:
  obtains (refused) e where "create B blank loc rng options f = (Throws e, f)"
  | (unmodelled) "create B blank loc rng options f = (Unmodelled, f)"
  | (fresh) opts k where "create B blank loc rng options f = register B blank opts k f"
      "map_of (f_clients f) k = None \<or> v4 NoOptions None 0 rng = Text k"
  | (shared) opts k i where "effective loc (if truthy options then options else JObj []) = Inr opts"
      "get opts ''multiplex'' \<noteq> JBool False" "getMultiplexId B opts = Inr k" "map_of (f_clients f) k = Some i"
      "create B blank loc rng options f = (if truthy (get opts ''autoConnect'') then on_socket i connect f else (Ok i, f))"
proof (cases "effective loc (if truthy options then options else JObj [])")
  case (Inl e)
  then show ?thesis using refused by (simp add: create_def)
next
  case (Inr opts)
  show ?thesis
  proof (cases "get opts ''multiplex'' = JBool False")
    case True
    then show ?thesis using Inr fresh unmodelled
      by (cases "v4 NoOptions None 0 rng") (simp_all add: create_def)
  next
    case False
    show ?thesis
    proof (cases "getMultiplexId B opts")
      case (Inr k)
      then show ?thesis using False \<open>effective _ _ = Inr opts\<close> fresh [of opts k] shared [of opts k]
        by (cases "map_of (f_clients f) k") (simp_all add: create_def)
    qed (use False Inr refused in \<open>simp add: create_def\<close>)
  qed
qed

lemma create_ok: "registry_ok f \<Longrightarrow> registry_ok (snd (create B blank loc rng options f))"
  by (cases rule: create_cases [of B blank loc rng options f])
    (simp_all add: register_ok, auto simp: registry_ok_def factory_frame)

lemma made_registry: "made B blank loc f \<Longrightarrow> registry_ok f"
proof (induction rule: made.induct)
  case (made_use f u)
  then show ?case
    by (cases u) (simp_all add: create_ok, auto simp: registry_ok_def factory_frame dest: destroy_client_registry)
qed (simp add: registry_ok_def no_clients_def)

text \<open>The id by which a client with these options is shared, if it is.\<close>

definition shared_id :: "'a env \<Rightarrow> js \<Rightarrow> js \<Rightarrow> string option" where
  "shared_id B loc options =
     (case effective loc (if truthy options then options else JObj []) of Inl _ \<Rightarrow> None
      | Inr opts \<Rightarrow> if get opts ''multiplex'' = JBool False then None
          else (case getMultiplexId B opts of Inl _ \<Rightarrow> None | Inr k \<Rightarrow> Some k))"

lemma register_result:
  assumes "register B blank opts k f = (Ok i, f')"
  shows "i = f_made f \<and> f_made f' = Suc i \<and> f_id f' = (f_id f)(i := k) \<and> f_clients f' = al_set k i (f_clients f)"
  using assms by (auto simp: register_def split: outcome.splits)

lemma on_socket_result: "on_socket i m f = (Ok j, f') \<Longrightarrow> j = i"
  by (auto simp: on_socket_def outcome_of_def split: prod.splits res.splits)

lemma create_shared:
  assumes "shared_id B loc options = Some k" and "create B blank loc rng options f = (Ok i, f')" and "registry_ok f"
  shows "map_of (f_clients f') k = Some i \<and> f_id f' i = k
    \<and> (case map_of (f_clients f) k of Some j \<Rightarrow> i = j \<and> f_made f' = f_made f \<and> f_id f' = f_id f
       | None \<Rightarrow> i = f_made f \<and> f_made f' = Suc i \<and> (\<forall>j<i. f_id f' j = f_id f j))"
proof -
  obtain opts where opts: "effective loc (if truthy options then options else JObj []) = Inr opts"
    "get opts ''multiplex'' \<noteq> JBool False" "getMultiplexId B opts = Inr k"
    using assms(1) by (auto simp: shared_id_def split: sum.splits if_splits)
  show ?thesis
  proof (cases "map_of (f_clients f) k")
    case None
    then have "register B blank opts k f = (Ok i, f')" using assms(2) opts by (simp add: create_def)
    from register_result [OF this] None show ?thesis by simp
  next
    case (Some j)
    then have c: "(if truthy (get opts ''autoConnect'') then on_socket j connect f else (Ok j, f)) = (Ok i, f')"
      using assms(2) opts by (simp add: create_def)
    have "i = j" using c on_socket_result by (auto split: if_splits)
    moreover have "f' = f \<or> f' = snd (on_socket j connect f)" using c by (auto split: if_splits)
    moreover have "f_id f j = k" using assms(3) Some by (simp add: registry_ok_def)
    ultimately show ?thesis using Some by (auto simp: factory_frame)
  qed
qed

lemma uuid_not_http: "bytes16 rng \<Longrightarrow> v4 NoOptions None 0 rng = Text k \<Longrightarrow> \<not> prefix ''http'' k"
proof
  assume r: "bytes16 rng" and v: "v4 NoOptions None 0 rng = Text k" and "prefix ''http'' k"
  then have "CHR ''h'' \<in> set k" by (auto simp: prefix_def)
  moreover have "set k \<subseteq> set ''-0123456789abcdef''"
    using v v4_text [OF r] uuid_chars [OF bytes16_v4 [OF r]] by simp
  ultimately show False by auto
qed

lemma multiplex_http: "getMultiplexId B opts = Inr k \<Longrightarrow> prefix ''http'' k"
  by (auto simp: getMultiplexId_def Let_def split: sum.splits)

lemma shared_http: "shared_id B loc options = Some k \<Longrightarrow> prefix ''http'' k"
  by (auto simp: shared_id_def multiplex_http split: sum.splits if_splits)

fun discards :: "use \<Rightarrow> bool" where
  "discards (Discard i code data) = True"
| "discards _ = False"

lemma use_keeps_registered:
  assumes "map_of (f_clients f) k = Some i" and "prefix ''http'' k" and "use_ok u f" and "\<not> discards u"
  shows "map_of (f_clients (snd (apply_use B blank loc u f))) k = Some i"
proof (cases u)
  case (Make rng options)
  have "map_of (f_clients (snd (register B blank opts k' f))) k = Some i"
    if "map_of (f_clients f) k' = None \<or> v4 NoOptions None 0 rng = Text k'" for opts k'
  proof -
    have "k' \<noteq> k" using that assms uuid_not_http [of rng k'] Make by auto
    then show ?thesis using assms(1) by (auto simp: register_def split: outcome.split)
  qed
  then show ?thesis using Make assms(1)
    by (cases rule: create_cases [of B blank loc rng options f]) (simp_all add: factory_frame)
qed (use assms in \<open>simp_all add: factory_frame\<close>)

fun run_uses :: "'a env \<Rightarrow> ('a env \<Rightarrow> 'a world) \<Rightarrow> js \<Rightarrow> use list \<Rightarrow> 'a factory \<Rightarrow> 'a factory" where
  "run_uses B blank loc [] f = f"
| "run_uses B blank loc (u # us) f = run_uses B blank loc us (snd (apply_use B blank loc u f))"

fun uses_ok :: "'a env \<Rightarrow> ('a env \<Rightarrow> 'a world) \<Rightarrow> js \<Rightarrow> use list \<Rightarrow> 'a factory \<Rightarrow> bool" where
  "uses_ok B blank loc [] f = True"
| "uses_ok B blank loc (u # us) f = (use_ok u f \<and> uses_ok B blank loc us (snd (apply_use B blank loc u f)))"

lemma uses_keep_registered:
  "\<lbrakk>map_of (f_clients f) k = Some i; prefix ''http'' k; uses_ok B blank loc us f; list_all (\<lambda>u. \<not> discards u) us\<rbrakk> \<Longrightarrow>
   map_of (f_clients (run_uses B blank loc us f)) k = Some i"
  by (induction us arbitrary: f) (simp_all add: use_keeps_registered)

lemma uses_made: "made B blank loc f \<Longrightarrow> uses_ok B blank loc us f \<Longrightarrow> made B blank loc (run_uses B blank loc us f)"
  by (induction us arbitrary: f) (auto intro: made_use)

text \<open>
  C20: \<open>create\<close> shares clients by multiplex id: as long as no client is destroyed, whatever
  else the program does with the factory and its clients in between, a second \<open>create\<close>
  gives the client of the first exactly when the ids are equal, and then makes no new one.
\<close>

theorem create_shares_one_client:
  assumes "made B blank loc f" and "bytes16 rng"
    and "shared_id B loc first = Some k" and "shared_id B loc second = Some k'"
    and "create B blank loc rng first f = (Ok i, f1)"
    and "uses_ok B blank loc us f1" and "list_all (\<lambda>u. \<not> discards u) us"
    and "create B blank loc rng' second (run_uses B blank loc us f1) = (Ok j, f2)"
  shows "(j = i \<longleftrightarrow> k' = k) \<and> (k' = k \<longrightarrow> f_made f2 = f_made (run_uses B blank loc us f1))"
proof -
  let ?g = "run_uses B blank loc us f1"
  have f1: "f1 = snd (apply_use B blank loc (Make rng first) f)" using assms(5) by simp
  have m1: "made B blank loc f1" unfolding f1 using assms(1,2) by (intro made_use) simp_all
  then have g: "registry_ok ?g" using made_registry uses_made assms(6) by blast
  have "map_of (f_clients f1) k = Some i" using create_shared [OF assms(3,5) made_registry [OF assms(1)]] by simp
  then have reg: "map_of (f_clients ?g) k = Some i"
    using shared_http [OF assms(3)] uses_keep_registered assms(6,7) by blast
  note c = create_shared [OF assms(4,8) g]
  show ?thesis
  proof (cases "k' = k")
    case True
    then show ?thesis using c reg by simp
  next
    case False
    have i: "i < f_made ?g" "f_id ?g i = k" using g reg by (auto simp: registry_ok_def)
    have "j \<noteq> i"
    proof (cases "map_of (f_clients ?g) k'")
      case None
      with c i show ?thesis by simp
    next
      case (Some n)
      then have "j = n" "f_id ?g n = k'" using c g by (simp_all add: registry_ok_def)
      with False i(2) show ?thesis by metis
    qed
    then show ?thesis using False by simp
  qed
qed

subsection \<open>What \<open>create\<close> refuses\<close>

lemma connect_silent: "fst (connect (silent E) w) = Done ()"
  by (simp add: silent_def connect_def emit_local_def call_out_def on_sc_error_def bnd_def act_eval no_reconnect_def split: option.split)

lemma construct_silent:
  "fst (construct (silent E) w) = Done () \<or> (\<exists>m. fst (construct (silent E) w) = Raise (invalid m))"
  using connect_silent [of E w]
  by (auto simp: construct_def invalid_def bnd_def act_eval silent_def split: prod.split)

definition refusal :: "exn \<Rightarrow> bool" where
  "refusal e \<longleftrightarrow> e = TypeError \<or> e = URIError \<or> (\<exists>m. e = invalid m)"

lemma new_socket_throws: "new_socket B blank opts = Throws e \<Longrightarrow> refusal e"
proof -
  assume t: "new_socket B blank opts = Throws e"
  obtain E where E: "client_env B opts = Some E" using t by (auto simp: new_socket_def split: option.splits)
  obtain r w where c: "construct (silent E) (blank E) = (r, w)" by (cases "construct (silent E) (blank E)")
  have n: "normal_options opts = Throws x \<Longrightarrow> refusal x" for x
    by (auto simp: normal_options_def refusal_def Let_def split: js.splits parsed.splits if_splits)
  from construct_silent [of E "blank E"] show ?thesis
  proof
    assume "fst (construct (silent E) (blank E)) = Done ()"
    then show ?thesis using t n by (auto simp: new_socket_def E c split: outcome.splits)
  next
    assume "\<exists>m. fst (construct (silent E) (blank E)) = Raise (invalid m)"
    then show ?thesis using t by (auto simp: new_socket_def E c refusal_def)
  qed
qed

lemma effective_refusal: "effective loc options = Inl e \<Longrightarrow> refusal e"
  by (auto simp: effective_def check_host_def own_entries_def refusal_def Let_def split: option.splits sum.splits js.splits if_splits)

lemma register_throws: "register B blank opts k f = (Throws e, f') \<Longrightarrow> f' = f \<and> refusal e"
  using new_socket_throws by (auto simp: register_def split: outcome.splits)

lemma multiplex_refusal: "getMultiplexId B opts = Inl e \<Longrightarrow> refusal e"
  by (auto simp: getMultiplexId_def own_entries_def refusal_def Let_def split: sum.splits js.splits if_splits)

lemma host_ok_iff:
  "host_ok s \<longleftrightarrow> (\<exists>a c d d' b. s = a @ [c, CHR '':'', d, d'] @ b \<and> c \<noteq> CHR '':'' \<and> is_digit d \<and> is_digit d')"
proof (induction s rule: host_ok.induct)
  case (1 a b c d s)
  show ?case
  proof
    assume h: "host_ok (a # b # c # d # s)"
    show "\<exists>a' c' d1 d2 b'. a # b # c # d # s = a' @ [c', CHR '':'', d1, d2] @ b' \<and> c' \<noteq> CHR '':'' \<and> is_digit d1 \<and> is_digit d2"
    proof (cases "host_ok (b # c # d # s)")
      case True
      with 1 show ?thesis by (metis append_Cons)
    next
      case False
      then have "a \<noteq> CHR '':'' \<and> b = CHR '':'' \<and> is_digit c \<and> is_digit d" using h by simp
      then show ?thesis by (intro exI [of _ "[]"] exI [of _ a] exI [of _ c] exI [of _ d] exI [of _ s]) simp
    qed
  next
    assume "\<exists>a' c' d1 d2 b'. a # b # c # d # s = a' @ [c', CHR '':'', d1, d2] @ b' \<and> c' \<noteq> CHR '':'' \<and> is_digit d1 \<and> is_digit d2"
    then obtain a' c' d1 d2 b' where e: "a # b # c # d # s = a' @ [c', CHR '':'', d1, d2] @ b'"
      "c' \<noteq> CHR '':''" "is_digit d1" "is_digit d2" by blast
    show "host_ok (a # b # c # d # s)"
    proof (cases a')
      case Nil
      then show ?thesis using e by simp
    next
      case (Cons x xs)
      then have "b # c # d # s = xs @ [c', CHR '':'', d1, d2] @ b'" using e(1) by simp
      then have "host_ok (b # c # d # s)" using 1 e(2-4) by blast
      then show ?thesis by simp
    qed
  qed
qed (auto simp: append_eq_Cons_conv)

text \<open>
  \<open>create\<close> refuses a \<open>host\<close> without a port of at least two digits behind it, or one given
  together with a \<open>hostname\<close> or a \<open>port\<close>, with an invalid-arguments error; and whenever it
  throws, no client is made or changed and what it throws is such an error, a
  \<open>TypeError\<close> or (for a malformed query text) a \<open>URIError\<close>, unless it was a listener of a
  shared client that threw while the client connected again.
\<close>

theorem create_refuses:
  "(get options ''host'' = JStr h \<and> h \<noteq> '''' \<and>
      ((\<nexists>a c d d' b. h = a @ [c, CHR '':'', d, d'] @ b \<and> c \<noteq> CHR '':'' \<and> is_digit d \<and> is_digit d')
       \<or> truthy (get options ''hostname'') \<or> truthy (get options ''port''))
      \<longrightarrow> (\<exists>m. create B blank loc rng options f = (Throws (invalid m), f)))
   \<and> (create B blank loc rng options f = (Throws e, f') \<longrightarrow>
      f' = f \<and> refusal e \<or> (\<exists>k i. map_of (f_clients f) k = Some i \<and> on_socket i connect f = (Throws e, f')))"
proof (intro conjI impI)
  assume h: "get options ''host'' = JStr h \<and> h \<noteq> '''' \<and>
      ((\<nexists>a c d d' b. h = a @ [c, CHR '':'', d, d'] @ b \<and> c \<noteq> CHR '':'' \<and> is_digit d \<and> is_digit d')
       \<or> truthy (get options ''hostname'') \<or> truthy (get options ''port''))"
  then have "truthy options" by (cases options) auto
  moreover have "\<exists>m. check_host options = Some (invalid m)"
    using h unfolding host_ok_iff [symmetric] by (auto simp: check_host_def Let_def)
  ultimately show "\<exists>m. create B blank loc rng options f = (Throws (invalid m), f)"
    by (auto simp: create_def effective_def)
next
  assume c: "create B blank loc rng options f = (Throws e, f')"
  let ?o = "if truthy options then options else JObj []"
  show "f' = f \<and> refusal e \<or> (\<exists>k i. map_of (f_clients f) k = Some i \<and> on_socket i connect f = (Throws e, f'))"
  proof (cases "effective loc ?o")
    case (Inl x)
    then show ?thesis using c effective_refusal by (auto simp: create_def)
  next
    case (Inr opts)
    then show ?thesis using c
      by (auto simp: create_def dest!: register_throws dest: multiplex_refusal split: if_splits uuid_out.splits sum.splits option.splits)
  qed
qed

subsection \<open>Clients with the default options\<close>

lemmas text_eval = key_order_def is_index_key_def is_digit_def digits_val_def digit_val_def
  to_key_def show_int_def show_nat_numeral digit_chr_def

definition default_client :: "'a env \<Rightarrow> 'a env" where
  "default_client B = B\<lparr>autoReconnect := True, initialDelay := 10000, randomness := 10000, multiplier := 3 / 2,
     maxDelay := 60000, autoSubscribeOnConnect := True, autoConnect := True, ackTimeout := JNum (Fin 10000),
     connectTimeout := JNum (Fin 20000), pingTimeoutDisabled := False, channelPrefix := '''',
     authTokenName := ''socketCluster.authToken''\<rparr>"

definition query_options :: "js \<Rightarrow> js" where
  "query_options q = JObj (default_options JUndef (JObj []) @ [(''query'', q)])"

lemma construct_starts:
  "\<not> too_long (connectTimeout E) \<Longrightarrow> \<not> too_long (ackTimeout E) \<Longrightarrow>
   construct (silent E) w = (Done (), snd (construct (silent E) w))"
  using connect_silent [of E w]
  by (simp add: silent_def construct_def bnd_def act_eval prod_eq_iff split: prod.split)

lemma effective_query: "effective JUndef (JObj [(''query'', q)]) = Inr (query_options q)"
  by (simp add: effective_def check_host_def own_entries_def merged_def default_options_def entries_def getPort_def
      isUrlSecure_def text_eval query_options_def)

lemma query_options_get:
  "get (query_options q) ''multiplex'' = JBool True" "get (query_options q) ''autoConnect'' = JBool True"
  "get (query_options q) ''query'' = q" "get (query_options q) ''secure'' = JUndef" "get (query_options q) ''host'' = JUndef"
  "get (query_options q) ''hostname'' = JStr ''localhost''" "get (query_options q) ''path'' = JStr ''/socketcluster/''"
  "get (query_options q) ''port'' = JNum (Fin 80)"
  by (simp_all add: query_options_def default_options_def getPort_def isUrlSecure_def)

lemma client_env_query: "client_env B (query_options q) = Some (default_client B)"
  by (simp add: client_env_def query_options_def default_options_def reconnect_options_def default_client_def)

lemma new_socket_query:
  "new_socket B blank (query_options q) =
     (case normal_options (query_options q) of
        Ok ps \<Rightarrow> Ok (default_client B, JObj ps, snd (construct (silent (default_client B)) (blank (default_client B))))
      | Throws e \<Rightarrow> Throws e | Unmodelled \<Rightarrow> Unmodelled)"
proof -
  define w where "w = snd (construct (silent (default_client B)) (blank (default_client B)))"
  have "construct (silent (default_client B)) (blank (default_client B)) = (Done (), w)"
    unfolding w_def by (rule construct_starts) (simp_all add: default_client_def too_long_def)
  then show ?thesis by (simp add: new_socket_def client_env_query split: outcome.split)
qed

lemma normal_query:
  "normal_options (query_options q) =
     (let ps = al_set ''path'' (JStr ''/socketcluster/'') (default_options JUndef (JObj []) @ [(''query'', q)])
      in if \<not> truthy q then Ok (al_set ''query'' (JObj []) ps)
         else (case q of JStr s \<Rightarrow> (case qs_decode (JStr s) 1000 of Parsed r \<Rightarrow> Ok (al_set ''query'' (JObj r) ps)
               | Failed \<Rightarrow> Throws URIError | Outside \<Rightarrow> Unmodelled)
           | _ \<Rightarrow> Ok (al_set ''query'' q ps)))"
proof -
  have "normal_path ''/socketcluster/'' = ''/socketcluster/''" by (simp add: normal_path_def)
  then show ?thesis unfolding normal_options_def query_options_get
    by (simp only: query_options_def js.case prod.case query_options_get Let_def)
qed

text \<open>At options with a host without a port, and at options whose query text is malformed.\<close>

theorem create_refuses_witness:
  "(\<exists>m. create demo_env (\<lambda>E. initial_world E (\<lambda>_. 0) [] False ()) JUndef [] (JObj [(''host'', JStr ''example.com'')]) no_clients = (Throws (invalid m), no_clients))
   \<and> create demo_env (\<lambda>E. initial_world E (\<lambda>_. 0) [] False ()) JUndef [] (JObj [(''query'', JStr ''%'')]) no_clients = (Throws URIError, no_clients)"
proof -
  have "\<nexists>a c d d' b. ''example.com'' = a @ [c, CHR '':'', d, d'] @ b \<and> c \<noteq> CHR '':'' \<and> is_digit d \<and> is_digit d'"
    unfolding host_ok_iff [symmetric] by simp
  then have "\<exists>m. create demo_env (\<lambda>E. initial_world E (\<lambda>_. 0) [] False ()) JUndef [] (JObj [(''host'', JStr ''example.com'')]) no_clients = (Throws (invalid m), no_clients)"
    using create_refuses [of "JObj [(''host'', JStr ''example.com'')]" "''example.com''" demo_env "\<lambda>E. initial_world E (\<lambda>_. 0) [] False ()" JUndef "[]" no_clients] by simp
  moreover have "normal_options (query_options (JStr ''%'')) = Throws URIError"
    by (simp add: normal_query qs_decode_def parse_part_def plus_to_space_def Let_def)
  then have "create demo_env (\<lambda>E. initial_world E (\<lambda>_. 0) [] False ()) JUndef [] (JObj [(''query'', JStr ''%'')]) no_clients = (Throws URIError, no_clients)"
    by (simp add: create_def effective_query query_options_get register_def new_socket_query getMultiplexId_def no_clients_def)
  ultimately show ?thesis by blast
qed

end
