(* ===== verification/Factory_Runs.thy ===== *)
theory Factory_Runs
  imports Factory Sc_Demo
begin

text \<open>
  The factory and its clients together: every client a factory has made keeps the invariant
  of \<open>Sc_Inv\<close>, and what goes wrong with the sharing of clients.
\<close>

subsection \<open>A run\<close>

definition demo_blank :: "unit env \<Rightarrow> unit world" where
  "demo_blank E = initial_world E (\<lambda>_. 1 / 2) [] False ()"

lemmas factory_eval = create_def effective_query query_options_get register_def new_socket_query normal_query getMultiplexId_def no_clients_def

lemma null_key: "to_key B (JNum (Fin 80)) = ''80''" "to_key B (JStr s) = s"
  by (simp_all add: to_key_def show_int_def show_nat_numeral digit_chr_def)

definition demo_bytes :: "int list" where
  "demo_bytes = mathRNG (\<lambda>_. 1 / 2)"

definition demo_first :: "unit factory" where
  "demo_first = snd (create demo_env demo_blank JUndef demo_bytes (JObj [(''query'', JNull)]) no_clients)"

definition demo_gone :: "unit factory" where
  "demo_gone = snd (destroy_socket 0 demo_first)"

definition demo_next :: "unit factory" where
  "demo_next = snd (create demo_env demo_blank JUndef demo_bytes (JObj [(''query'', JNull)]) demo_gone)"

lemma env_id: "default_client demo_env = demo_env" "silent demo_env = demo_env"
  by (simp_all add: default_client_def silent_def demo_env_def default_env_def)


lemma demo_first_sel:
  "f_clients demo_first = [(''http://localhost:80/socketcluster/'', 0)]" "f_made demo_first = 1"
  "f_id demo_first 0 = ''http://localhost:80/socketcluster/''" "f_env demo_first 0 = demo_env" "f_sock demo_first 0 = demo_start"
  by (simp_all add: demo_first_def factory_eval null_key demo_blank_def demo_start_def env_id Let_def)

lemma demo_started: "n_trs demo_start = 1 \<and> t_conn_timer (trs demo_start 0)"
  by (simp add: demo_start_def demo_eval)

lemma demo_destroyed:
  "fst (Sc_Client.destroy demo_env JUndef JUndef demo_start) = Done ()"
  "c_state (snd (Sc_Client.destroy demo_env JUndef JUndef demo_start)) = CLOSED"
  by (simp_all add: demo_start_def demo_eval Sc_Client.destroy_def disconnect_def transport_close_def on_close_def
     clear_timers_def on_sc_close_def suspendSubscriptions_def abort_all_buffered_def tryReconnect_def abort_transport_def shut_def Let_def on_sc_error_def immediate_codes_def for_channels_def socketProtocolIgnoreStatuses_def socketProtocolErrorStatuses_def fun_upd_def)

subsection \<open>Flaws of the sharing\<close>

lemma shared_query: "shared_id B JUndef (JObj [(''query'', JObj ps)]) =
   (case own_entries (JObj ps) of Inl _ \<Rightarrow> None | Inr kvs \<Rightarrow>
      Some (''http://localhost:80/socketcluster/'' @ (if kvs = [] then '''' else ''?'' @ join ''&'' (map (\<lambda>(k, v). k @ ''='' @ to_key B v) kvs))))"
proof -
  have p: "to_key B (JNum (Fin 80)) = ''80''" by (simp add: to_key_def show_int_def show_nat_numeral digit_chr_def)
  have t: "to_key B (JStr s) = s" for s by (simp add: to_key_def)
  show ?thesis
    by (auto simp: shared_id_def effective_query query_options_get getMultiplexId_def p t Let_def split: sum.splits)
qed

lemma query_uri:
  assumes "f_opts f i = JObj (al_set ''query'' q (al_set ''path'' (JStr ''/socketcluster/'') (default_options JUndef (JObj []) @ [(''query'', v)])))"
    and "truthy q"
  shows "uri E (f_opts f i) now = ''ws://localhost/socketcluster/'' @
    (let s = qs_encode (\<lambda>q. text_of E (JNum (Fin q))) q '''' in if s \<noteq> '''' then ''?'' @ s else '''')"
  using assms by (simp add: uri_def stamped_def uri_host_def loose_num_def to_key_def default_options_def getPort_def
      isUrlSecure_def Let_def)

text \<open>
  Multiplex ids do not escape the query: a second \<open>create\<close> that asks for the parameters
  \<open>room=1\<close> and \<open>admin=1\<close> is given the client of an earlier one that asked for the single
  parameter \<open>room\<close> with the value \<open>1&admin=1\<close>, and the connection carries the latter.
\<close>

theorem unescaped_ids_collide:
  "let (r1, f1) = create demo_env blank JUndef rng (JObj [(''query'', JObj [(''room'', JStr ''1&admin=1'')])]) no_clients;
       (r2, f2) = create demo_env blank JUndef rng' (JObj [(''query'', JObj [(''room'', JStr ''1''), (''admin'', JStr ''1'')])]) f1
   in r1 = Ok 0 \<and> r2 = Ok 0 \<and> f_made f2 = 1
     \<and> uri (f_env f2 0) (f_opts f2 0) now = ''ws://localhost/socketcluster/?room=1%26admin%3D1''"
proof -
  let ?q1 = "JObj [(''room'', JStr ''1&admin=1'')]" and ?q2 = "JObj [(''room'', JStr ''1''), (''admin'', JStr ''1'')]"
  let ?k = "''http://localhost:80/socketcluster/?room=1&admin=1''"
  have ids: "shared_id B JUndef (JObj [(''query'', ?q1)]) = Some ?k" "shared_id B JUndef (JObj [(''query'', ?q2)]) = Some ?k"
    for B :: "unit env"
    by (simp_all add: shared_query own_entries_def entries_def text_eval)
  define E where "E = default_client demo_env"
  let ?none = "no_clients :: unit factory"
  obtain ps w where f1: "create demo_env blank JUndef rng (JObj [(''query'', ?q1)]) no_clients =
      (Ok 0, ?none\<lparr>f_clients := [(?k, 0)], f_made := 1, f_id := (f_id ?none)(0 := ?k), f_env := (f_env ?none)(0 := E),
         f_opts := (f_opts ?none)(0 := JObj ps), f_sock := (f_sock ?none)(0 := w)\<rparr>)"
    and ps: "ps = al_set ''query'' ?q1 (al_set ''path'' (JStr ''/socketcluster/'') (default_options JUndef (JObj []) @ [(''query'', ?q1)]))"
    using ids(1) [of demo_env]
    by (auto simp: shared_id_def create_def effective_query query_options_get register_def new_socket_query normal_query
        no_clients_def E_def Let_def split: sum.splits)
  have s: "silent E = E" by (simp add: E_def silent_def default_client_def demo_env_def default_env_def)
  have c: "fst (connect E w) = Done ()" using connect_silent [of E w] unfolding s .
  define f1 where "f1 = ?none\<lparr>f_clients := [(?k, 0)], f_made := 1, f_id := (f_id ?none)(0 := ?k), f_env := (f_env ?none)(0 := E),
         f_opts := (f_opts ?none)(0 := JObj ps), f_sock := (f_sock ?none)(0 := w)\<rparr>"
  have f2: "create demo_env blank JUndef rng' (JObj [(''query'', ?q2)]) f1 = (Ok 0, snd (on_socket 0 connect f1))"
    using ids(2) [of demo_env] c
    by (auto simp: shared_id_def create_def effective_query query_options_get f1_def on_socket_def outcome_of_def
        split: sum.splits prod.splits)
  have opts: "f_opts (snd (on_socket 0 connect f1)) 0 = JObj ps" and made1: "f_made (snd (on_socket 0 connect f1)) = 1"
    by (simp_all add: factory_frame f1_def)
  have u: "uri (f_env (snd (on_socket 0 connect f1)) 0) (f_opts (snd (on_socket 0 connect f1)) 0) now
      = ''ws://localhost/socketcluster/?room=1%26admin%3D1''"
    by (subst query_uri [OF opts [unfolded ps]])
      (simp_all add: qs_encode_def encode_entry_def entries_def pair_def encodeURIComponent_def encode_char_def
        unreserved_def pct_def upper_hex_def text_eval)
  have c1: "create demo_env blank JUndef rng (JObj [(''query'', ?q1)]) no_clients = (Ok 0, f1)"
    unfolding f1 f1_def by (rule refl)
  show ?thesis unfolding Let_def c1 prod.case f2 using u made1 by simp
qed

text \<open>
  C32: Destroying a client that has been destroyed before removes from the registry whatever
  client has taken its id since: the successor stays as it is, active, but the next
  \<open>create\<close> with the same options makes another client beside it.
\<close>

theorem second_destroy_unregisters_successor:
  assumes "f_id f i = k" and "map_of (f_clients f) k = Some j" and "i \<noteq> j" and "j < f_made f" and "c_state (f_sock f i) = CLOSED"
    and "shared_id B loc options = Some k"
  shows "\<exists>f'. destroy_socket i f = (Ok i, f') \<and> map_of (f_clients f') k = None \<and> f_sock f' j = f_sock f j
     \<and> (\<forall>rng n f''. create B blank loc rng options f' = (Ok n, f'') \<longrightarrow> n \<noteq> j \<and> map_of (f_clients f'') k = Some n \<and> f_sock f'' j = f_sock f j)"
proof -
  let ?d = "\<lambda>E. Sc_Client.destroy E JUndef JUndef"
  have d: "on_socket i ?d f = (Ok i, snd (on_socket i ?d f))"
    using assms(5) by (simp add: on_socket_def outcome_of_def Sc_Client.destroy_def disconnect_def act_eval bnd_def no_reconnect_def)
  let ?g = "snd (on_socket i ?d f)"
  let ?f' = "?g\<lparr>f_clients := al_del (f_id ?g i) (f_clients ?g)\<rparr>"
  have f': "destroy_socket i f = (Ok i, ?f')"
    unfolding destroy_socket_def destroy_client_def by (subst d) simp
  have none: "map_of (f_clients ?f') k = None" and sock: "f_sock ?f' j = f_sock f j" and made': "f_made ?f' = f_made f"
    using assms(1,3) by (simp_all add: factory_frame)
  have "n \<noteq> j \<and> map_of (f_clients f'') k = Some n \<and> f_sock f'' j = f_sock f j"
    if c: "create B blank loc rng options ?f' = (Ok n, f'')" for rng n f''
  proof -
    obtain opts where "register B blank opts k ?f' = (Ok n, f'')"
      using c none assms(6) by (auto simp: create_def shared_id_def split: sum.splits if_splits)
    then show ?thesis using assms(3,4) made' sock
      by (auto simp: register_def split: outcome.splits)
  qed
  then show ?thesis using f' none sock by blast
qed

lemma demo_gone_sel:
  "f_clients demo_gone = []" "f_made demo_gone = 1" "f_id demo_gone = f_id demo_first"
  "c_state (f_sock demo_gone 0) = CLOSED"
proof -
  obtain w where d: "Sc_Client.destroy demo_env JUndef JUndef demo_start = (Done (), w)"
    using demo_destroyed(1) by (cases "Sc_Client.destroy demo_env JUndef JUndef demo_start") simp
  show "f_clients demo_gone = []"
    by (simp add: demo_gone_def destroy_socket_def destroy_client_def on_socket_def outcome_of_def demo_first_sel al_del_def d)
  show "f_made demo_gone = 1" "f_id demo_gone = f_id demo_first" "c_state (f_sock demo_gone 0) = CLOSED"
    using demo_destroyed(2) by (simp_all add: demo_gone_def destroy_socket_def factory_frame demo_first_sel)
qed

lemma demo_next_sel:
  "map_of (f_clients demo_next) ''http://localhost:80/socketcluster/'' = Some 1" "f_made demo_next = 2"
  "f_id demo_next 0 = ''http://localhost:80/socketcluster/''" "c_state (f_sock demo_next 0) = CLOSED"
  using demo_first_sel(3) demo_gone_sel
  by (simp_all add: demo_next_def create_def effective_query query_options_get register_def new_socket_query normal_query
      getMultiplexId_def null_key Let_def)

lemma demo_shared: "shared_id demo_env JUndef (JObj [(''query'', JNull)]) = Some ''http://localhost:80/socketcluster/''"
  by (simp add: shared_id_def effective_query query_options_get getMultiplexId_def null_key Let_def)

theorem second_destroy_unregisters_successor_witness:
  "\<exists>f'. destroy_socket 0 demo_next = (Ok 0, f') \<and> map_of (f_clients f') ''http://localhost:80/socketcluster/'' = None
     \<and> f_sock f' 1 = f_sock demo_next 1"
  using second_destroy_unregisters_successor [OF demo_next_sel(3,1) _ _ demo_next_sel(4) demo_shared, of demo_blank]
  by (auto simp: demo_next_sel)

theorem create_shares_one_client_witness:
  "let f = run_uses demo_env demo_blank JUndef [Use 0 (WsOpen 0)] demo_first;
       (r, f') = create demo_env demo_blank JUndef demo_bytes (JObj [(''query'', JNull)]) f
   in r = Ok 0 \<and> f_made f' = f_made f"
proof -
  let ?f = "run_uses demo_env demo_blank JUndef [Use 0 (WsOpen 0)] demo_first"
  let ?o = "JObj [(''query'', JNull)]"
  have first: "create demo_env demo_blank JUndef demo_bytes ?o no_clients = (Ok 0, demo_first)"
    unfolding demo_first_def by (simp add: factory_eval null_key Let_def)
  have ok: "uses_ok demo_env demo_blank JUndef [Use 0 (WsOpen 0)] demo_first"
    using demo_started by (simp add: demo_first_sel)
  have reg: "map_of (f_clients ?f) ''http://localhost:80/socketcluster/'' = Some 0" "f_env ?f 0 = demo_env"
    by (simp_all add: factory_frame demo_first_sel)
  obtain w where c: "connect demo_env (f_sock ?f 0) = (Done (), w)"
    using connect_silent [of demo_env "f_sock ?f 0"] unfolding env_id [unfolded silent_def]
    by (cases "connect demo_env (f_sock ?f 0)") (auto simp: env_id)
  obtain f' where again: "create demo_env demo_blank JUndef demo_bytes ?o ?f = (Ok 0, f')"
    using reg c by (simp add: create_def effective_query query_options_get getMultiplexId_def null_key Let_def on_socket_def outcome_of_def)
  have "bytes16 demo_bytes" unfolding demo_bytes_def by (rule bytes16_mathRNG)
  from create_shares_one_client [OF made_none this demo_shared demo_shared first ok _ again] again
  show ?thesis by simp
qed

subsection \<open>Every client of a factory keeps the client's invariant\<close>

definition all_synced :: "'a factory \<Rightarrow> bool" where
  "all_synced f \<longleftrightarrow> (\<forall>i<f_made f. synced (f_sock f i))"

lemma factory_synced:
  assumes env: "\<And>E opts. client_env B opts = Some E \<Longrightarrow> proper E"
    and m: "made B (\<lambda>E. initial_world E rnd st l a) loc f"
  shows "all_synced f \<and> (\<forall>i<f_made f. \<exists>opts. client_env B opts = Some (f_env f i))"
  using m
proof (induction rule: made.induct)
  case made_none
  then show ?case by (simp add: all_synced_def no_clients_def)
next
  case (made_use f u)
  let ?blank = "\<lambda>E. initial_world E rnd st l a"
  have C: "watch_invariant (f_env f i) synced" if "i < f_made f" for i
    by (rule core_synced) (use that env made_use.IH proper_keeps in blast)+
  have sock: "all_synced (snd (on_socket i (\<lambda>E. run E x) f)) \<and> f_env (snd (on_socket i (\<lambda>E. run E x) f)) = f_env f
      \<and> f_made (snd (on_socket i (\<lambda>E. run E x) f)) = f_made f" if "i < f_made f" for i x
    using made_use.IH hoareD [OF watch_invariant.any_run_keeps [OF C [OF that]]]
    by (auto simp: all_synced_def factory_frame)
  have reg: "all_synced (snd (register B ?blank opts k f)) \<and>
      (\<forall>i<f_made (snd (register B ?blank opts k f)). \<exists>os. client_env B os = Some (f_env (snd (register B ?blank opts k f)) i))" for opts k
  proof (cases "new_socket B ?blank opts")
    case (Ok x)
    obtain E ps w where x: "x = (E, ps, w)" by (cases x)
    have E: "client_env B opts = Some E" and w: "w = snd (construct (silent E) (?blank E))"
      using Ok x by (auto simp: new_socket_def split: option.splits prod.splits res.splits outcome.splits)
    have "synced w" unfolding w silent_def
      by (rule hoareD [OF construct_keeps [OF silent_synced.watch_invariant_axioms] synced_initial])
    then show ?thesis using Ok x E made_use.IH
      by (auto simp: register_def all_synced_def less_Suc_eq)
  qed (use made_use.IH in \<open>auto simp: register_def\<close>)
  show ?case
  proof (cases u)
    case (Make rng options)
    have reach: "i < f_made f" if "map_of (f_clients f) k = Some i" for k i
      using made_registry [OF made_use.hyps(1)] that by (simp add: registry_ok_def)
    have conn: "on_socket i connect f = on_socket i (\<lambda>E. run E (Api Connect)) f" for i by (simp add: on_socket_def)
    from Make show ?thesis
    proof (cases rule: create_cases [of B ?blank loc rng options f])
      case (shared opts k i)
      have "snd (create B ?blank loc rng options f) = f \<or> snd (create B ?blank loc rng options f) = snd (on_socket i (\<lambda>E. run E (Api Connect)) f)"
        unfolding shared(5) conn by simp
      then show ?thesis using Make made_use.IH sock [OF reach [OF shared(4)], of "Api Connect"]
        by (elim disjE) (simp only: apply_use.simps; blast)+
    next
      case (fresh opts k)
      show ?thesis unfolding Make apply_use.simps fresh(1) by (rule reg)
    qed (use Make made_use.IH in simp_all)
  next
    case (Discard i code data)
    have "all_synced (snd (destroy_client i code data f))" if "i < f_made f"
      using made_use.IH sock [OF that, of "Api (Destroy code data)"]
      by (auto simp: all_synced_def factory_frame)
    then show ?thesis using Discard made_use by (simp add: factory_frame)
  next
    case (Use i x)
    then show ?thesis using made_use sock by simp
  qed
qed

end
