(* ===== verification/Page.thy ===== *)
theory Page
  imports Factory Sc_Traffic
begin

text \<open>
  What the three page scripts (\<open>customjs.js\<close>, \<open>customjs-widget.js\<close>, \<open>customjs-admin.js\<close>)
  share: the language's loose comparisons and \<open>parseInt\<close>, the options they connect with,
  and their state, which is the program data of a client's world: the functions they have
  registered on channels, the requests to the site that wait for an answer, and the
  effects on the page. The page's own objects (\<open>lh_inst\<close>, \<open>lhinst\<close>, \<open>ee\<close>, \<open>confLH\<close>, the
  document) are not code of this repository: calls on them are recorded as effects, and
  what a script reads of them is a parameter.
\<close>

subsection \<open>Comparisons and numbers\<close>

definition loose_str :: "'a env \<Rightarrow> js \<Rightarrow> string \<Rightarrow> bool" where
  "loose_str E v s =
     (case v of JUndef \<Rightarrow> False | JNull \<Rightarrow> False | JStr t \<Rightarrow> t = s
      | JBool b \<Rightarrow> str_to_number s = Fin (if b then 1 else 0)
      | JNum n \<Rightarrow> n \<noteq> NaN \<and> str_to_number s = n
      | _ \<Rightarrow> to_key E v = s)"

definition loose_int :: "'a env \<Rightarrow> js \<Rightarrow> rat \<Rightarrow> bool" where
  "loose_int E v n \<longleftrightarrow> loose_num E v = Fin n"

text \<open>\<open>v > 0\<close>, where null counts as 0 and undefined as NaN.\<close>

definition positive :: "'a env \<Rightarrow> js \<Rightarrow> bool" where
  "positive E v = num_less (Fin 0) (loose_num E v)"

definition parse_int :: "string \<Rightarrow> jnum" where
  "parse_int s0 =
     (let s = dropWhile is_space_js s0;
          neg = (s \<noteq> [] \<and> hd s = CHR ''-'');
          t = (if s \<noteq> [] \<and> hd s \<in> set ''+-'' then tl s else s);
          hex = (take 2 t \<in> {''0x'', ''0X''});
          base = (if hex then 16 else 10);
          ds = takeWhile (\<lambda>c. digit_val c < base) (if hex then drop 2 t else t)
      in if ds = [] then NaN
         else of_exact ((if neg then -1 else 1) * of_nat (digits_val base ds)))"

subsection \<open>Options\<close>

definition connect_options :: "'a env \<Rightarrow> js \<Rightarrow> (string \<times> js) list \<Rightarrow> js" where
  "connect_options E cfg ps =
     (let qs = (if \<not> loose_str E (get cfg ''port'') ''''
                then al_set ''port'' (JNum (parse_int (to_key E (get cfg ''port'')))) ps else ps)
      in JObj (if loose_int E (get cfg ''secure'') 1 then al_set ''secure'' (JBool True) qs else qs))"

definition site_options :: "'a env \<Rightarrow> js \<Rightarrow> js" where
  "site_options E cfg = connect_options E cfg
     [(''hostname'', get cfg ''hostname''), (''path'', get cfg ''path''), (''authTokenName'', JStr ''socketCluster.authToken_vi'')]"

definition reconnect_soon :: js where
  "reconnect_soon = JObj [(''initialDelay'', JNum (Fin 5000)), (''randomness'', JNum (Fin 5000))]"

definition widget_options :: "'a env \<Rightarrow> js \<Rightarrow> js" where
  "widget_options E cfg = connect_options E cfg
     [(''hostname'', get cfg ''hostname''), (''path'', get cfg ''path''), (''autoReconnectOptions'', reconnect_soon)]"

definition admin_options :: "'a env \<Rightarrow> js \<Rightarrow> js" where
  "admin_options E cfg = connect_options E cfg
     [(''hostname'', get cfg ''hostname''), (''path'', get cfg ''path''),
      (''authTokenName'', JStr ''socketCluster.authToken_admin''), (''autoReconnectOptions'', reconnect_soon)]"

text \<open>The channel of an object of the site, with the installation in front when there are several.\<close>

definition instance_channel :: "'a env \<Rightarrow> js \<Rightarrow> string \<Rightarrow> js \<Rightarrow> string" where
  "instance_channel E cfg kind i =
     (if positive E (get cfg ''instance_id'') then kind @ to_key E (get cfg ''instance_id'') @ ''_'' @ to_key E i
      else kind @ to_key E i)"

subsection \<open>State and effects\<close>

text \<open>
  Effects on the page: a call of one of its functions, a listener put on or taken off its
  event emitter \<open>ee\<close>, an event emitted there, an assignment, a request to the site (with the
  number of its continuation), a change of the document, a line in the console.
\<close>

datatype effect =
    Invoke string "js list"
  | AddListener string
  | RemoveListener string
  | EmitPage string "js list"
  | Assign string js
  | Request nat
  | Document string js
  | Console js

text \<open>
  The registered functions are numbered; \<open>pg_role\<close> says which of the script's functions one
  is and what it closes over. \<open>pg_open\<close> holds the continuations of unanswered requests and
  \<open>pg_chan\<close> the channel objects the script keeps, by a key of its own.
\<close>

record page =
  pg_next :: nat
  pg_role :: "nat \<Rightarrow> string \<times> js"
  pg_on :: "nat \<Rightarrow> emitter"
  pg_open :: "nat list"
  pg_chan :: "(string \<times> nat) list"
  pg_timers :: "string list"
  pg_present :: "js list"
  pg_fx :: "effect list"

definition new_page :: page where
  "new_page = \<lparr>pg_next = 0, pg_role = (\<lambda>_. ('''', JUndef)), pg_on = (\<lambda>_. new_emitter), pg_open = [],
     pg_chan = [], pg_timers = [], pg_present = [], pg_fx = []\<rparr>"

type_synonym 'r script = "(page world, 'r) act"

definition upd_page :: "(page \<Rightarrow> page) \<Rightarrow> page world \<Rightarrow> page world" where
  "upd_page f w = w\<lparr>app := f (app w)\<rparr>"

definition fx :: "effect \<Rightarrow> unit script" where
  "fx e = modify (upd_page (\<lambda>p. p\<lparr>pg_fx := pg_fx p @ [e]\<rparr>))"

text \<open>A new function object with its role.\<close>

definition closure :: "string \<Rightarrow> js \<Rightarrow> nat script" where
  "closure r v = look (\<lambda>w. pg_next (app w)) (\<lambda>n.
     bnd (modify (upd_page (\<lambda>p. p\<lparr>pg_next := Suc n, pg_role := (pg_role p)(n := (r, v))\<rparr>))) (\<lambda>_. ret n))"

text \<open>\<open>channel.on(ev, function ...)\<close> and \<open>channel.watch(function ...)\<close>.\<close>

definition channel_on :: "nat \<Rightarrow> string \<Rightarrow> string \<Rightarrow> js \<Rightarrow> unit script" where
  "channel_on i ev r v = bnd (closure r v) (\<lambda>n.
     modify (upd_page (\<lambda>p. p\<lparr>pg_on := (pg_on p)(i := on (pg_on p i) ev (Fn n))\<rparr>)))"

definition channel_watch :: "nat \<Rightarrow> string \<Rightarrow> js \<Rightarrow> unit script" where
  "channel_watch i r v = bnd (closure r v) (\<lambda>n. look (\<lambda>w. ch_name (chans w i)) (\<lambda>name. watch name n))"

definition channel_publish :: "page env \<Rightarrow> nat \<Rightarrow> js \<Rightarrow> unit script" where
  "channel_publish E i data = look (\<lambda>w. ch_name (chans w i)) (\<lambda>name. publish E name data None)"

definition channel_destroy :: "page env \<Rightarrow> nat \<Rightarrow> unit script" where
  "channel_destroy E i = look (\<lambda>w. ch_name (chans w i)) (\<lambda>name. destroyChannel E name)"

text \<open>A listener of a channel object, with the role it was registered with.\<close>

definition call_channel :: "(string \<times> js \<Rightarrow> js list \<Rightarrow> unit script) \<Rightarrow> nat \<Rightarrow> string \<Rightarrow> js list \<Rightarrow> unit script" where
  "call_channel body i ev args = look (\<lambda>w. listeners (pg_on (app w) i) ev)
     (\<lambda>fs. each (\<lambda>f. case f of Fn n \<Rightarrow> look (\<lambda>w. pg_role (app w) n) (\<lambda>r. body r args) | OnceFn _ _ _ \<Rightarrow> skip) fs)"

definition call_watcher :: "(string \<times> js \<Rightarrow> js \<Rightarrow> unit script) \<Rightarrow> fnref \<Rightarrow> js \<Rightarrow> unit script" where
  "call_watcher body f data =
     (case f of Fn n \<Rightarrow> look (\<lambda>w. pg_role (app w) n) (\<lambda>r. body r data) | OnceFn _ _ _ \<Rightarrow> skip)"

definition arg :: "js list \<Rightarrow> nat \<Rightarrow> js" where
  "arg args n = (case nth_opt args n of None \<Rightarrow> JUndef | Some v \<Rightarrow> v)"

text \<open>\<open>v.k\<close> of a value that may be null or undefined.\<close>

definition field :: "js \<Rightarrow> string \<Rightarrow> js script" where
  "field v k = (case read_prop v k of Inl e \<Rightarrow> raise e | Inr x \<Rightarrow> ret x)"

definition subscribe_failed :: "page env \<Rightarrow> string \<Rightarrow> js list \<Rightarrow> unit script" where
  "subscribe_failed E what args = fx (Console (JStr (''Failed to subscribe to the '' @ what
     @ '' channel due to error: '' @ to_key E (arg args 0))))"

text \<open>\<open>try { m } catch (e) { console.log(e) }\<close>.\<close>

definition attempt :: "unit script \<Rightarrow> unit script" where
  "attempt m w = (case m w of (Raise e, v) \<Rightarrow> fx (Console (exn_js e)) v | r \<Rightarrow> r)"

text \<open>A request whose continuation is \<open>k\<close>, and its answer.\<close>

definition request :: "nat \<Rightarrow> unit script" where
  "request k = steps [modify (upd_page (\<lambda>p. p\<lparr>pg_open := pg_open p @ [k]\<rparr>)), fx (Request k)]"

definition take_request :: "nat \<Rightarrow> (nat \<Rightarrow> unit script) \<Rightarrow> unit script" where
  "take_request n f = look (\<lambda>w. pg_open (app w)) (\<lambda>ks. case nth_opt ks n of None \<Rightarrow> skip
     | Some k \<Rightarrow> steps [modify (upd_page (\<lambda>p. p\<lparr>pg_open := take n ks @ drop (Suc n) ks\<rparr>)), f k])"

text \<open>
  A script's functions run the library again, with the script's listeners one level deeper:
  \<open>deep h n\<close> are listeners that can be nested \<open>n\<close> deep.
\<close>

fun deep :: "(page env \<Rightarrow> call \<Rightarrow> unit script) \<Rightarrow> page env \<Rightarrow> nat \<Rightarrow> call \<Rightarrow> unit script" where
  "deep h B 0 c = stuck"
| "deep h B (Suc n) c = h (B\<lparr>lis := deep h B n\<rparr>) c"

subsection \<open>Invariants of the watchers\<close>

lemma deep_keeps:
  assumes "\<And>E' c. (\<And>c. keeps I (lis E' c)) \<Longrightarrow> keeps I (h E' c)"
  shows "keeps I (deep h B n c)"
proof (induction n arbitrary: c)
  case (Suc n)
  have "keeps I (h (B\<lparr>lis := deep h B n\<rparr>) c)" by (rule assms) (simp add: Suc.IH)
  then show ?case by simp
qed (simp add: keeps_stuck)

lemma upd_page_sel [simp]:
  "c_watch (upd_page f w) = c_watch w" "c_channels (upd_page f w) = c_channels w" "chans (upd_page f w) = chans w"
  "c_transport (upd_page f w) = c_transport w" "trs (upd_page f w) = trs w" "evs (upd_page f w) = evs w"
  "app (upd_page f w) = f (app w)" "c_state (upd_page f w) = c_state w" "out (upd_page f w) = out w"
  by (simp_all add: upd_page_def)

text \<open>
  Whatever only depends on the watchers and the script's own data is kept by the library when
  the listeners keep it.
\<close>

lemma program_core:
  assumes "\<And>c. keeps (\<lambda>w. J (c_watch w) (app w)) (lis E c)"
  shows "core_invariant E (\<lambda>w. J (c_watch w) (app w))"
proof
  show "core w' = core w \<Longrightarrow> J (c_watch w) (app w) \<Longrightarrow> J (c_watch w') (app w')" for w w' :: "'a world" by (simp add: core_def)
  have set: "c_watch (drop_current w) = c_watch w" "c_watch (set_t_state t s w) = c_watch w"
    "app (drop_current w) = app w" "app (set_t_state t s w) = app w" for w :: "'a world" and t s
    by (simp_all add: drop_current_def set_t_state_def upd_tr_def split: option.split)
  show "J (c_watch w) (app w) \<Longrightarrow> J (c_watch (drop_current ((set_t_state t CLOSED w)\<lparr>c_state := CLOSED\<rparr>)))
      (app (drop_current ((set_t_state t CLOSED w)\<lparr>c_state := CLOSED\<rparr>)))"
    "J (c_watch w) (app w) \<Longrightarrow> J (c_watch (set_t_state t CLOSED w)) (app (set_t_state t CLOSED w))"
    "J (c_watch w) (app w) \<Longrightarrow> J (c_watch ((set_t_state t OPEN w)\<lparr>c_state := OPEN\<rparr>)) (app ((set_t_state t OPEN w)\<lparr>c_state := OPEN\<rparr>))"
    "J (c_watch w) (app w) \<Longrightarrow> J (c_watch (set_t_state t OPEN w)) (app (set_t_state t OPEN w))" for w :: "'a world" and t
    by (simp_all add: set)
  have out: "keeps (\<lambda>w. J (c_watch w) (app w)) (call_out E c)" for c
    unfolding call_out_def by (intro wp keeps_modify assms) (simp add: log_out_def)
  show "keeps (\<lambda>w. J (c_watch w) (app w)) (connect E)"
    unfolding connect_def on_sc_error_def emit_local_def no_reconnect_def by (intro wp keeps_modify out) simp_all
qed (use assms in simp_all)

lemmas watchers_core = program_core [where J = "\<lambda>w _. J w" for J]

lemma script_keeps:
  "keeps (\<lambda>w. J (c_watch w)) (fx e)" "keeps (\<lambda>w. J (c_watch w)) (closure r v)"
  "keeps (\<lambda>w. J (c_watch w)) (channel_on i ev r v)" "keeps (\<lambda>w. J (c_watch w)) (field x k)"
  "keeps (\<lambda>w. J (c_watch w)) (subscribe_failed E s args)"
  unfolding subscribe_failed_def fx_def closure_def channel_on_def field_def by (intro wp keeps_modify; simp)+

lemma attempt_keeps [wp]:
  assumes "keeps I m" and "\<And>e. keeps I (fx e)"
  shows "keeps I (attempt m)"
  using assms by (auto simp: hoare_def attempt_def split: prod.split res.split)

lemma call_channel_keeps: "(\<And>r args. keeps I (body r args)) \<Longrightarrow> keeps I (call_channel body i ev args)"
  unfolding call_channel_def
proof (intro wp)
  fix x f assume b: "\<And>r args. keeps I (body r args)"
  show "keeps I (case f of Fn n \<Rightarrow> look (\<lambda>w. pg_role (app w) n) (\<lambda>r. body r args) | OnceFn _ _ _ \<Rightarrow> skip)"
    by (cases f) (simp_all add: keeps_skip, intro wp b)
qed

lemma call_watcher_keeps: "(\<And>r d. keeps I (body r d)) \<Longrightarrow> keeps I (call_watcher body f data)"
  unfolding call_watcher_def by (cases f) (simp_all add: keeps_skip, intro wp)

lemma each_fx: "each (\<lambda>x. fx (e x)) xs w = (Done (), upd_page (\<lambda>p. p\<lparr>pg_fx := pg_fx p @ map e xs\<rparr>) w)"
proof (induction xs arbitrary: w)
  case Nil
  show ?case by (simp add: upd_page_def ret_def)
next
  case (Cons x xs)
  then show ?case by (simp add: fx_def bnd_def modify_def upd_page_def)
qed

lemmas show_all = each_fx [where e = "\<lambda>x. x", simplified]

text \<open>Calling every watcher of a list, when each in its role only adds effects.\<close>

lemma each_watcher_shows:
  assumes "\<And>f. lis E (Watcher f x) = call_watcher body f x"
    and "\<And>f. f \<in> set fs \<Longrightarrow> \<exists>n. f = Fn n \<and> body (pg_role (app w) n) x = each fx es"
  shows "\<exists>w'. each (\<lambda>f. call_out E (Watcher f x)) fs w = (Done (), w')
    \<and> pg_fx (app w') = pg_fx (app w) @ concat (replicate (length fs) es)"
  using assms(2)
proof (induction fs arbitrary: w)
  case Nil
  show ?case by (simp add: ret_def)
next
  case (Cons f fs)
  let ?v = "upd_page (\<lambda>p. p\<lparr>pg_fx := pg_fx p @ es\<rparr>) (log_out (Called (Watcher f x)) w)"
  have role: "pg_role (app ?v) = pg_role (app w)" by (simp add: log_out_def)
  obtain n where "f = Fn n" "body (pg_role (app w) n) x = each fx es" using Cons.prems by auto
  then have "call_out E (Watcher f x) w = (Done (), ?v)"
    by (simp add: call_out_def assms(1) call_watcher_def act_eval log_out_def show_all)
  moreover obtain w' where "each (\<lambda>f. call_out E (Watcher f x)) fs ?v = (Done (), w')"
    "pg_fx (app w') = pg_fx (app ?v) @ concat (replicate (length fs) es)"
    using Cons.IH [of ?v] Cons.prems role by auto
  ultimately show ?case by (simp add: bnd_eval(1) log_out_def)
qed

text \<open>
  A publication as \<open>publish\<close> sends it, with the name of its channel decorated; it arrives on
  every subscribed client as it was sent.
\<close>

definition publication :: "'a env \<Rightarrow> string \<Rightarrow> js \<Rightarrow> js" where
  "publication E n x = JObj [(''channel'', JStr (decorateChannelName E n)), (''data'', x)]"

lemma publish_publication: "publish E n x None = client_emit E ''#publish'' (publication E n x) None"
  by (simp add: publish_def publication_def)

lemma publication_lis [simp]: "publication (E\<lparr>lis := l\<rparr>) = publication E"
  by (simp add: publication_def decorateChannelName_def fun_eq_iff)

lemma publication_delivered:
  assumes "isSubscribed n True w" and "\<And>f. lis E (Watcher f x) = call_watcher body f x"
    and "\<And>f. f \<in> set (watchers n w) \<Longrightarrow> \<exists>m. f = Fn m \<and> body (pg_role (app w) m) x = each fx es"
  shows "\<exists>v. on_publish E (publication E n x) w = (Done (), v)
    \<and> pg_fx (app v) = pg_fx (app w) @ concat (replicate (length (watchers n w)) es)"
  using assms(1) each_watcher_shows [OF assms(2,3)]
  by (simp add: on_publish_def publication_def undecorateChannelName_def look_def)

text \<open>
  What a script does to the watchers of channels that the client has: \<open>added R w v\<close> says that
  from \<open>w\<close> to \<open>v\<close> the watchers of \<open>R\<close>, each a channel and the role of its function, were
  added behind those that were there, and that no channel has changed.
\<close>

definition has_channel :: "string \<Rightarrow> 'a world \<Rightarrow> bool" where
  "has_channel n w \<longleftrightarrow> (\<exists>i. map_of (c_channels w) n = Some i \<and> ch_name (chans w i) = n \<and> ch_state (chans w i) \<noteq> UNSUBSCRIBED)"

lemma has_channel_subscribed: "has_channel n w \<Longrightarrow> isSubscribed n True w"
  unfolding has_channel_def isSubscribed_def by (elim exE conjE, rename_tac i, case_tac "ch_state (chans w i)") simp_all

lemma has_channel_subscribe: "has_channel n w \<Longrightarrow> \<exists>i. subscribe E n JUndef w = (Done i, w) \<and> ch_name (chans w i) = n"
  by (auto simp: has_channel_def subscribe_def act_eval bnd_def)

definition added :: "(string \<times> string \<times> js) list \<Rightarrow> page world \<Rightarrow> page world \<Rightarrow> bool" where
  "added R w v \<longleftrightarrow> c_channels v = c_channels w \<and> chans v = chans w \<and> pg_next (app w) \<le> pg_next (app v)
     \<and> (\<forall>m<pg_next (app w). pg_role (app v) m = pg_role (app w) m)
     \<and> (\<forall>ch. \<exists>ms. watchers ch v = watchers ch w @ map Fn ms \<and> (\<forall>m\<in>set ms. m < pg_next (app v))
         \<and> map (pg_role (app v)) ms = map snd (filter (\<lambda>r. fst r = ch) R))"

lemma added_none:
  "c_channels v = c_channels w \<Longrightarrow> chans v = chans w \<Longrightarrow> c_watch v = c_watch w \<Longrightarrow> pg_next (app v) = pg_next (app w)
     \<Longrightarrow> pg_role (app v) = pg_role (app w) \<Longrightarrow> added [] w v"
  by (simp add: added_def watchers_def)

lemma added_append:
  assumes "added R w u" and "added S u v"
  shows "added (R @ S) w v"
proof -
  have "\<exists>ms. watchers ch v = watchers ch w @ map Fn ms \<and> (\<forall>m\<in>set ms. m < pg_next (app v))
      \<and> map (pg_role (app v)) ms = map snd (filter (\<lambda>r. fst r = ch) (R @ S))" for ch
  proof -
    obtain ms where ms: "watchers ch u = watchers ch w @ map Fn ms" "\<forall>m\<in>set ms. m < pg_next (app u)"
      "map (pg_role (app u)) ms = map snd (filter (\<lambda>r. fst r = ch) R)"
      using assms(1) unfolding added_def by blast
    obtain ns where ns: "watchers ch v = watchers ch u @ map Fn ns" "\<forall>m\<in>set ns. m < pg_next (app v)"
      "map (pg_role (app v)) ns = map snd (filter (\<lambda>r. fst r = ch) S)"
      using assms(2) unfolding added_def by blast
    have "map (pg_role (app v)) ms = map (pg_role (app u)) ms" "pg_next (app u) \<le> pg_next (app v)"
      using assms(2) ms(2) by (auto simp: added_def)
    then show ?thesis using ms ns by (intro exI [of _ "ms @ ns"]) auto
  qed
  then show ?thesis using assms unfolding added_def by (simp add: order_trans)
qed

lemma added_has [simp]: "added R w v \<Longrightarrow> has_channel n v = has_channel n w"
  by (simp add: added_def has_channel_def)

lemma added_watchers:
  assumes "added R w v"
  obtains ms where "watchers ch v = watchers ch w @ map Fn ms" "\<forall>m\<in>set ms. m < pg_next (app v)"
    "map (pg_role (app v)) ms = map snd (filter (\<lambda>r. fst r = ch) R)"
  using assms unfolding added_def by blast

lemma to_key_lis [simp]: "to_key (E\<lparr>lis := l\<rparr>) = to_key E"
  by (simp add: to_key_def fun_eq_iff split: js.split)

subsection \<open>Invariants of the scripts\<close>

text \<open>
  The part of a script's data that its listeners leave alone: the intervals that run, the
  channels kept for mails, which the intervals rely on, and the visitors that were present.
\<close>

definition own :: "page \<Rightarrow> string list \<times> (string \<times> nat) list \<times> js list" where
  "own p = (pg_timers p, filter (\<lambda>(k, _). prefix ''mail:'' k) (pg_chan p), pg_present p)"

lemma filter_al_set: "\<not> P (k, v) \<Longrightarrow> (\<And>x. P (k, x) = P (k, v)) \<Longrightarrow> filter P (al_set k v m) = filter P m"
  by (induction k v m rule: al_set.induct) auto

lemma filter_al_del: "(\<And>x. \<not> P (k, x)) \<Longrightarrow> filter P (al_del k m) = filter P m"
  unfolding al_del_def filter_filter by (rule filter_cong) (auto split: prod.splits)

lemma own_chan:
  "\<not> prefix ''mail:'' k \<Longrightarrow> own (p\<lparr>pg_chan := al_set k i (pg_chan p)\<rparr>) = own p"
  "\<not> prefix ''mail:'' k \<Longrightarrow> own (p\<lparr>pg_chan := al_del k (pg_chan p)\<rparr>) = own p"
  by (simp_all add: own_def filter_al_set filter_al_del)

text \<open>
  What a script's functions keep: an invariant of the library that does not depend on the
  script's data, or on those data alone that listeners leave alone.
\<close>

locale script_invariant = watch_invariant E I for E :: "page env" and I +
  assumes page_keeps: "I w \<Longrightarrow> (\<And>p. own (f p) = own p) \<Longrightarrow> I (upd_page f w)"
begin

lemma page [wp]: "(\<And>p. own (f p) = own p) \<Longrightarrow> keeps I (modify (upd_page f))"
  by (rule keeps_modify) (rule page_keeps)

lemma script_fx [wp]: "keeps I (fx e)"
  unfolding fx_def by (intro wp) (simp add: own_def)

lemma script_closure [wp]: "keeps I (closure r v)"
  unfolding closure_def by (intro wp) (simp add: own_def)

lemma script_field [wp]: "keeps I (field x k)"
  unfolding field_def by (intro wp)

lemma script_channel [wp]: "keeps I (channel_on i ev r v)" "keeps I (channel_watch i r v)"
  "keeps I (channel_publish E i x)" "keeps I (channel_destroy E i)" "keeps I (subscribe_failed E' s args)"
  unfolding channel_on_def channel_watch_def channel_publish_def channel_destroy_def subscribe_failed_def
  by (intro wp; simp add: own_def)+

lemma script_request [wp]: "keeps I (request k)"
  unfolding request_def by (intro wp) (simp add: own_def)

lemma script_take [wp]: "(\<And>k. keeps I (g k)) \<Longrightarrow> keeps I (take_request n g)"
  unfolding take_request_def by (intro wp) (simp_all add: own_def)

lemma script_calls [wp]:
  "(\<And>r args. keeps I (body r args)) \<Longrightarrow> keeps I (call_channel body i ev args)"
  "(\<And>r d. keeps I (body' r d)) \<Longrightarrow> keeps I (call_watcher body' f d)"
  by (rule call_channel_keeps, assumption) (rule call_watcher_keeps, assumption)

end

lemma own_script:
  assumes "\<And>c. keeps (\<lambda>w. own (app w) = m) (lis E c)"
  shows "script_invariant E (\<lambda>w. own (app w) = m)"
  by (intro script_invariant.intro watch_invariant.intro program_core [where J = "\<lambda>_ p. own p = m"]
      watch_invariant_axioms.intro script_invariant_axioms.intro assms) simp_all

lemma mirror_page [simp]: "synced (upd_page f w) = synced w" "midway (upd_page f w) = midway w"
  by (simp_all only: synced_def midway_def upd_page_sel)

lemma script_of:
  "watch_invariant E midway \<Longrightarrow> script_invariant E midway"
  "watch_invariant E synced \<Longrightarrow> script_invariant E synced"
  by (intro script_invariant.intro script_invariant_axioms.intro; simp)+

text \<open>A handler that keeps every such invariant, at any depth of nesting.\<close>

lemma deep_script:
  assumes h: "\<And>E I c. script_invariant E I \<Longrightarrow> keeps I (h E c)"
  shows "script_invariant (B\<lparr>lis := deep h B n\<rparr>) midway"
    and "script_invariant (B\<lparr>lis := deep h B n\<rparr>) synced"
    and "script_invariant (B\<lparr>lis := deep h B n\<rparr>) (\<lambda>w. own (app w) = m)"
proof -
  have mid: "keeps midway (deep h B n c)" for n c
    by (rule deep_keeps, rule h, rule script_of, rule core_midway)
  have syn: "keeps synced (deep h B n c)" for n c
  proof (induction n arbitrary: c)
    case (Suc n)
    have "script_invariant (B\<lparr>lis := deep h B n\<rparr>) synced"
      by (rule script_of, rule core_synced) (simp_all add: mid Suc.IH)
    then show ?case using h by simp
  qed (simp add: keeps_stuck)
  show "script_invariant (B\<lparr>lis := deep h B n\<rparr>) midway" by (rule script_of, rule core_midway) (simp add: mid)
  show "script_invariant (B\<lparr>lis := deep h B n\<rparr>) synced" by (rule script_of, rule core_synced) (simp_all add: mid syn)
  have "keeps (\<lambda>w. own (app w) = m) (deep h B n c)" for c
    by (rule deep_keeps, rule h, rule own_script)
  then show "script_invariant (B\<lparr>lis := deep h B n\<rparr>) (\<lambda>w. own (app w) = m)"
    by (intro own_script) simp
qed

subsection \<open>An example page\<close>

definition page_env :: "page env" where
  "page_env = default_env (\<lambda>_. skip) (\<lambda>_. Inr ''{}'') (\<lambda>v. v)"

definition page_start :: "page world" where
  "page_start = initial_world page_env (\<lambda>_. 1 / 2) [] True new_page"

definition known :: js where
  "known = JObj [(''isAuthenticated'', JBool True)]"

lemma script_lis [simp]:
  "loose_num (E\<lparr>lis := l\<rparr>) = loose_num E" "positive (E\<lparr>lis := l\<rparr>) = positive E"
  "instance_channel (E\<lparr>lis := l\<rparr>) = instance_channel E" "loose_str (E\<lparr>lis := l\<rparr>) = loose_str E"
proof -
  show n: "loose_num (E\<lparr>lis := l\<rparr>) = loose_num E" by (simp add: loose_num_def fun_eq_iff split: js.split)
  show "positive (E\<lparr>lis := l\<rparr>) = positive E" by (simp add: positive_def n fun_eq_iff)
  then show "instance_channel (E\<lparr>lis := l\<rparr>) = instance_channel E" by (simp add: instance_channel_def fun_eq_iff)
  show "loose_str (E\<lparr>lis := l\<rparr>) = loose_str E" by (simp add: loose_str_def fun_eq_iff split: js.split)
qed

end
