(* ===== verification/Page_Site.thy ===== *)
theory Page_Site
  imports Page
begin

text \<open>
  The script of the web site (\<open>customjs.js\<close>): it logs a visitor in, subscribes to the
  visitor's channel and checks for messages when told so. \<open>cfg\<close> is
  \<open>lh_inst.nodejsHelperOptions\<close> and \<open>vid\<close> is \<open>lh_inst.cookieDataPers.vid\<close>.
\<close>

subsection \<open>The script\<close>

definition site_channel :: "page env \<Rightarrow> js \<Rightarrow> string" where
  "site_channel E vid = ''uo_'' @ to_key E vid"

definition connectSiteVisitor :: "page env \<Rightarrow> js \<Rightarrow> unit script" where
  "connectSiteVisitor E vid = bnd (subscribe E (site_channel E vid) JUndef) (\<lambda>i. steps
     [channel_on i ''subscribeFail'' ''fail'' JUndef, channel_watch i ''watch'' JUndef])"

definition site_login_packet :: "page env \<Rightarrow> js \<Rightarrow> js \<Rightarrow> js" where
  "site_login_packet E cfg vid = JObj [(''hash'', get cfg ''hash''), (''chanelName'', JStr (site_channel E vid))]"

definition site_connected :: "page env \<Rightarrow> js \<Rightarrow> js \<Rightarrow> js \<Rightarrow> unit script" where
  "site_connected E cfg vid st = bnd (field st ''isAuthenticated'') (\<lambda>a.
     if truthy a then connectSiteVisitor E vid
     else client_emit E ''login'' (site_login_packet E cfg vid) (Some (UserCb 0)))"

definition site_login_answer :: "page env \<Rightarrow> js \<Rightarrow> js \<Rightarrow> unit script" where
  "site_login_answer E vid err = (if truthy err then fx (Console err) else connectSiteVisitor E vid)"

definition site_watch :: "page env \<Rightarrow> js \<Rightarrow> unit script" where
  "site_watch E packet = bnd (field packet ''op'') (\<lambda>x.
     if loose_str E x ''check_message'' then fx (Invoke ''startNewMessageCheckSingle'' []) else skip)"

definition site_handler :: "js \<Rightarrow> js \<Rightarrow> page env \<Rightarrow> call \<Rightarrow> unit script" where
  "site_handler cfg vid E c =
     (case c of
        Emit ev args \<Rightarrow>
          if ev = ''error'' then fx (Console (arg args 0))
          else if ev = ''connect'' then site_connected E cfg vid (arg args 0) else skip
      | ChanEmit i ev args \<Rightarrow> call_channel (\<lambda>r args. subscribe_failed E ''sample'' args) i ev args
      | Watcher f data \<Rightarrow> call_watcher (\<lambda>r data. site_watch E data) f data
      | UserCall n err data \<Rightarrow> if n = 0 then site_login_answer E vid err else skip)"

definition site_env :: "js \<Rightarrow> js \<Rightarrow> page env \<Rightarrow> nat \<Rightarrow> page env" where
  "site_env cfg vid B depth = B\<lparr>lis := deep (site_handler cfg vid) B depth\<rparr>"

subsection \<open>Watchers pile up\<close>

definition at_least :: "nat \<Rightarrow> string \<Rightarrow> emitter \<Rightarrow> bool" where
  "at_least k ch e \<longleftrightarrow> k \<le> length (listeners e ch)"

lemma watch_at_least: "keeps (\<lambda>w. at_least k ch (c_watch w)) (watch n f)"
  unfolding watch_def by (rule keeps_modify) (auto simp: at_least_def)

lemma site_handler_keeps:
  assumes "\<And>c. keeps (\<lambda>w. at_least k ch (c_watch w)) (lis E c)"
  shows "keeps (\<lambda>w. at_least k ch (c_watch w)) (site_handler cfg vid E c)"
proof -
  note C = watchers_core [of "at_least k ch", OF assms]
  note ops = core_invariant.subscribe [OF C] core_invariant.client_emit [OF C] script_keeps [of "at_least k ch"] watch_at_least
    call_channel_keeps call_watcher_keeps
  have "keeps (\<lambda>w. at_least k ch (c_watch w)) (connectSiteVisitor E vid)"
    unfolding connectSiteVisitor_def channel_watch_def by (intro wp ops)
  note ops = ops this
  show ?thesis unfolding site_handler_def site_connected_def site_login_answer_def site_watch_def
    by (cases c) (simp_all only: Client_State.call.case, (intro wp ops)+)
qed

lemma site_input_keeps:
  assumes "\<And>a. i \<noteq> Api a"
  shows "keeps (\<lambda>w. at_least k ch (c_watch w)) (run (site_env cfg vid B d) i)"
proof -
  have "keeps (\<lambda>w. at_least k ch (c_watch w)) (lis (site_env cfg vid B d) c)" for c
    unfolding site_env_def by (simp, rule deep_keeps, rule site_handler_keeps)
  from core_invariant.run_keeps [OF watchers_core [of "at_least k ch", OF this]] show ?thesis
    using assms by blast
qed

lemma site_lis: "lis (site_env cfg vid B (Suc d)) = site_handler cfg vid (site_env cfg vid B d)"
  by (simp add: site_env_def fun_eq_iff)

definition check_message :: js where
  "check_message = JObj [(''op'', JStr ''check_message'')]"

text \<open>
  The site's script never removes a watcher and adds one with every connection: nothing
  that reaches the client, messages and timers in any order, takes a watcher off the visitor's
  channel; when a connection is made again, the channel is there already and gets one more;
  and one request to check for messages makes the page check as often as there are watchers.
\<close>

theorem site_watchers_pile_up:
  assumes "map_of (c_channels w) (site_channel B vid) = Some j" and "ch_state (chans w j) \<noteq> UNSUBSCRIBED"
    and "ch_name (chans w j) = site_channel B vid" and "truthy (get st ''isAuthenticated'')"
    and "\<forall>f\<in>set (watchers (site_channel B vid) w). \<exists>n. f = Fn n"
  shows "(\<forall>x. (\<forall>a. x \<noteq> Api a) \<longrightarrow>
      length (watchers (site_channel B vid) w) \<le> length (watchers (site_channel B vid) (snd (run (site_env cfg vid B d) x w))))
    \<and> (\<exists>w'. lis (site_env cfg vid B (Suc d)) (Emit ''connect'' [st]) w = (Done (), w')
      \<and> watchers (site_channel B vid) w' = watchers (site_channel B vid) w @ [Fn (Suc (pg_next (app w)))])
    \<and> (\<exists>w'. on_publish (site_env cfg vid B (Suc d))
          (publication B (site_channel B vid) check_message) w = (Done (), w')
      \<and> pg_fx (app w') = pg_fx (app w) @ replicate (length (watchers (site_channel B vid) w)) (Invoke ''startNewMessageCheckSingle'' []))"
proof (intro conjI allI impI)
  let ?ch = "site_channel B vid" and ?E = "site_env cfg vid B (Suc d)"
  have name: "site_channel (B\<lparr>lis := l\<rparr>) vid = ?ch" for l by (simp add: site_channel_def)
  show "length (watchers ?ch w) \<le> length (watchers ?ch (snd (run (site_env cfg vid B d) x w)))"
    if "\<forall>a. x \<noteq> Api a" for x
    using hoareD [OF site_input_keeps [of x "length (watchers ?ch w)" ?ch cfg vid B d], of w] that
    by (simp add: at_least_def watchers_def)
  have st: "\<not> nullish st" using assms(4) by (cases st) simp_all
  have sub: "subscribe E' ?ch JUndef w = (Done j, w)" for E'
    using assms(1,2) by (simp add: subscribe_def act_eval bnd_def)
  show "\<exists>w'. lis ?E (Emit ''connect'' [st]) w = (Done (), w') \<and> watchers ?ch w' = watchers ?ch w @ [Fn (Suc (pg_next (app w)))]"
    using assms(3,4) st
    by (simp add: site_env_def site_handler_def arg_def site_connected_def field_def read_prop_def connectSiteVisitor_def
        name bnd_def sub channel_on_def closure_def channel_watch_def watch_def act_eval bnd_def watchers_def)
  have "lis ?E (Watcher f check_message) = call_watcher (\<lambda>r data. site_watch (site_env cfg vid B d) data) f check_message" for f
    by (simp add: site_lis site_handler_def)
  moreover have "\<exists>n. f = Fn n \<and> site_watch (site_env cfg vid B d) check_message = fx (Invoke ''startNewMessageCheckSingle'' [])"
    if m: "f \<in> set (watchers ?ch w)" for f
    using assms(5) m by (auto simp: site_watch_def check_message_def field_def read_prop_def loose_str_def)
  moreover have "isSubscribed ?ch True w" using assms(1,2) by (cases "ch_state (chans w j)") (simp_all add: isSubscribed_def)
  ultimately show "\<exists>w'. on_publish ?E (publication B ?ch check_message) w = (Done (), w')
      \<and> pg_fx (app w') = pg_fx (app w) @ replicate (length (watchers ?ch w)) (Invoke ''startNewMessageCheckSingle'' [])"
    using publication_delivered [of ?ch w ?E check_message "\<lambda>r data. site_watch (site_env cfg vid B d) data"
        "[Invoke ''startNewMessageCheckSingle'' []]"]
    by (simp add: bnd_unit site_env_def)
qed

definition demo_site :: "page world" where
  "demo_site = snd (lis (site_env JUndef (JStr ''5'') page_env 1) (Emit ''connect'' [known]) page_start)"

lemma demo_site_channel: "site_channel E (JStr ''5'') = ''uo_5''"
  by (simp add: site_channel_def to_key_def)

lemma demo_site_sel:
  "map_of (c_channels demo_site) ''uo_5'' = Some 0" "ch_state (chans demo_site 0) = PENDING"
  "ch_name (chans demo_site 0) = ''uo_5''" "watchers ''uo_5'' demo_site = [Fn 1]"
  by (simp_all add: demo_site_def site_env_def site_handler_def arg_def known_def site_connected_def field_def read_prop_def
      connectSiteVisitor_def demo_site_channel subscribe_def add_channel_def new_channel_def setOptions_def trySubscribe_def
      channel_on_def closure_def channel_watch_def watch_def watchers_def listeners_def on_def new_emitter_def upd_chan_def
      page_start_def initial_world_def upd_page_def new_page_def act_eval bnd_def)

theorem site_watchers_pile_up_witness:
  "\<exists>w'. lis (site_env JUndef (JStr ''5'') page_env 1) (Emit ''connect'' [known]) demo_site = (Done (), w')
     \<and> length (watchers ''uo_5'' w') = 2"
proof -
  have a: "map_of (c_channels demo_site) (site_channel page_env (JStr ''5'')) = Some 0"
    "ch_state (chans demo_site 0) \<noteq> UNSUBSCRIBED" "ch_name (chans demo_site 0) = site_channel page_env (JStr ''5'')"
    "truthy (get known ''isAuthenticated'')" "\<forall>f\<in>set (watchers (site_channel page_env (JStr ''5'')) demo_site). \<exists>n. f = Fn n"
    by (simp_all add: demo_site_channel demo_site_sel known_def)
  show ?thesis using site_watchers_pile_up [OF a, where cfg = JUndef and d = 0]
    by (auto simp: demo_site_channel demo_site_sel)
qed

subsection \<open>The client under the script\<close>

context script_invariant
begin

lemma site_handler: "keeps I (site_handler cfg vid E c)"
proof -
  have "keeps I (connectSiteVisitor E vid)" unfolding connectSiteVisitor_def by (intro wp)
  note ops = this wp
  show ?thesis unfolding site_handler_def site_connected_def site_login_answer_def site_watch_def
    by (cases c) (simp_all only: Client_State.call.case, (intro ops)+)
qed

end

interpretation site_mirror: script_invariant "site_env cfg vid B d" synced for cfg vid B d
  unfolding site_env_def by (rule deep_script) (rule script_invariant.site_handler)

end
