(* ===== verification/Page_Widget.thy ===== *)
theory Page_Widget
  imports Page
begin

text \<open>
  The script of the chat window (\<open>customjs-widget.js\<close>): it logs the visitor of a chat in,
  subscribes to the chat's channel, passes on what the visitor types and shows what the
  operator does. \<open>cfg\<close> is \<open>lh.nodejsHelperOptions\<close> and \<open>chat\<close> is \<open>lhinst.chat_id\<close>. The two
  symbols that the script puts in front of a sent message are \<open>sent_mark\<close> and
  \<open>failed_mark\<close>, texts of code units above 255 that stand for themselves.
\<close>

subsection \<open>What the visitor does\<close>

definition widget_channel :: "page env \<Rightarrow> js \<Rightarrow> js \<Rightarrow> string" where
  "widget_channel E cfg chat = instance_channel E cfg ''chat_'' chat"

definition typing_packet :: "js \<Rightarrow> js" where
  "typing_packet msg = JObj [(''op'', JStr ''vt''), (''msg'', msg)]"

definition visitorTypingListener :: "page env \<Rightarrow> js \<Rightarrow> js \<Rightarrow> js \<Rightarrow> unit script" where
  "visitorTypingListener E cfg chat data = bnd
     (if truthy (get cfg ''hide_typing'') then ret (get cfg ''typing_text'') else field data ''msg'')
     (\<lambda>txt. publish E (widget_channel E cfg chat) (typing_packet txt) None)"

definition visitorTypingStoppedListener :: "page env \<Rightarrow> js \<Rightarrow> js \<Rightarrow> unit script" where
  "visitorTypingStoppedListener E cfg chat =
     publish E (widget_channel E cfg chat) (JObj [(''op'', JStr ''vts'')]) None"

definition sent_mark :: string where "sent_mark = ''(sent) ''"
definition failed_mark :: string where "failed_mark = ''(failed) ''"

definition messageSend :: "page env \<Rightarrow> js \<Rightarrow> js \<Rightarrow> js \<Rightarrow> unit script" where
  "messageSend E cfg chat data = bnd (field data ''msg'')
     (\<lambda>m. publish E (widget_channel E cfg chat) (typing_packet (JStr (sent_mark @ to_key E m))) None)"

definition messageSendError :: "page env \<Rightarrow> js \<Rightarrow> js \<Rightarrow> unit script" where
  "messageSendError E cfg chat = publish E (widget_channel E cfg chat) (typing_packet (JStr (failed_mark @
     ''error happened while sending visitor message, please inform your administrator!''))) None"

definition endedChat :: "page env \<Rightarrow> unit script" where
  "endedChat E = Sc_Client.destroy E JUndef JUndef"

subsection \<open>Connecting\<close>

definition online_packet :: js where
  "online_packet = JObj [(''op'', JStr ''vi_online''), (''status'', JBool True)]"

definition typing_listeners :: "string list" where
  "typing_listeners = [''visitorTyping'', ''visitorTypingStopped'', ''messageSend'', ''messageSendError'', ''endedChat'']"

definition connectVisitor :: "page env \<Rightarrow> js \<Rightarrow> js \<Rightarrow> unit script" where
  "connectVisitor E cfg chat = bnd (subscribe E (widget_channel E cfg chat) JUndef) (\<lambda>i. steps
     [modify (upd_page (\<lambda>p. p\<lparr>pg_chan := al_set ''sampleChannel'' i (pg_chan p)\<rparr>)),
      channel_on i ''subscribeFail'' ''fail'' JUndef,
      channel_on i ''subscribe'' ''joined'' JUndef,
      channel_watch i ''watch'' JUndef,
      fx (Assign ''LHCCallbacks.initTypingMonitoringUserInform'' (JBool True)),
      each (\<lambda>l. fx (AddListener l)) typing_listeners,
      fx (Assign ''confLH.chat_message_sinterval'' (JNum (Fin 10000))),
      fx (Invoke ''syncusercall'' [])])"

definition widget_closed :: "page env \<Rightarrow> unit script" where
  "widget_closed E = steps
     [fx (Assign ''LHCCallbacks.initTypingMonitoringUserInform'' (JBool False)),
      look (\<lambda>w. map_of (pg_chan (app w)) ''sampleChannel'') (\<lambda>x. case x of None \<Rightarrow> skip | Some i \<Rightarrow> channel_destroy E i),
      each (\<lambda>l. fx (RemoveListener l)) typing_listeners,
      fx (Assign ''confLH.chat_message_sinterval'' (JStr ''defaut_chat_message_sinterval''))]"

text \<open>The requests for a token: 0 from \<open>connect\<close>, 1 from \<open>deauthenticate\<close>.\<close>

definition widget_connected :: "page env \<Rightarrow> js \<Rightarrow> js \<Rightarrow> js \<Rightarrow> unit script" where
  "widget_connected E cfg chat st = bnd (field st ''isAuthenticated'') (\<lambda>a.
     if truthy a \<and> positive E chat then connectVisitor E cfg chat else request 0)"

definition widget_login_packet :: "page env \<Rightarrow> js \<Rightarrow> js \<Rightarrow> js \<Rightarrow> js" where
  "widget_login_packet E cfg chat data = JObj [(''hash'', get data ''hash''),
     (''chanelName'', JStr (widget_channel E cfg chat)), (''instance_id'', get data ''instance_id'')]"

definition widget_token :: "page env \<Rightarrow> js \<Rightarrow> js \<Rightarrow> js \<Rightarrow> nat \<Rightarrow> unit script" where
  "widget_token E cfg chat data k = bnd (field data ''hash'') (\<lambda>_.
     client_emit E ''login'' (widget_login_packet E cfg chat data) (Some (UserCb k)))"

definition widget_login_answer :: "page env \<Rightarrow> js \<Rightarrow> js \<Rightarrow> nat \<Rightarrow> js \<Rightarrow> unit script" where
  "widget_login_answer E cfg chat k err =
     (if truthy err then steps [fx (Console err), Sc_Client.destroy E JUndef JUndef]
      else if k = 0 then connectVisitor E cfg chat else skip)"

subsection \<open>What the operator does\<close>

definition widget_watch :: "page env \<Rightarrow> js \<Rightarrow> js \<Rightarrow> js \<Rightarrow> unit script" where
  "widget_watch E cfg chat packet = bnd (field packet ''op'') (\<lambda>x.
     if loose_str E x ''ot'' then bnd (field (get packet ''data'') ''status'') (\<lambda>s.
         if loose_int E s 1 then steps
           [fx (Document ''#id-operator-typing text'' (get (get packet ''data'') ''ttx'')),
            fx (Document ''#id-operator-typing visibility'' (JStr ''visible''))]
         else fx (Document ''#id-operator-typing visibility'' (JStr ''hidden'')))
     else if loose_str E x ''cmsg'' then fx (Invoke ''syncusercall'' [])
     else if loose_str E x ''umsg'' then fx (Invoke ''updateMessageRow'' [get packet ''msid''])
     else if loose_str E x ''schange'' \<or> loose_str E x ''cclose'' then steps
       [fx (Invoke ''chatsyncuserpending'' []), fx (Invoke ''syncusercall'' [])]
     else if loose_str E x ''vo'' then publish E (widget_channel E cfg chat) online_packet None
     else skip)"

definition widget_channel_event :: "page env \<Rightarrow> js \<Rightarrow> js \<Rightarrow> string \<times> js \<Rightarrow> js list \<Rightarrow> unit script" where
  "widget_channel_event E cfg chat role args =
     (if fst role = ''fail'' then subscribe_failed E ''sample'' args
      else publish E (widget_channel E cfg chat) online_packet None)"

definition widget_handler :: "js \<Rightarrow> js \<Rightarrow> page env \<Rightarrow> call \<Rightarrow> unit script" where
  "widget_handler cfg chat E c =
     (case c of
        Emit ev args \<Rightarrow>
          if ev = ''error'' then fx (Console (arg args 0))
          else if ev = ''close'' then widget_closed E
          else if ev = ''deauthenticate'' then request 1
          else if ev = ''connect'' then widget_connected E cfg chat (arg args 0) else skip
      | ChanEmit i ev args \<Rightarrow> call_channel (widget_channel_event E cfg chat) i ev args
      | Watcher f data \<Rightarrow> call_watcher (\<lambda>r data. widget_watch E cfg chat data) f data
      | UserCall n err data \<Rightarrow> widget_login_answer E cfg chat n err)"

definition widget_env :: "js \<Rightarrow> js \<Rightarrow> page env \<Rightarrow> nat \<Rightarrow> page env" where
  "widget_env cfg chat B depth = B\<lparr>lis := deep (widget_handler cfg chat) B depth\<rparr>"

text \<open>What reaches the script: the client's inputs, the page's events, answers of the site.\<close>

datatype widget_input =
    FromClient input
  | VisitorTyping js
  | VisitorTypingStopped
  | MessageSend js
  | MessageSendError
  | EndedChat
  | TokenAnswer nat js
  | BeforeUnload

definition widget_step :: "js \<Rightarrow> js \<Rightarrow> page env \<Rightarrow> widget_input \<Rightarrow> unit script" where
  "widget_step cfg chat E x =
     (case x of
        FromClient i \<Rightarrow> run E i
      | VisitorTyping data \<Rightarrow> visitorTypingListener E cfg chat data
      | VisitorTypingStopped \<Rightarrow> visitorTypingStoppedListener E cfg chat
      | MessageSend data \<Rightarrow> messageSend E cfg chat data
      | MessageSendError \<Rightarrow> messageSendError E cfg chat
      | EndedChat \<Rightarrow> endedChat E
      | TokenAnswer n data \<Rightarrow> take_request n (widget_token E cfg chat data)
      | BeforeUnload \<Rightarrow> Sc_Client.destroy E JUndef JUndef)"

subsection \<open>One watcher per connection\<close>

text \<open>A subscription to a channel the connected client does not know, with listeners that ignore the request event.\<close>

definition opened_channel :: "page env \<Rightarrow> (js \<Rightarrow> string) \<Rightarrow> nat \<Rightarrow> string \<Rightarrow> page world \<Rightarrow> page world" where
  "opened_channel E f t n w = asked E f t (n_chans w) (upd_chan (n_chans w) (\<lambda>c. c\<lparr>ch_state := PENDING\<rparr>)
     (w\<lparr>chans := (chans w)(n_chans w := new_channel n JUndef), n_chans := Suc (n_chans w), c_channels := al_set n (n_chans w) (c_channels w)\<rparr>))"

lemma subscribe_new:
  assumes "online E f t w" and "map_of (c_channels w) n = None" and "\<And>xs. lis E (Emit ''subscribeRequest'' xs) = skip"
  shows "\<exists>xs. subscribe E n JUndef w = (Done (n_chans w), (opened_channel E f t n w)\<lparr>out := out (opened_channel E f t n w) @ xs\<rparr>)"
proof -
  let ?i = "n_chans w"
  let ?v = "w\<lparr>chans := (chans w)(?i := new_channel n JUndef), n_chans := Suc ?i, c_channels := al_set n ?i (c_channels w)\<rparr>"
  let ?p = "upd_chan ?i (\<lambda>c. c\<lparr>ch_state := PENDING\<rparr>) ?v"
  have on: "online E f t ?p" using assms(1) by (simp add: online_def sends_def upd_chan_def)
  have fresh: "ch_state (new_channel n JUndef) = UNSUBSCRIBED" by (simp add: new_channel_def setOptions_def)
  have c: "\<not> ch_batch (chans ?p ?i)" "ch_cid (chans ?p ?i) = None" "\<not> ch_wait (chans ?p ?i)"
    by (simp_all add: new_channel_def setOptions_def)
  let ?so = "subscription_options E (chans ?p ?i)"
  have "trySubscribe E ?i ?p = bnd (transport_emit E t ''#subscribe'' ?so (Some (SubscribeCb ?i ?so)) True False False)
      (\<lambda>cid. steps [modify (upd_chan ?i (\<lambda>c. c\<lparr>ch_cid := cid\<rparr>)), emit_local E ''subscribeRequest'' [JStr (ch_name (chans ?p ?i)), ?so]]) ?p"
    using on c unfolding trySubscribe_def look_def online_def on_transport_def by (simp add: bnd_def)
  also have "\<dots> = emit_local E ''subscribeRequest'' [JStr (ch_name (chans ?p ?i)), ?so] (asked E f t ?i ?p)"
    using subscribe_emit [OF on c(1)] by (simp add: bnd_def asked_def upd_chan_def bnd_unit modify_def)
  also have "\<dots> = (Done (), (opened_channel E f t n w)\<lparr>out := out (opened_channel E f t n w)
      @ [Called (Emit ''subscribeRequest'' [JStr (ch_name (chans ?p ?i)), ?so])]\<rparr>)"
    by (simp add: emit_local_def call_out_def assms(3) log_out_def act_eval opened_channel_def)
  finally have asks: "trySubscribe E ?i ?p = (Done (), (opened_channel E f t n w)\<lparr>out := out (opened_channel E f t n w)
      @ [Called (Emit ''subscribeRequest'' [JStr (ch_name (chans ?p ?i)), ?so])]\<rparr>)" .
  have "subscribe E n JUndef w = bnd (trySubscribe E ?i) (\<lambda>_. ret ?i) ?p"
    using assms(2) fresh by (simp add: subscribe_def look_def add_channel_def bnd_modify bnd_assoc [abs_def] bnd_unit)
  then show ?thesis by (auto simp: bnd_def asks ret_def)
qed

lemma widget_ignores: "lis (widget_env cfg chat B (Suc d)) (Emit ''subscribeRequest'' xs) = skip"
  by (simp add: widget_env_def widget_handler_def)

lemma widget_lis: "lis (widget_env cfg chat B (Suc d)) = widget_handler cfg chat (widget_env cfg chat B d)"
  by (simp add: widget_env_def fun_eq_iff)

lemma widget_fields [simp]:
  "channelPrefix (widget_env cfg chat B d) = channelPrefix B" "encode (widget_env cfg chat B d) = encode B"
  "widget_channel (widget_env cfg chat B d) = widget_channel B" "to_key (widget_env cfg chat B d) = to_key B"
  "positive (widget_env cfg chat B d) = positive B"
  by (simp_all add: widget_env_def widget_channel_def fun_eq_iff)

text \<open>
  The chat window's script watches its channel once per connection: closing takes every
  watcher off the channel and forgets the channel, and the next connection of a known visitor
  subscribes a new channel object, with exactly one watcher and one listener for each of
  \<open>subscribe\<close> and \<open>subscribeFail\<close>, so that a packet is handled once.
\<close>

theorem widget_watches_once:
  assumes "ch = widget_channel B cfg chat" and "map_of (pg_chan (app w)) ''sampleChannel'' = Some i" and "map_of (c_channels w) ch = Some i"
    and "ch_name (chans w i) = ch" and "ch_state (chans w i) \<noteq> SUBSCRIBED" and "c_state w = CLOSED" and "c_transport w \<noteq> None"
    and "online B f t v" and "map_of (c_channels v) ch = None" and "watchers ch v = []"
    and "pg_on (app v) (n_chans v) = new_emitter" and "truthy (get st ''isAuthenticated'')" and "positive B chat"
  shows "(\<exists>w'. lis (widget_env cfg chat B (Suc d)) (Emit ''close'' args) w = (Done (), w') \<and> watchers ch w' = []
      \<and> map_of (c_channels w') ch = None)
    \<and> (\<exists>v' n. lis (widget_env cfg chat B (Suc (Suc d))) (Emit ''connect'' [st]) v = (Done (), v') \<and> watchers ch v' = [Fn n]
      \<and> map_of (c_channels v') ch = Some (n_chans v)
      \<and> length (listeners (pg_on (app v') (n_chans v)) ''subscribe'') = 1
      \<and> length (listeners (pg_on (app v') (n_chans v)) ''subscribeFail'') = 1)"
proof
  let ?E = "widget_env cfg chat B (Suc d)"
  show "\<exists>w'. lis ?E (Emit ''close'' args) w = (Done (), w') \<and> watchers ch w' = [] \<and> map_of (c_channels w') ch = None"
    using assms
    by (auto simp: widget_lis widget_handler_def widget_closed_def fx_def channel_destroy_def destroyChannel_def unwatch_def
        unsubscribe_def triggerChannelUnsubscribe_def tryUnsubscribe_def cancelPendingSubscribeCallback_def cancelPendingResponse_def
        on_transport_def each_fx [unfolded fx_def] watchers_def act_eval bnd_def split: option.splits)
next
  let ?E = "widget_env cfg chat B (Suc d)"
  have st: "\<not> nullish st" using assms(12) by (cases st) simp_all
  have "online ?E f t v" using assms(8) by (simp add: online_def sends_def)
  from subscribe_new [OF this assms(9) widget_ignores]
  obtain xs where s: "subscribe ?E ch JUndef v = (Done (n_chans v), (opened_channel ?E f t ch v)\<lparr>out := out (opened_channel ?E f t ch v) @ xs\<rparr>)"
    by blast
  show "\<exists>v' n. lis (widget_env cfg chat B (Suc (Suc d))) (Emit ''connect'' [st]) v = (Done (), v') \<and> watchers ch v' = [Fn n]
      \<and> map_of (c_channels v') ch = Some (n_chans v)
      \<and> length (listeners (pg_on (app v') (n_chans v)) ''subscribe'') = 1
      \<and> length (listeners (pg_on (app v') (n_chans v)) ''subscribeFail'') = 1"
    using st assms(10-13) s
    by (simp add: widget_lis widget_handler_def arg_def widget_connected_def field_def read_prop_def connectVisitor_def
        assms(1) [symmetric] bnd_def channel_on_def closure_def channel_watch_def watch_def fx_def each_fx [unfolded fx_def]
        act_eval opened_channel_def asked_def upd_chan_def upd_page_def watchers_def new_channel_def setOptions_def
        listeners_def on_def new_emitter_def)
qed

subsection \<open>The client under the script\<close>

context script_invariant
begin

lemma connectVisitor: "keeps I (connectVisitor E cfg chat)"
  unfolding connectVisitor_def by (intro wp) (rule own_chan, simp)

lemma widget_handler: "keeps I (widget_handler cfg chat E c)"
proof -
  have o: "keeps I (case x of None \<Rightarrow> skip | Some i \<Rightarrow> channel_destroy E i)" for x by (intro wp)
  note ops = connectVisitor o wp
  show ?thesis unfolding widget_handler_def widget_closed_def widget_connected_def widget_login_answer_def widget_watch_def
      widget_channel_event_def
    by (cases c) (simp_all only: Client_State.call.case, (intro ops)+)
qed

end

interpretation widget_mirror: script_invariant "widget_env cfg chat B d" synced for cfg chat B d
  unfolding widget_env_def by (rule deep_script) (rule script_invariant.widget_handler)

text \<open>What reaches the chat window, in any order.\<close>

fun widget_run :: "js \<Rightarrow> js \<Rightarrow> page env \<Rightarrow> widget_input list \<Rightarrow> page world \<Rightarrow> page world" where
  "widget_run cfg chat E [] w = w"
| "widget_run cfg chat E (x # xs) w = widget_run cfg chat E xs (snd (widget_step cfg chat E x w))"

context script_invariant
begin

lemma widget_step: "keeps I (widget_step cfg chat E x)"
  unfolding widget_step_def visitorTypingListener_def visitorTypingStoppedListener_def messageSend_def
    messageSendError_def endedChat_def widget_token_def
  by (cases x) (simp_all only: widget_input.case, (intro wp any_run_keeps)+)

lemma widget_run: "I w \<Longrightarrow> I (widget_run cfg chat E xs w)"
  by (induction xs arbitrary: w) (simp_all add: hoareD [OF widget_step])

end

subsection \<open>A chat window\<close>

definition demo_closed :: "page world" where
  "demo_closed = page_start\<lparr>c_channels := [(''chat_5'', 0)], chans := (\<lambda>_. new_channel '''' JUndef)(0 := (new_channel ''chat_5'' JUndef)\<lparr>ch_state := PENDING\<rparr>),
     c_transport := Some 0, c_watch := on new_emitter ''chat_5'' (Fn 2), app := new_page\<lparr>pg_chan := [(''sampleChannel'', 0)]\<rparr>\<rparr>"

definition demo_back :: "page world" where
  "demo_back = page_start\<lparr>c_state := OPEN, c_transport := Some 0,
     trs := (\<lambda>_. no_transport)(0 := (new_transport page_env)\<lparr>t_state := OPEN, t_ready := True, t_attached := True\<rparr>)\<rparr>"

lemma demo_widget_channel: "widget_channel E JUndef (JStr ''5'') = ''chat_5''"
  by (simp add: widget_channel_def instance_channel_def positive_def loose_num_def to_key_def)

theorem widget_watches_once_witness:
  "\<exists>v n. lis (widget_env JUndef (JStr ''5'') page_env 2) (Emit ''connect'' [known]) demo_back = (Done (), v)
     \<and> watchers ''chat_5'' v = [Fn n]"
proof -
  have c: "map_of (pg_chan (app demo_closed)) ''sampleChannel'' = Some 0" "map_of (c_channels demo_closed) ''chat_5'' = Some 0"
    "ch_name (chans demo_closed 0) = ''chat_5''" "ch_state (chans demo_closed 0) \<noteq> SUBSCRIBED" "c_state demo_closed = CLOSED"
    "c_transport demo_closed \<noteq> None"
    by (simp_all add: demo_closed_def new_channel_def setOptions_def page_start_def initial_world_def)
  have b: "online page_env (\<lambda>_. ''{}'') 0 demo_back" "map_of (c_channels demo_back) ''chat_5'' = None" "watchers ''chat_5'' demo_back = []"
    "pg_on (app demo_back) (n_chans demo_back) = new_emitter"
    by (simp_all add: demo_back_def page_start_def initial_world_def watchers_def listeners_def new_emitter_def new_page_def
        online_def sends_def page_env_def default_env_def)
  have "positive page_env (JStr ''5'')"
    using str_to_number_show_nat [of 5] by (simp add: positive_def loose_num_def to_key_def show_nat_digit digit_chr_def)
  from widget_watches_once [OF demo_widget_channel [symmetric] c b _ this, of known 0 "[]"]
  show ?thesis by (auto simp: known_def numeral_2_eq_2)
qed

end
