(* ===== verification/Page_Admin.thy ===== *)
theory Page_Admin
  imports Page
begin

text \<open>
  The script of the operator's page (\<open>customjs-admin.js\<close>): it logs the operator in, follows
  the chats and mails that are open, passes on what the operator types, asks visitors whether
  they are there and shows what they do. What the script reads of the page is the record
  \<open>admin_page\<close>: \<open>lh.nodejsHelperOptions\<close>, \<open>lhinst.chat_id\<close>, \<open>confLH.user_id\<close>,
  \<open>lhinst.chatsSynchronising\<close>, and of the document the attributes \<open>user-id\<close> and
  \<open>title\<close> of an owner element and which elements exist.
\<close>

record admin_page =
  ad_cfg :: js
  ad_chat :: js
  ad_user :: js
  ad_chats :: "js list"
  ad_owner :: "string \<Rightarrow> (string option \<times> string option) option"
  ad_element :: "string \<Rightarrow> bool"

text \<open>
  \<open>channelList\<close> and \<open>channelListMail\<close> are arrays indexed by an id: the keys of \<open>pg_chan\<close>
  are the text of the id after \<open>chat:\<close> and \<open>mail:\<close>.
\<close>

definition chat_key :: "page env \<Rightarrow> js \<Rightarrow> string" where "chat_key E i = ''chat:'' @ to_key E i"
definition mail_key :: "page env \<Rightarrow> js \<Rightarrow> string" where "mail_key E i = ''mail:'' @ to_key E i"

definition kept :: "string \<Rightarrow> page world \<Rightarrow> nat option" where
  "kept k w = map_of (pg_chan (app w)) k"

definition keep :: "string \<Rightarrow> nat \<Rightarrow> unit script" where
  "keep k i = modify (upd_page (\<lambda>p. p\<lparr>pg_chan := al_set k i (pg_chan p)\<rparr>))"

definition forget :: "string \<Rightarrow> unit script" where
  "forget k = modify (upd_page (\<lambda>p. p\<lparr>pg_chan := al_del k (pg_chan p)\<rparr>))"

definition chat_channel :: "page env \<Rightarrow> admin_page \<Rightarrow> js \<Rightarrow> string" where
  "chat_channel E A i = instance_channel E (ad_cfg A) ''chat_'' i"

definition mail_channel :: "page env \<Rightarrow> admin_page \<Rightarrow> js \<Rightarrow> string" where
  "mail_channel E A i = instance_channel E (ad_cfg A) ''mail_'' i"

subsection \<open>Chats\<close>

definition tabActivated :: "page env \<Rightarrow> admin_page \<Rightarrow> js \<Rightarrow> unit script" where
  "tabActivated E A chat_id = publish E (chat_channel E A chat_id)
     (JObj [(''op'', JStr ''msg_del''), (''hum'', JNum (Fin 0))]) None"

definition addChatToNodeJS :: "page env \<Rightarrow> admin_page \<Rightarrow> js \<Rightarrow> unit script" where
  "addChatToNodeJS E A chat_id = attempt (look (kept (chat_key E chat_id)) (\<lambda>x. case x of Some _ \<Rightarrow> skip
     | None \<Rightarrow> bnd (subscribe E (chat_channel E A chat_id) JUndef) (\<lambda>i. steps
        [keep (chat_key E chat_id) i,
         channel_on i ''subscribeFail'' ''fail'' JUndef,
         channel_on i ''subscribe'' ''chat'' chat_id,
         channel_watch i ''chat'' chat_id])))"

definition removeSynchroChatListener :: "page env \<Rightarrow> js \<Rightarrow> unit script" where
  "removeSynchroChatListener E chat_id = attempt (look (kept (chat_key E chat_id)) (\<lambda>x. case x of None \<Rightarrow> skip
     | Some i \<Rightarrow> steps [channel_destroy E i, forget (chat_key E chat_id)]))"

text \<open>The indicator beside a chat: its classes, its icon and its text.\<close>

definition indicator :: "page env \<Rightarrow> js \<Rightarrow> string \<Rightarrow> string \<Rightarrow> js \<Rightarrow> js" where
  "indicator E chat_id cls icon txt = JStr (concat
     [''<span id=\"node-js-indicator-'', to_key E chat_id, ''\" class=\"'', cls,
      ''\"><span class=\"material-icons fs12\">'', icon, ''</span><span class=\"node-js-online-status\">'',
      to_key E txt, ''</span></span>''])"

definition trans_text :: "admin_page \<Rightarrow> string \<Rightarrow> js script" where
  "trans_text A k = field (get (ad_cfg A) ''trans'') k"

definition typing_dom :: "page env \<Rightarrow> js \<Rightarrow> string \<Rightarrow> js \<Rightarrow> unit script" where
  "typing_dom E chat_id what v = fx (Document (''#user-is-typing-'' @ to_key E chat_id @ what) v)"

text \<open>The chat's channel is subscribed: the visitor counts as away and is asked.\<close>

definition chat_joined :: "page env \<Rightarrow> admin_page \<Rightarrow> js \<Rightarrow> js \<Rightarrow> unit script" where
  "chat_joined E A chat_id channelName = bnd (trans_text A ''offline'') (\<lambda>t. steps
     [typing_dom E chat_id '' html'' (indicator E chat_id ''text-danger fs12'' ''wifi_off'' t),
      typing_dom E chat_id '' visibility'' (JStr ''visible''),
      fx (EmitPage ''nodeJsVisitorStatus'' [JObj [(''id'', chat_id), (''status'', JBool False)]]),
      publish E (to_key E channelName) (JObj [(''op'', JStr ''vo'')]) None])"

definition visitor_status :: "page env \<Rightarrow> admin_page \<Rightarrow> js \<Rightarrow> js \<Rightarrow> unit script" where
  "visitor_status E A chat_id st =
     (let here = loose_int E st 1 in bnd (trans_text A (if here then ''online'' else ''offline'')) (\<lambda>t. steps
        [typing_dom E chat_id '' html'' (indicator E chat_id (''fs12 '' @ (if here then ''text-success'' else ''text-danger''))
           (if here then ''wifi'' else ''wifi_off'') t),
         typing_dom E chat_id '' visibility'' (JStr ''visible''),
         fx (EmitPage ''nodeJsVisitorStatus'' [JObj [(''id'', chat_id), (''status'', st)]])]))"

definition chat_watch :: "page env \<Rightarrow> admin_page \<Rightarrow> js \<Rightarrow> js \<Rightarrow> unit script" where
  "chat_watch E A chat_id packet = bnd (field packet ''op'') (\<lambda>x.
     if loose_str E x ''vt'' then steps
       [typing_dom E chat_id '' text'' (get packet ''msg''), typing_dom E chat_id '' visibility'' (JStr ''visible''),
        fx (EmitPage ''nodeJsTypingVisitor'' [JObj [(''id'', chat_id), (''txt'', get packet ''msg'')]])]
     else if loose_str E x ''vts'' then steps
       [typing_dom E chat_id '' text'' (get packet ''msg''), typing_dom E chat_id '' visibility'' (JStr ''hidden''),
        fx (EmitPage ''nodeJsTypingVisitorStopped'' [JObj [(''id'', chat_id)]])]
     else if loose_str E x ''msgread'' then
       fx (Document (''#messagesBlock-'' @ to_key E (get packet ''cid'')) (JStr ''remove .msg-del-st-0,.msg-del-st-1,.msg-del-st-2''))
     else if loose_str E x ''msgdel'' then
       fx (Document (''#messagesBlock-'' @ to_key E (get packet ''cid'')) (JStr ''mark .msg-del-st-0,.msg-del-st-1 as msg-del-st-2''))
     else if loose_str E x ''cmsg'' then fx (Invoke ''syncadmincall'' [])
     else if loose_str E x ''umsg'' then fx (Invoke ''updateMessageRowAdmin'' [chat_id, get packet ''msid''])
     else if loose_str E x ''vi_online'' then visitor_status E A chat_id (get packet ''status'')
     else if loose_str E x ''uchat'' then fx (EmitPage ''updateChatTab'' [JObj [(''id'', chat_id)]])
     else if loose_str E x ''schange'' then fx (Invoke ''updateVoteStatus'' [chat_id])
     else if loose_str E x ''cclose'' then fx (Invoke ''reloadTab'' [chat_id, JStr ''#tabs'', get packet ''nick''])
     else skip)"

text \<open>
  What the operator types: the page's own object is given the text to show and is sent on,
  unless the chat has an owner who is somebody else. \<open>null\<close> is an attribute that is missing.
\<close>

definition attr :: "string option \<Rightarrow> js" where
  "attr x = (case x of None \<Rightarrow> JNull | Some s \<Rightarrow> JStr s)"

definition is_user :: "page env \<Rightarrow> js \<Rightarrow> string option \<Rightarrow> bool" where
  "is_user E u a = (case a of None \<Rightarrow> nullish u | Some s \<Rightarrow> loose_str E u s)"

definition operatorTypingListener :: "page env \<Rightarrow> admin_page \<Rightarrow> js \<Rightarrow> unit script" where
  "operatorTypingListener E A data = bnd (field data ''chat_id'') (\<lambda>chat_id.
     let owner = ad_owner A (''chat-owner-'' @ to_key E chat_id);
         title = (case owner of None \<Rightarrow> JNull | Some (_, t) \<Rightarrow> attr t)
     in if (case owner of None \<Rightarrow> False | Some (u, _) \<Rightarrow> \<not> is_user E (ad_user A) u) then skip
        else let d1 = set_prop ''ttx'' (if truthy title
                        then JStr (to_key E title @ '' '' @ to_key E (get (ad_cfg A) ''typer_ending_txt'')) else get (ad_cfg A) ''typer'') data;
                 d2 = set_prop ''typer'' (if truthy title then title else get (ad_cfg A) ''name_support'') d1
             in steps
               [fx (EmitPage ''nodeJsTypingOperator'' [d2]),
                publish E (chat_channel E A (get d2 ''chat_id'')) (JObj [(''op'', JStr ''ot''), (''data'', d2)]) None])"

subsection \<open>Visitors of the site\<close>

text \<open>\<open>xs.indexOf(v) === -1\<close>: NaN is never found.\<close>

definition listed :: "js list \<Rightarrow> js \<Rightarrow> bool" where
  "listed xs v \<longleftrightarrow> v \<noteq> JNum NaN \<and> v \<in> set xs"

definition tracks :: "admin_page \<Rightarrow> bool" where
  "tracks A \<longleftrightarrow> get (ad_cfg A) ''track_visitors'' \<noteq> JNum (Fin 0)"

definition ask_online :: "page env \<Rightarrow> js \<Rightarrow> unit script" where
  "ask_online E vid = publish E (''uo_'' @ to_key E vid) (JObj [(''op'', JStr ''is_online'')]) None"

definition sync_visitors :: "page env \<Rightarrow> js list \<Rightarrow> unit script" where
  "sync_visitors E xs = each (\<lambda>v. bnd (field v ''vid'') (\<lambda>vid. look (\<lambda>w. pg_present (app w))
     (\<lambda>ps. if listed ps vid then skip else ask_online E vid))) xs"

definition onlineVisitors :: "page env \<Rightarrow> admin_page \<Rightarrow> js \<Rightarrow> unit script" where
  "onlineVisitors E A data =
     (if \<not> tracks A then skip
      else case data of
        JArr xs \<Rightarrow> steps
          [sync_visitors E xs,
           modify (upd_page (\<lambda>p. p\<lparr>pg_present := map (\<lambda>v. get v ''vid'') xs\<rparr>))]
      | _ \<Rightarrow> raise TypeError)"

definition onlineVisitorsCheck :: "page env \<Rightarrow> admin_page \<Rightarrow> js \<Rightarrow> unit script" where
  "onlineVisitorsCheck E A data =
     (if \<not> tracks A then skip else case data of JArr xs \<Rightarrow> each (ask_online E) xs | _ \<Rightarrow> raise TypeError)"

text \<open>A visitor's row in the list of online users, under the prefixes of its two tables.\<close>

definition visitor_row :: "page env \<Rightarrow> admin_page \<Rightarrow> string \<Rightarrow> js \<Rightarrow> bool \<Rightarrow> unit script" where
  "visitor_row E A pre vid here =
     (let row = pre @ ''uo-vid-'' @ to_key E vid; face = pre @ ''ou-face-'' @ to_key E vid;
          set_face = (if ad_element A face then fx (Document (''#'' @ face @ '' icon-user-online'') (JBool here)) else raise TypeError)
      in if \<not> ad_element A row then skip
         else if here then steps [fx (Document (''#'' @ row @ '' online_user'') (JBool True)), set_face]
         else steps [fx (Document (''#'' @ row @ '' online_user'') (JBool False)),
           fx (Document (''#'' @ row @ '' recent_visit'') (JBool False)), set_face])"

definition online_users_watch :: "page env \<Rightarrow> admin_page \<Rightarrow> js \<Rightarrow> unit script" where
  "online_users_watch E A packet = bnd (field packet ''op'') (\<lambda>x.
     if loose_str E x ''vi_online'' then steps
       [visitor_row E A '''' (get packet ''vid'') (get packet ''status'' = JBool True),
        visitor_row E A ''mass-'' (get packet ''vid'') (get packet ''status'' = JBool True)]
     else if loose_str E x ''notice_updated'' then fx (EmitPage ''svelteNoticeUpdated'' [])
     else if loose_str E x ''reload_page'' then fx (Invoke ''document.location.reload'' [])
     else skip)"

subsection \<open>Mails\<close>

text \<open>
  A mail that is open has a channel and an interval that announces the operator on it every
  five seconds; \<open>pg_timers\<close> holds the keys of the intervals that run.
\<close>

definition here_packet :: "admin_page \<Rightarrow> string \<Rightarrow> js" where
  "here_packet A op = JObj [(''op'', JStr op), (''user_id'', ad_user A), (''name_official'', get (ad_cfg A) ''name_official'')]"

definition stop_interval :: "string \<Rightarrow> unit script" where
  "stop_interval k = modify (upd_page (\<lambda>p. p\<lparr>pg_timers := remove1 k (pg_timers p)\<rparr>))"

definition start_interval :: "string \<Rightarrow> unit script" where
  "start_interval k = modify (upd_page (\<lambda>p. p\<lparr>pg_timers := pg_timers p @ [k]\<rparr>))"

definition mailChatContentUnLoaded :: "page env \<Rightarrow> admin_page \<Rightarrow> js \<Rightarrow> unit script" where
  "mailChatContentUnLoaded E A mail_id = look (kept (mail_key E mail_id)) (\<lambda>x. case x of None \<Rightarrow> skip
     | Some i \<Rightarrow> steps
        [channel_publish E i (JObj [(''op'', JStr ''opleft''), (''user_id'', ad_user A)]),
         stop_interval (mail_key E mail_id),
         attempt (look (kept (mail_key E mail_id)) (\<lambda>x. case x of None \<Rightarrow> skip
           | Some i \<Rightarrow> steps [channel_destroy E i, forget (mail_key E mail_id)]))])"

definition mailChatContentLoaded :: "page env \<Rightarrow> admin_page \<Rightarrow> js \<Rightarrow> unit script" where
  "mailChatContentLoaded E A mail_id = attempt (look (kept (mail_key E mail_id)) (\<lambda>x. case x of Some _ \<Rightarrow> skip
     | None \<Rightarrow> bnd (subscribe E (mail_channel E A mail_id) JUndef) (\<lambda>i. steps
        [keep (mail_key E mail_id) i,
         channel_on i ''subscribeFail'' ''fail'' JUndef,
         channel_on i ''subscribe'' ''mail'' mail_id,
         channel_watch i ''mail'' mail_id,
         start_interval (mail_key E mail_id)])))"

definition mail_joined :: "page env \<Rightarrow> admin_page \<Rightarrow> js \<Rightarrow> unit script" where
  "mail_joined E A channelName = publish E (to_key E channelName) (here_packet A ''oo'') None"

text \<open>\<open>channelListMail[mail_id].publish\<close>: the channel has to be there.\<close>

definition mail_publish :: "page env \<Rightarrow> string \<Rightarrow> js \<Rightarrow> unit script" where
  "mail_publish E k data = look (kept k) (\<lambda>x. case x of None \<Rightarrow> raise TypeError | Some i \<Rightarrow> channel_publish E i data)"

definition mail_interval :: "page env \<Rightarrow> admin_page \<Rightarrow> string \<Rightarrow> unit script" where
  "mail_interval E A k = mail_publish E k (here_packet A ''oo'')"

text \<open>\<open>op.user_id != confLH.user_id\<close>, on ids that are numbers or texts.\<close>

definition same_user :: "page env \<Rightarrow> js \<Rightarrow> js \<Rightarrow> bool" where
  "same_user E a b =
     (case b of JStr s \<Rightarrow> loose_str E a s
      | JNum (Fin n) \<Rightarrow> \<not> nullish a \<and> loose_int E a n
      | _ \<Rightarrow> a = b)"

definition watching :: "js \<Rightarrow> bool \<Rightarrow> js \<Rightarrow> js" where
  "watching mail_id st packet = JObj ([(''id'', mail_id), (''status'', JBool st), (''user_id'', get packet ''user_id'')]
     @ (if st then [(''name_official'', get packet ''name_official'')] else []))"

definition mail_watch :: "page env \<Rightarrow> admin_page \<Rightarrow> js \<Rightarrow> js \<Rightarrow> unit script" where
  "mail_watch E A mail_id packet = bnd (field packet ''op'') (\<lambda>x.
     if loose_str E x ''oo'' then steps
       [mail_publish E (mail_key E mail_id) (here_packet A ''oos''),
        fx (EmitPage ''mail.op_watching'' [watching mail_id True packet])]
     else if loose_str E x ''opleft'' \<and> \<not> same_user E (get packet ''user_id'') (ad_user A) then
       fx (EmitPage ''mail.op_watching'' [watching mail_id False packet])
     else if loose_str E x ''oos'' \<and> \<not> same_user E (get packet ''user_id'') (ad_user A) then
       fx (EmitPage ''mail.op_watching'' [watching mail_id True packet])
     else skip)"

subsection \<open>Connecting\<close>

definition chat_page_events :: "string list" where
  "chat_page_events = [''chatTabLoaded'', ''chatTabMonitor'', ''operatorTyping'', ''removeSynchroChat'', ''chatTabClicked'']"

definition is_chat_key :: "string \<Rightarrow> bool" where
  "is_chat_key k \<longleftrightarrow> prefix ''chat:'' k"

definition admin_closed :: "page env \<Rightarrow> unit script" where
  "admin_closed E = attempt (steps
     [fx (Assign ''lhinst.nodeJsMode'' (JBool False)),
      modify (upd_page (\<lambda>p. p\<lparr>pg_chan := filter (\<lambda>(k, _). \<not> is_chat_key k) (pg_chan p)\<rparr>)),
      each (\<lambda>l. fx (RemoveListener l)) chat_page_events,
      fx (Assign ''confLH.chat_message_sinterval'' (JStr ''defaut_chat_message_sinterval'')),
      fx (EmitPage ''socketDisconnected'' [])])"

definition admin_page_events :: "string list" where
  "admin_page_events = [''chatTabClicked'', ''chatTabMonitor'', ''chatTabLoaded'', ''operatorTyping'', ''removeSynchroChat'',
     ''chatAdminSyncOnlineVisitors'', ''chatAdminIsOnline'', ''mailChatContentUnLoaded'', ''mailChatContentLoaded'']"

definition ous_channel :: "page env \<Rightarrow> admin_page \<Rightarrow> string" where
  "ous_channel E A = ''ous_'' @ to_key E (get (ad_cfg A) ''instance_id'')"

definition connectAdmin :: "page env \<Rightarrow> admin_page \<Rightarrow> unit script" where
  "connectAdmin E A = attempt (steps
     [fx (Assign ''lhinst.nodeJsMode'' (JBool True)),
      each (addChatToNodeJS E A) (ad_chats A),
      each (\<lambda>l. fx (AddListener l)) admin_page_events,
      fx (Assign ''confLH.chat_message_sinterval'' (JNum (Fin 15000))),
      bnd (subscribe E (ous_channel E A) JUndef) (\<lambda>i. steps
        [keep ''online'' i,
         channel_on i ''subscribeFail'' ''fail online'' JUndef,
         channel_watch i ''online'' JUndef]),
      fx (Assign ''lh.nodejsHelperOptions.socketConnected'' (JBool True)),
      fx (EmitPage ''socketConnected'' [])])"

text \<open>The requests for a token: 0 from \<open>connect\<close>, 1 from \<open>deauthenticate\<close>.\<close>

definition admin_connected :: "page env \<Rightarrow> admin_page \<Rightarrow> js \<Rightarrow> unit script" where
  "admin_connected E A st = bnd (field st ''isAuthenticated'') (\<lambda>a. if truthy a then connectAdmin E A else request 0)"

definition admin_login_packet :: "page env \<Rightarrow> admin_page \<Rightarrow> js \<Rightarrow> js" where
  "admin_login_packet E A data = JObj [(''hash'', get data ''hash''),
     (''chanelName'', JStr (chat_channel E A (ad_chat A))), (''instance_id'', get data ''instance_id'')]"

definition admin_token :: "page env \<Rightarrow> admin_page \<Rightarrow> js \<Rightarrow> nat \<Rightarrow> unit script" where
  "admin_token E A data k = bnd (field data ''hash'') (\<lambda>_.
     client_emit E ''login'' (admin_login_packet E A data) (Some (UserCb k)))"

definition admin_login_answer :: "page env \<Rightarrow> admin_page \<Rightarrow> nat \<Rightarrow> js \<Rightarrow> unit script" where
  "admin_login_answer E A k err =
     (if truthy err then steps [fx (Console err), Sc_Client.destroy E JUndef JUndef]
      else if k = 0 then connectAdmin E A else skip)"

definition admin_channel_event :: "page env \<Rightarrow> admin_page \<Rightarrow> string \<times> js \<Rightarrow> js list \<Rightarrow> unit script" where
  "admin_channel_event E A role args =
     (if fst role = ''chat'' then chat_joined E A (snd role) (arg args 0)
      else if fst role = ''mail'' then mail_joined E A (arg args 0)
      else subscribe_failed E (if fst role = ''fail'' then ''sample'' else ''online users'') args)"

definition admin_watch :: "page env \<Rightarrow> admin_page \<Rightarrow> string \<times> js \<Rightarrow> js \<Rightarrow> unit script" where
  "admin_watch E A role packet =
     (if fst role = ''chat'' then chat_watch E A (snd role) packet
      else if fst role = ''mail'' then mail_watch E A (snd role) packet
      else online_users_watch E A packet)"

definition admin_handler :: "admin_page \<Rightarrow> page env \<Rightarrow> call \<Rightarrow> unit script" where
  "admin_handler A E c =
     (case c of
        Emit ev args \<Rightarrow>
          if ev = ''error'' then fx (Console (arg args 0))
          else if ev = ''close'' then admin_closed E
          else if ev = ''deauthenticate'' then request 1
          else if ev = ''connect'' then admin_connected E A (arg args 0) else skip
      | ChanEmit i ev args \<Rightarrow> call_channel (admin_channel_event E A) i ev args
      | Watcher f data \<Rightarrow> call_watcher (admin_watch E A) f data
      | UserCall n err data \<Rightarrow> admin_login_answer E A n err)"

definition admin_env :: "admin_page \<Rightarrow> page env \<Rightarrow> nat \<Rightarrow> page env" where
  "admin_env A B depth = B\<lparr>lis := deep (admin_handler A) B depth\<rparr>"

text \<open>What reaches the script; an interval only fires while it runs.\<close>

datatype admin_input =
    Library input
  | TabClicked js
  | TabLoaded js
  | TabRemoved js
  | OperatorTyping js
  | SyncOnlineVisitors js
  | IsOnline js
  | MailLoaded js
  | MailUnLoaded js
  | Interval string
  | Token nat js
  | Unload

definition admin_step :: "admin_page \<Rightarrow> page env \<Rightarrow> admin_input \<Rightarrow> unit script" where
  "admin_step A E x =
     (case x of
        Library i \<Rightarrow> run E i
      | TabClicked i \<Rightarrow> tabActivated E A i
      | TabLoaded i \<Rightarrow> addChatToNodeJS E A i
      | TabRemoved i \<Rightarrow> removeSynchroChatListener E i
      | OperatorTyping data \<Rightarrow> operatorTypingListener E A data
      | SyncOnlineVisitors data \<Rightarrow> onlineVisitors E A data
      | IsOnline data \<Rightarrow> onlineVisitorsCheck E A data
      | MailLoaded i \<Rightarrow> mailChatContentLoaded E A i
      | MailUnLoaded i \<Rightarrow> mailChatContentUnLoaded E A i
      | Interval k \<Rightarrow> look (\<lambda>w. pg_timers (app w)) (\<lambda>ks. if k \<in> set ks then mail_interval E A k else skip)
      | Token n data \<Rightarrow> take_request n (admin_token E A data)
      | Unload \<Rightarrow> Sc_Client.destroy E JUndef JUndef)"

subsection \<open>The client under the script\<close>

fun own_input :: "admin_input \<Rightarrow> bool" where
  "own_input (MailLoaded _) = True"
| "own_input (MailUnLoaded _) = True"
| "own_input (SyncOnlineVisitors _) = True"
| "own_input _ = False"

lemma chat_key_mails: "\<not> prefix ''mail:'' (chat_key E i)"
  by (simp add: chat_key_def)

context script_invariant
begin

lemma admin_keep: "\<not> prefix ''mail:'' k \<Longrightarrow> keeps I (keep k i)" "\<not> prefix ''mail:'' k \<Longrightarrow> keeps I (forget k)"
  unfolding keep_def forget_def by (intro wp own_chan, assumption)+

lemma addChatToNodeJS: "keeps I (addChatToNodeJS E A i)"
  unfolding addChatToNodeJS_def by (intro wp admin_keep chat_key_mails)

lemma removeSynchroChatListener: "keeps I (removeSynchroChatListener E i)"
  unfolding removeSynchroChatListener_def by (intro wp admin_keep chat_key_mails)

lemma admin_closed: "keeps I (admin_closed E)"
proof -
  have "(\<lambda>(k, _). \<not> is_chat_key k) x" if "(\<lambda>(k, _). prefix ''mail:'' k) x" for x :: "string \<times> nat"
    using that by (auto simp: is_chat_key_def prefix_def)
  then have "filter (\<lambda>(k, _). prefix ''mail:'' k) (filter (\<lambda>(k, _). \<not> is_chat_key k) m) = filter (\<lambda>(k, _). prefix ''mail:'' k) m"
    for m :: "(string \<times> nat) list"
    unfolding filter_filter by (intro filter_cong) auto
  then have "own (p\<lparr>pg_chan := filter (\<lambda>(k, _). \<not> is_chat_key k) (pg_chan p)\<rparr>) = own p" for p
    by (simp add: own_def)
  then show ?thesis unfolding admin_closed_def by (intro wp)
qed

lemma connectAdmin: "keeps I (connectAdmin E A)"
  unfolding connectAdmin_def by (intro wp addChatToNodeJS admin_keep) simp

lemma mail_publish: "keeps I (mail_publish E k x)"
  unfolding mail_publish_def by (intro wp)

lemma visitor_row: "keeps I (visitor_row E A pre vid here)"
  unfolding visitor_row_def by (intro wp)

lemma admin_events: "keeps I (admin_channel_event E A role args)" "keeps I (admin_watch E A role packet)"
  unfolding admin_channel_event_def chat_joined_def trans_text_def typing_dom_def mail_joined_def
    admin_watch_def chat_watch_def visitor_status_def mail_watch_def online_users_watch_def
  by (intro wp mail_publish visitor_row)+

lemma admin_handler: "keeps I (admin_handler A E c)"
  unfolding admin_handler_def admin_connected_def admin_login_answer_def
  by (cases c) (simp_all only: Client_State.call.case, (intro wp admin_closed connectAdmin admin_events)+)

text \<open>The inputs that do not change the script's own data.\<close>

lemma admin_step: "\<not> own_input x \<Longrightarrow> keeps I (admin_step A E x)"
proof -
  have "keeps I (onlineVisitorsCheck E A data)"
    "keeps I (operatorTypingListener E A data)" for data
    unfolding onlineVisitorsCheck_def operatorTypingListener_def ask_online_def Let_def
    by (intro wp; simp add: own_def)+
  note ops = this any_run_keeps addChatToNodeJS removeSynchroChatListener mail_publish wp
  assume "\<not> own_input x"
  then show ?thesis unfolding admin_step_def tabActivated_def mail_interval_def admin_token_def
    by (cases x) (simp_all only: admin_input.case own_input.simps simp_thms, (intro ops)+)
qed

end

interpretation admin_mirror: script_invariant "admin_env A B d" synced for A B d
  unfolding admin_env_def by (rule deep_script) (rule script_invariant.admin_handler)

interpretation admin_own: script_invariant "admin_env A B d" "\<lambda>w. own (app w) = m" for A B d m
  unfolding admin_env_def by (rule deep_script) (rule script_invariant.admin_handler)

subsection \<open>Intervals of mails\<close>

definition intervals_ok :: "string list \<times> (string \<times> nat) list \<times> js list \<Rightarrow> bool" where
  "intervals_ok m \<longleftrightarrow> distinct (fst m) \<and> (\<forall>k\<in>set (fst m). prefix ''mail:'' k \<and> map_of (fst (snd m)) k \<noteq> None)"

lemma own_kept: "prefix ''mail:'' k \<Longrightarrow> map_of (fst (snd (own p))) k = map_of (pg_chan p) k"
proof -
  assume k: "prefix ''mail:'' k"
  have "map_of (filter (\<lambda>(k, _). prefix ''mail:'' k) m) k = map_of m k" for m :: "(string \<times> nat) list"
    by (induction m) (use k in auto)
  then show ?thesis by (simp add: own_def)
qed

lemma intervals_iff:
  "intervals_ok (own p) \<longleftrightarrow> distinct (pg_timers p) \<and> (\<forall>k\<in>set (pg_timers p). prefix ''mail:'' k \<and> map_of (pg_chan p) k \<noteq> None)"
proof -
  have "fst (own p) = pg_timers p" by (simp add: own_def)
  then show ?thesis unfolding intervals_ok_def using own_kept by (metis (lifting))
qed

lemma attempt_ends: "(\<And>r v. m w = (r, v) \<Longrightarrow> P (app v)) \<Longrightarrow> (\<And>p e. P p \<Longrightarrow> P (p\<lparr>pg_fx := pg_fx p @ e\<rparr>)) \<Longrightarrow> P (app (snd (attempt m w)))"
  by (cases "m w"; cases "fst (m w)") (simp_all add: attempt_def fx_def modify_def upd_page_def)

lemma intervals_fx: "intervals_ok (own (p\<lparr>pg_fx := x\<rparr>)) = intervals_ok (own p)"
  by (simp add: own_def)

lemma own_eq:
  "(\<And>m. keeps (\<lambda>w. own (app w) = m) a) \<Longrightarrow> own (app (snd (a w))) = own (app w)"
  by (rule hoareD [where P = "\<lambda>v. own (app v) = own (app w)" and Q = "\<lambda>v. own (app v) = own (app w)"]) simp_all

lemma load_intervals:
  assumes "intervals_ok (own (app w))"
  shows "intervals_ok (own (app (snd (mailChatContentLoaded (admin_env A B d) A i w))))"
  unfolding mailChatContentLoaded_def
proof (rule attempt_ends [where P = "\<lambda>p. intervals_ok (own p)"])
  let ?E = "admin_env A B d" and ?k = "mail_key (admin_env A B d) i"
  let ?load = "look (kept ?k) (\<lambda>x. case x of Some _ \<Rightarrow> skip | None \<Rightarrow> bnd (subscribe ?E (mail_channel ?E A i) JUndef) (\<lambda>n. steps
        [keep ?k n, channel_on n ''subscribeFail'' ''fail'' JUndef, channel_on n ''subscribe'' ''mail'' i,
         channel_watch n ''mail'' i, start_interval ?k]))"
  fix r v assume l: "?load w = (r, v)"
  have k: "prefix ''mail:'' ?k" by (simp add: mail_key_def)
  show "intervals_ok (own (app v))"
  proof (cases "kept ?k w")
    case (Some n)
    then show ?thesis using l assms by (simp add: look_def skip_def ret_def)
  next
    case None
    obtain r' u where s: "subscribe ?E (mail_channel ?E A i) JUndef w = (r', u)" by (cases "subscribe ?E (mail_channel ?E A i) JUndef w")
    have m: "own (app u) = own (app w)"
    proof -
      have "own (app (snd (subscribe ?E (mail_channel ?E A i) JUndef w))) = own (app w)"
        by (intro own_eq admin_own.subscribe)
      then show ?thesis using s by simp
    qed
    have u: "intervals_ok (own (app u))" and none: "map_of (pg_chan (app u)) ?k = None"
      using assms None k own_kept [OF k, of "app w"] own_kept [OF k, of "app u"] by (simp_all add: m kept_def)
    then have new: "?k \<notin> set (pg_timers (app u))" by (auto simp: intervals_iff)
    show ?thesis
      using l None u new k
      by (cases r') (auto simp: look_def bnd_def s keep_def channel_on_def closure_def channel_watch_def watch_def
          start_interval_def act_eval upd_page_def intervals_iff)
  qed
qed (simp add: intervals_fx)

lemma unload_intervals:
  assumes "intervals_ok (own (app w))"
  shows "intervals_ok (own (app (snd (mailChatContentUnLoaded (admin_env A B d) A i w))))"
proof (cases "kept (mail_key (admin_env A B d) i) w")
  case None
  then show ?thesis using assms by (simp add: mailChatContentUnLoaded_def look_def skip_def ret_def)
next
  case (Some n)
  let ?E = "admin_env A B d" and ?k = "mail_key (admin_env A B d) i"
  let ?drop = "attempt (look (kept ?k) (\<lambda>x. case x of None \<Rightarrow> skip | Some i \<Rightarrow> steps [channel_destroy ?E i, forget ?k]))"
  let ?left = "channel_publish ?E n (JObj [(''op'', JStr ''opleft''), (''user_id'', ad_user A)])"
  obtain r u where p: "?left w = (r, u)" by (cases "?left w")
  have m: "own (app u) = own (app w)" 
  proof -
    have "own (app (snd (?left w))) = own (app w)" by (intro own_eq admin_own.script_channel)
    then show ?thesis using p by simp
  qed
  define v where "v = upd_page (\<lambda>p. p\<lparr>pg_timers := remove1 ?k (pg_timers p)\<rparr>) u"
  have v: "intervals_ok (own (app v))" "?k \<notin> set (pg_timers (app v))"
    using assms unfolding m [symmetric] by (auto simp: v_def upd_page_def intervals_iff dest: notin_set_remove1)
  have drop: "intervals_ok (own (app (snd (?drop v))))"
  proof (rule attempt_ends [where P = "\<lambda>p. intervals_ok (own p)"])
    fix r' v' assume d: "look (kept ?k) (\<lambda>x. case x of None \<Rightarrow> skip | Some i \<Rightarrow> steps [channel_destroy ?E i, forget ?k]) v = (r', v')"
    show "intervals_ok (own (app v'))"
    proof (cases "kept ?k v")
      case None
      then show ?thesis using d v by (simp add: look_def skip_def ret_def)
    next
      case (Some n)
      obtain r2 v2 where c: "channel_destroy ?E n v = (r2, v2)" by (cases "channel_destroy ?E n v")
      have m2: "own (app v2) = own (app v)" 
      proof -
        have "own (app (snd (channel_destroy ?E n v))) = own (app v)" by (intro own_eq admin_own.script_channel)
        then show ?thesis using c by simp
      qed
      then have v2: "intervals_ok (own (app v2))" "?k \<notin> set (pg_timers (app v2))" using v by (simp_all add: own_def)
      show ?thesis
        using d Some v2 by (cases r2) (auto simp: look_def bnd_def c forget_def act_eval upd_page_def intervals_iff)
    qed
  qed (simp add: intervals_fx)
  obtain r3 v3 where d: "?drop v = (r3, v3)" by (cases "?drop v")
  have "snd (mailChatContentUnLoaded ?E A i w) = (case r of Done _ \<Rightarrow> v3 | _ \<Rightarrow> u)"
    using Some p d
    by (cases r; cases r3) (simp_all add: mailChatContentUnLoaded_def look_def bnd_def stop_interval_def modify_def v_def ret_def)
  then show ?thesis using drop assms m d by (cases r) simp_all
qed

context script_invariant
begin

lemma sync_visitors: "keeps I (sync_visitors E xs)"
  unfolding sync_visitors_def ask_online_def by (intro wp)

end

lemma sync_intervals:
  assumes "intervals_ok (own (app w))"
  shows "intervals_ok (own (app (snd (onlineVisitors (admin_env A B d) A data w))))"
proof (cases data)
  case (JArr xs)
  obtain r v where s: "sync_visitors (admin_env A B d) xs w = (r, v)" by (cases "sync_visitors (admin_env A B d) xs w")
  have "own (app (snd (sync_visitors (admin_env A B d) xs w))) = own (app w)"
    by (intro own_eq admin_own.sync_visitors)
  then have "intervals_ok (own (app v))" using assms s by simp
  then show ?thesis using assms
    by (cases r) (simp_all add: JArr onlineVisitors_def bnd_def s act_eval upd_page_def intervals_iff)
qed (use assms in \<open>simp_all add: onlineVisitors_def act_eval\<close>)

lemma admin_step_intervals:
  assumes "intervals_ok (own (app w))"
  shows "intervals_ok (own (app (snd (admin_step A (admin_env A B d) x w))))"
proof (cases "own_input x")
  case True
  then show ?thesis using assms load_intervals unload_intervals sync_intervals by (cases x) (simp_all add: admin_step_def)
next
  case False
  obtain r v where s: "admin_step A (admin_env A B d) x w = (r, v)" by (cases "admin_step A (admin_env A B d) x w")
  have "own (app v) = own (app w)" 
  proof -
    have "own (app (snd (admin_step A (admin_env A B d) x w))) = own (app w)"
      by (intro own_eq admin_own.admin_step [OF False])
    then show ?thesis using s by simp
  qed
  then show ?thesis using assms s by simp
qed

text \<open>What reaches the operator's page, in any order, with what the page shows at each moment.\<close>

fun admin_run :: "page env \<Rightarrow> nat \<Rightarrow> (admin_page \<times> admin_input) list \<Rightarrow> page world \<Rightarrow> page world" where
  "admin_run B d [] w = w"
| "admin_run B d ((A, x) # xs) w = admin_run B d xs (snd (admin_step A (admin_env A B d) x w))"

lemma admin_run_intervals: "intervals_ok (own (app w)) \<Longrightarrow> intervals_ok (own (app (admin_run B d xs w)))"
  by (induction B d xs w rule: admin_run.induct) (simp_all add: admin_step_intervals)

text \<open>
  C13: An interval of the operator's page never outlives the channel it announces the operator
  on: whatever reaches the page, mails opened and closed, connections lost and made again, in
  any order, at most one interval runs for a mail, and when it fires the mail's channel is there to publish on.
\<close>

theorem intervals_have_channel:
  assumes "pg_timers (app w) = []" and "v = admin_run B d xs w"
  shows "distinct (pg_timers (app v))
    \<and> (\<forall>k\<in>set (pg_timers (app v)). \<exists>i. kept k v = Some i
        \<and> admin_step A E (Interval k) v = channel_publish E i (here_packet A ''oo'') v)"
proof -
  have "intervals_ok (own (app w))" using assms(1) by (simp add: intervals_iff)
  then have "intervals_ok (own (app v))" unfolding assms(2) by (rule admin_run_intervals)
  then show ?thesis by (auto simp: intervals_iff kept_def admin_step_def mail_interval_def mail_publish_def look_def)
qed

subsection \<open>Asking visitors\<close>

lemma sync_visitors_eq:
  assumes "\<And>x. x \<in> set xs \<Longrightarrow> \<not> nullish x" and "pg_present (app w) = ps"
  shows "sync_visitors (admin_env A B d) xs w
    = each (ask_online (admin_env A B d)) (filter (\<lambda>vid. \<not> listed ps vid) (map (\<lambda>x. get x ''vid'') xs)) w"
  using assms
proof (induction xs arbitrary: w)
  case Nil
  show ?case by (simp add: sync_visitors_def)
next
  case (Cons x xs)
  let ?E = "admin_env A B d" and ?vid = "get x ''vid''"
  have x: "field x ''vid'' = ret ?vid" using Cons.prems(1) by (simp add: field_def read_prop_def)
  show ?case
  proof (cases "listed ps ?vid")
    case True
    then show ?thesis using Cons by (simp add: sync_visitors_def x look_def bnd_def skip_def ret_def)
  next
    case False
    obtain r v where a: "ask_online ?E ?vid w = (r, v)" by (cases "ask_online ?E ?vid w")
    have "own (app (snd (ask_online ?E ?vid w))) = own (app w)"
      unfolding ask_online_def by (intro own_eq admin_own.publish)
    then have "pg_present (app v) = ps" using a Cons.prems(2) by (simp add: own_def)
    then show ?thesis using False Cons.IH [of v] Cons.prems(1) Cons.prems(2)
      by (cases r) (simp_all add: sync_visitors_def x look_def bnd_def a)
  qed
qed

text \<open>
  C17: The operator's page asks exactly the visitors that have appeared since the last list
  whether they are online, in the order of the list, and remembers the new list; a list
  without newcomers asks nobody.
\<close>

theorem visitors_asked_when_new:
  assumes "\<forall>x\<in>set xs. \<not> nullish x" and "tracks A"
  shows "onlineVisitors (admin_env A B d) A (JArr xs) w = steps
      [each (ask_online (admin_env A B d)) (filter (\<lambda>vid. \<not> listed (pg_present (app w)) vid) (map (\<lambda>x. get x ''vid'') xs)),
       modify (upd_page (\<lambda>p. p\<lparr>pg_present := map (\<lambda>x. get x ''vid'') xs\<rparr>))] w
    \<and> (\<forall>v. onlineVisitors (admin_env A B d) A (JArr xs) w = (Done (), v) \<longrightarrow>
        (\<forall>x\<in>set xs. get x ''vid'' \<noteq> JNum NaN) \<longrightarrow> onlineVisitors (admin_env A B d) A (JArr xs) v = (Done (), v))"
proof (intro conjI allI impI)
  let ?E = "admin_env A B d" and ?vids = "map (\<lambda>x. get x ''vid'') xs"
  note s = sync_visitors_eq [of xs _ _ A B d, OF bspec [OF assms(1)] refl]
  show "onlineVisitors ?E A (JArr xs) w = steps
      [each (ask_online ?E) (filter (\<lambda>vid. \<not> listed (pg_present (app w)) vid) ?vids),
       modify (upd_page (\<lambda>p. p\<lparr>pg_present := ?vids\<rparr>))] w"
    using assms(2) by (simp add: onlineVisitors_def bnd_def s)
  fix v assume v: "onlineVisitors ?E A (JArr xs) w = (Done (), v)" and n: "\<forall>x\<in>set xs. get x ''vid'' \<noteq> JNum NaN"
  have p: "pg_present (app v) = ?vids"
    using v assms(2) by (auto simp: onlineVisitors_def bnd_def act_eval split: prod.splits res.splits)
  then have "filter (\<lambda>vid. \<not> listed (pg_present (app v)) vid) ?vids = []"
    using n by (auto simp: filter_empty_conv listed_def)
  then have "onlineVisitors ?E A (JArr xs) v = (Done (), upd_page (\<lambda>p. p\<lparr>pg_present := ?vids\<rparr>) v)"
    using assms(2) by (simp add: onlineVisitors_def bnd_def s act_eval)
  also have "upd_page (\<lambda>p. p\<lparr>pg_present := ?vids\<rparr>) v = v" by (simp add: upd_page_def flip: p)
  finally show "onlineVisitors ?E A (JArr xs) v = (Done (), v)" .
qed

subsection \<open>Watchers pile up\<close>

lemma admin_lis: "lis (admin_env A B (Suc d)) = admin_handler A (admin_env A B d)"
  by (simp add: admin_env_def fun_eq_iff)

lemma admin_fields [simp]:
  "channelPrefix (admin_env A B d) = channelPrefix B" "chat_channel (admin_env A B d) = chat_channel B"
  "ous_channel (admin_env A B d) = ous_channel B" "chat_key (admin_env A B d) = chat_key B"
  by (simp_all add: admin_env_def chat_channel_def ous_channel_def chat_key_def fun_eq_iff)

lemma admin_closed_eq:
  "\<exists>v. admin_closed E w = (Done (), v) \<and> c_watch v = c_watch w \<and> c_channels v = c_channels w \<and> chans v = chans w
    \<and> (\<forall>i. kept (chat_key E i) v = None) \<and> pg_role (app v) = pg_role (app w) \<and> pg_next (app v) = pg_next (app w)"
proof -
  have "map_of (filter (\<lambda>(k, _). \<not> is_chat_key k) m) (chat_key E i) = None" for m :: "(string \<times> nat) list" and i
    by (induction m) (auto simp: is_chat_key_def chat_key_def)
  then show ?thesis
    by (simp add: admin_closed_def attempt_def fx_def each_def chat_page_events_def upd_page_def act_eval kept_def bnd_def)
qed

lemma one_watcher: "(\<exists>ms. [Fn n] = map Fn ms \<and> P ms) \<longleftrightarrow> P [n]"
  by (auto simp: Cons_eq_map_conv)

lemma addChatToNodeJS_again:
  assumes "has_channel (chat_channel E A c) w" and "kept (chat_key E c) w = None"
  shows "\<exists>v. addChatToNodeJS E A c w = (Done (), v) \<and> added [(chat_channel E A c, ''chat'', c)] w v
    \<and> (\<forall>k. k \<noteq> chat_key E c \<longrightarrow> kept k v = kept k w)"
proof -
  obtain i where i: "subscribe E (chat_channel E A c) JUndef w = (Done i, w)" "ch_name (chans w i) = chat_channel E A c"
    using has_channel_subscribe [OF assms(1)] by blast
  show ?thesis
    using assms(2) i(2)
    by (simp add: addChatToNodeJS_def attempt_def i(1) keep_def channel_on_def closure_def channel_watch_def watch_def
        act_eval bnd_def kept_def added_def watchers_def one_watcher)
qed

text \<open>The watchers that connecting adds, for chats whose channels, like that of the online users, the client has.\<close>

definition page_watchers :: "page env \<Rightarrow> admin_page \<Rightarrow> (string \<times> string \<times> js) list" where
  "page_watchers E A = map (\<lambda>c. (chat_channel E A c, ''chat'', c)) (ad_chats A) @ [(ous_channel E A, ''online'', JUndef)]"

definition known_channels :: "page env \<Rightarrow> admin_page \<Rightarrow> page world \<Rightarrow> bool" where
  "known_channels E A w \<longleftrightarrow> (\<forall>c\<in>set (ad_chats A). has_channel (chat_channel E A c) w) \<and> has_channel (ous_channel E A) w"

lemma each_chat_again:
  assumes "\<forall>c\<in>set cs. has_channel (chat_channel E A c) w \<and> kept (chat_key E c) w = None" and "distinct (map (chat_key E) cs)"
  shows "\<exists>v. each (addChatToNodeJS E A) cs w = (Done (), v) \<and> added (map (\<lambda>c. (chat_channel E A c, ''chat'', c)) cs) w v"
  using assms
proof (induction cs arbitrary: w)
  case Nil
  show ?case by (auto simp: ret_def intro: added_none)
next
  case (Cons c cs)
  obtain u where u: "addChatToNodeJS E A c w = (Done (), u)" "added [(chat_channel E A c, ''chat'', c)] w u"
    "\<forall>k. k \<noteq> chat_key E c \<longrightarrow> kept k u = kept k w"
    using addChatToNodeJS_again [of E A c w] Cons.prems(1) by auto
  have "\<forall>c'\<in>set cs. has_channel (chat_channel E A c') u \<and> kept (chat_key E c') u = None"
    using Cons.prems u(2,3) by (auto simp: image_iff)
  then obtain v where "each (addChatToNodeJS E A) cs u = (Done (), v)"
    "added (map (\<lambda>c. (chat_channel E A c, ''chat'', c)) cs) u v"
    using Cons.IH [of u] Cons.prems(2) by auto
  then show ?case using u(1) added_append [OF u(2)] by (auto simp: bnd_eval(1))
qed

lemma connectAdmin_again:
  assumes "known_channels E A w" and "\<forall>c\<in>set (ad_chats A). kept (chat_key E c) w = None" and "distinct (map (chat_key E) (ad_chats A))"
  shows "\<exists>v. connectAdmin E A w = (Done (), v) \<and> added (page_watchers E A) w v"
proof -
  let ?w = "upd_page (\<lambda>p. p\<lparr>pg_fx := pg_fx p @ [Assign ''lhinst.nodeJsMode'' (JBool True)]\<rparr>) w"
  have "\<forall>c\<in>set (ad_chats A). has_channel (chat_channel E A c) ?w \<and> kept (chat_key E c) ?w = None"
    using assms(1,2) by (simp add: known_channels_def has_channel_def kept_def)
  from each_chat_again [OF this assms(3)] obtain u where
    u: "each (addChatToNodeJS E A) (ad_chats A) ?w = (Done (), u)"
    and added: "added (map (\<lambda>c. (chat_channel E A c, ''chat'', c)) (ad_chats A)) ?w u" by blast
  let ?u = "upd_page (\<lambda>p. p\<lparr>pg_fx := pg_fx p @ [Assign ''confLH.chat_message_sinterval'' (JNum (Fin 15000))]\<rparr>)
      (upd_page (\<lambda>p. p\<lparr>pg_fx := pg_fx p @ map AddListener admin_page_events\<rparr>) u)"
  have "has_channel (ous_channel E A) ?u"
    using assms(1) added_has [OF added] by (simp add: known_channels_def has_channel_def)
  then obtain i where i: "subscribe E (ous_channel E A) JUndef ?u = (Done i, ?u)" "ch_name (chans ?u i) = ous_channel E A"
    using has_channel_subscribe by blast
  have "\<exists>v. connectAdmin E A w = (Done (), v) \<and> added [(ous_channel E A, ''online'', JUndef)] u v"
    using i
    by (simp add: connectAdmin_def attempt_def fx_def u each_fx [unfolded fx_def] bnd_eval(1) keep_def
        channel_on_def closure_def channel_watch_def watch_def act_eval bnd_def added_def watchers_def one_watcher)
  moreover have "added (map (\<lambda>c. (chat_channel E A c, ''chat'', c)) (ad_chats A)) w u"
    using added by (simp add: added_def watchers_def)
  ultimately show ?thesis unfolding page_watchers_def by (blast intro: added_append)
qed

text \<open>
  The calls with which the script connects as a known operator: the client says so when its
  connection is open, or the server has answered the login.
\<close>

definition enters :: "call \<Rightarrow> bool" where
  "enters c \<longleftrightarrow> (\<exists>st. c = Emit ''connect'' [st] \<and> truthy (get st ''isAuthenticated''))
     \<or> (\<exists>err data. c = UserCall 0 err data \<and> \<not> truthy err)"

lemma enters_connects: "enters c \<Longrightarrow> lis (admin_env A B (Suc d)) c = connectAdmin (admin_env A B d) A"
proof -
  have "\<not> nullish st" if "truthy (get st ''isAuthenticated'')" for st using that by (cases st) simp_all
  then show "enters c \<Longrightarrow> ?thesis"
    by (auto simp: enters_def admin_lis admin_handler_def arg_def admin_connected_def field_def read_prop_def admin_login_answer_def)
qed

definition comes_back :: "page env \<Rightarrow> js list \<times> call \<Rightarrow> unit script" where
  "comes_back E r = steps [lis E (Emit ''close'' (fst r)), lis E (snd r)]"

lemma comes_back_once:
  assumes "enters (snd r)" and "known_channels B A w" and "distinct (map (chat_channel B A) (ad_chats A))"
  shows "\<exists>v. comes_back (admin_env A B (Suc d)) r w = (Done (), v) \<and> added (page_watchers B A) w v"
proof -
  let ?E = "admin_env A B d"
  have "map (chat_channel B A) cs = map (\<lambda>k. instance_channel B (ad_cfg A) ''chat_'' (JStr k)) (map (to_key B) cs)" for cs
    by (simp add: chat_channel_def instance_channel_def to_key_def [where v = "JStr s" for s])
  then have "distinct (map (to_key B) (ad_chats A))" using assms(3) by (metis distinct_map)
  then have keys: "distinct (map (chat_key ?E) (ad_chats A))"
    by (simp add: chat_key_def distinct_map inj_on_def)
  obtain u where u: "admin_closed ?E w = (Done (), u)" "c_watch u = c_watch w" "c_channels u = c_channels w" "chans u = chans w"
    "\<forall>i. kept (chat_key ?E i) u = None" "pg_role (app u) = pg_role (app w)" "pg_next (app u) = pg_next (app w)"
    using admin_closed_eq [of ?E w] by blast
  have "known_channels ?E A u" using assms(2) u(3,4) by (simp add: known_channels_def has_channel_def)
  from connectAdmin_again [OF this _ keys] u(5) obtain v
    where v: "connectAdmin ?E A u = (Done (), v)" "added (page_watchers ?E A) u v" by blast
  have "added ([] @ page_watchers ?E A) w v"
    using added_append [OF added_none v(2)] u by simp
  moreover have "page_watchers ?E A = page_watchers B A" by (simp add: page_watchers_def)
  moreover have "lis (admin_env A B (Suc d)) (Emit ''close'' (fst r)) = admin_closed ?E"
    by (simp add: admin_lis admin_handler_def)
  ultimately show ?thesis
    using u(1) v(1) by (simp add: comes_back_def enters_connects [OF assms(1)] bnd_def act_eval)
qed

lemma comes_back_often:
  assumes "\<forall>r\<in>set rs. enters (snd r)" and "known_channels B A w" and "distinct (map (chat_channel B A) (ad_chats A))"
  shows "\<exists>v. each (comes_back (admin_env A B (Suc d))) rs w = (Done (), v)
    \<and> added (concat (replicate (length rs) (page_watchers B A))) w v"
  using assms(1,2)
proof (induction rs arbitrary: w)
  case Nil
  show ?case by (auto simp: ret_def intro: added_none)
next
  case (Cons r rs)
  have "enters (snd r)" using Cons.prems(1) by simp
  from comes_back_once [OF this Cons.prems(2) assms(3)]
  obtain u where u: "comes_back (admin_env A B (Suc d)) r w = (Done (), u)" "added (page_watchers B A) w u" by blast
  then have "known_channels B A u" using Cons.prems(2) by (simp add: known_channels_def)
  then obtain v where "each (comes_back (admin_env A B (Suc d))) rs u = (Done (), v)"
    "added (concat (replicate (length rs) (page_watchers B A))) u v"
    using Cons.IH Cons.prems(1) by auto
  then show ?case using u added_append by (auto simp: bnd_eval(1))
qed

text \<open>Of the watchers added, those of one channel.\<close>

lemma chat_not_ous: "chat_channel E A i \<noteq> ous_channel E A"
  by (simp add: chat_channel_def instance_channel_def ous_channel_def)

lemma filter_one: "distinct (map f xs) \<Longrightarrow> x \<in> set xs \<Longrightarrow> filter (\<lambda>y. f y = f x) xs = [x]"
  by (induction xs) (auto simp: filter_empty_conv image_iff)

lemma page_watchers_of:
  "filter (\<lambda>r. fst r = ous_channel E A) (page_watchers E A) = [(ous_channel E A, ''online'', JUndef)]"
  "distinct (map (chat_channel E A) (ad_chats A)) \<Longrightarrow> i \<in> set (ad_chats A)
     \<Longrightarrow> filter (\<lambda>r. fst r = chat_channel E A i) (page_watchers E A) = [(chat_channel E A i, ''chat'', i)]"
  using filter_one [of "chat_channel E A" "ad_chats A" i]
  by (simp_all add: page_watchers_def filter_map comp_def chat_not_ous chat_not_ous [symmetric])

lemma filter_rounds: "filter P (concat (replicate n xs)) = concat (replicate n (filter P xs))"
  by (induction n) simp_all

lemma watchers_after_rounds:
  assumes "added (concat (replicate n R)) w v" and "filter (\<lambda>r. fst r = ch) R = [(ch, r)]"
  shows "\<forall>f\<in>set (watchers ch w). \<exists>m<pg_next (app w). f = Fn m \<and> pg_role (app w) m = r
      \<Longrightarrow> f \<in> set (watchers ch v) \<Longrightarrow> \<exists>m. f = Fn m \<and> pg_role (app v) m = r"
    and "length (watchers ch v) = length (watchers ch w) + n"
proof -
  obtain ms where ms: "watchers ch v = watchers ch w @ map Fn ms"
    "map (pg_role (app v)) ms = map snd (filter (\<lambda>r. fst r = ch) (concat (replicate n R)))"
    using added_watchers [OF assms(1), of ch] by metis
  have "map snd (filter (\<lambda>r. fst r = ch) (concat (replicate n R))) = replicate n r"
    unfolding filter_rounds assms(2) by (induction n) simp_all
  with ms(2) have roles: "map (pg_role (app v)) ms = replicate n r" by simp
  show "length (watchers ch v) = length (watchers ch w) + n"
    using ms(1) arg_cong [OF roles, of length] by simp
  have new: "pg_role (app v) m = r" if "m \<in> set ms" for m
    using arg_cong [OF roles, of set] that by (auto split: if_splits)
  show "\<exists>m. f = Fn m \<and> pg_role (app v) m = r"
    if "\<forall>f\<in>set (watchers ch w). \<exists>m<pg_next (app w). f = Fn m \<and> pg_role (app w) m = r" "f \<in> set (watchers ch v)"
    using that ms(1) new assms(1) by (auto simp: added_def)
qed

definition new_message :: js where
  "new_message = JObj [(''op'', JStr ''cmsg'')]"

text \<open>
  C28: The operator's page forgets its channels when the connection is lost, but leaves their
  watchers in the client. Each time the page's script has seen the connection close and has
  entered again as a known operator, told so by \<open>connect\<close> or by the answer to its login (the
  calls of the script's listeners, one behind the other), every chat that is synchronised gets
  one more watcher, and so does the channel of the online users, provided that the client still
  has these channels. A packet on a chat's channel that only has effects on the page, such as
  synchronising the messages (\<open>cmsg\<close>), is then handled once by each of these watchers: its
  effects happen as many times as there were watchers and reconnections.
\<close>

theorem admin_watchers_pile_up:
  assumes "\<forall>r\<in>set rs. enters (snd r)"
    and "distinct (map (chat_channel B A) (ad_chats A))" and "known_channels B A w"
    and "\<forall>i\<in>set (ad_chats A). \<forall>f\<in>set (watchers (chat_channel B A i) w).
      \<exists>m<pg_next (app w). f = Fn m \<and> pg_role (app w) m = (''chat'', i)"
  shows "\<exists>v. each (comes_back (admin_env A B (Suc d))) rs w = (Done (), v)
    \<and> length (watchers (ous_channel B A) v) = length (watchers (ous_channel B A) w) + length rs
    \<and> (\<forall>i\<in>set (ad_chats A). length (watchers (chat_channel B A i) v) = length (watchers (chat_channel B A i) w) + length rs
      \<and> (\<forall>x es. chat_watch (admin_env A B d) A i x = each fx es \<longrightarrow>
          (\<exists>v'. on_publish (admin_env A B (Suc d)) (publication B (chat_channel B A i) x) v = (Done (), v')
            \<and> pg_fx (app v') = pg_fx (app v)
              @ concat (replicate (length (watchers (chat_channel B A i) w) + length rs) es))))"
proof -
  let ?E = "admin_env A B (Suc d)"
  obtain v where v: "each (comes_back ?E) rs w = (Done (), v)"
    and add: "added (concat (replicate (length rs) (page_watchers B A))) w v"
    using comes_back_often [OF assms(1,3,2)] by blast
  note more = watchers_after_rounds [OF add]
  have "length (watchers (chat_channel B A i) v) = length (watchers (chat_channel B A i) w) + length rs"
    if i: "i \<in> set (ad_chats A)" for i
    using more(2) [OF page_watchers_of(2) [OF assms(2) i]] .
  moreover have "\<exists>v'. on_publish ?E (publication ?E (chat_channel B A i) x) v = (Done (), v')
        \<and> pg_fx (app v') = pg_fx (app v) @ concat (replicate (length (watchers (chat_channel B A i) v)) es)"
    if i: "i \<in> set (ad_chats A)" and x: "chat_watch (admin_env A B d) A i x = each fx es" for i x es
  proof (rule publication_delivered)
    show "isSubscribed (chat_channel B A i) True v"
      using assms(3) i added_has [OF add] by (intro has_channel_subscribed) (simp add: known_channels_def)
    show "lis ?E (Watcher f x) = call_watcher (admin_watch (admin_env A B d) A) f x" for f
      by (simp add: admin_lis admin_handler_def)
    show "\<exists>m. f = Fn m \<and> admin_watch (admin_env A B d) A (pg_role (app v) m) x = each fx es"
      if "f \<in> set (watchers (chat_channel B A i) v)" for f
      using more(1) [OF page_watchers_of(2) [OF assms(2) i] bspec [OF assms(4) i] that] x by (auto simp: admin_watch_def)
  qed
  moreover have "publication ?E = publication B" by (simp add: admin_env_def)
  moreover have "length (watchers (ous_channel B A) v) = length (watchers (ous_channel B A) w) + length rs"
    by (rule more(2) [OF page_watchers_of(1)])
  ultimately show ?thesis using v by (intro exI [of _ v]) simp
qed

subsection \<open>An operator's page\<close>

definition demo_page :: admin_page where
  "demo_page = \<lparr>ad_cfg = JObj [(''instance_id'', JNum (Fin 0))], ad_chat = JStr ''5'', ad_user = JNum (Fin 1),
     ad_chats = [JStr ''5''], ad_owner = (\<lambda>_. None), ad_element = (\<lambda>_. False)\<rparr>"

definition demo_admin :: "page world" where
  "demo_admin = snd (lis (admin_env demo_page page_env 1) (Emit ''connect'' [known]) page_start)"

lemma demo_channels:
  "chat_channel E demo_page (JStr ''5'') = ''chat_5''" "ous_channel E demo_page = ''ous_0''"
  by (simp_all add: chat_channel_def ous_channel_def instance_channel_def positive_def demo_page_def loose_num_def to_key_def
      show_int_def show_nat_digit digit_chr_def)

lemma demo_chats: "ad_chats demo_page = [JStr ''5'']"
  by (simp add: demo_page_def)

lemmas admin_eval = admin_lis admin_handler_def arg_def known_def admin_connected_def field_def read_prop_def connectAdmin_def
  attempt_def addChatToNodeJS_def demo_channels demo_chats kept_def keep_def subscribe_def add_channel_def new_channel_def
  setOptions_def trySubscribe_def channel_on_def closure_def channel_watch_def watch_def watchers_def listeners_def on_def
  new_emitter_def upd_chan_def page_start_def initial_world_def upd_page_def new_page_def act_eval bnd_def fx_def
  admin_page_events_def each_def

lemma demo_admin_sel:
  "map_of (c_channels demo_admin) ''chat_5'' = Some 0" "map_of (c_channels demo_admin) ''ous_0'' = Some 1"
  "ch_state (chans demo_admin 0) = PENDING" "ch_state (chans demo_admin 1) = PENDING"
  "ch_name (chans demo_admin 0) = ''chat_5''" "ch_name (chans demo_admin 1) = ''ous_0''"
  "watchers ''chat_5'' demo_admin = [Fn 2]" "pg_role (app demo_admin) 2 = (''chat'', JStr ''5'')"
  "pg_next (app demo_admin) = 5"
  by (simp_all add: demo_admin_def admin_eval chat_key_def numeral_2_eq_2)

theorem admin_watchers_pile_up_witness:
  "\<exists>v. each (comes_back (admin_env demo_page page_env 1)) [([], Emit ''connect'' [known]), ([], UserCall 0 JNull JUndef)] demo_admin = (Done (), v)
    \<and> length (watchers ''chat_5'' v) = 3
    \<and> (\<exists>v'. on_publish (admin_env demo_page page_env 1) (publication page_env ''chat_5'' new_message) v = (Done (), v')
      \<and> pg_fx (app v') = pg_fx (app v) @ replicate 3 (Invoke ''syncadmincall'' []))"
proof -
  let ?rs = "[([], Emit ''connect'' [known]), ([], UserCall 0 JNull JUndef)]"
  have h: "\<forall>r\<in>set ?rs. enters (snd r)" "distinct (map (chat_channel page_env demo_page) (ad_chats demo_page))"
    "known_channels page_env demo_page demo_admin"
    "\<forall>i\<in>set (ad_chats demo_page). \<forall>f\<in>set (watchers (chat_channel page_env demo_page i) demo_admin).
      \<exists>m<pg_next (app demo_admin). f = Fn m \<and> pg_role (app demo_admin) m = (''chat'', i)"
    by (simp_all add: enters_def known_def known_channels_def has_channel_def demo_chats demo_channels demo_admin_sel demo_admin_sel [simplified])
  have c: "chat_watch (admin_env demo_page page_env 0) demo_page (JStr ''5'') new_message = each fx [Invoke ''syncadmincall'' []]"
    by (simp add: chat_watch_def new_message_def field_def read_prop_def loose_str_def bnd_unit)
  obtain v where v: "each (comes_back (admin_env demo_page page_env 1)) ?rs demo_admin = (Done (), v)"
    "length (watchers ''chat_5'' v) = 3"
    "\<And>x es. chat_watch (admin_env demo_page page_env 0) demo_page (JStr ''5'') x = each fx es \<Longrightarrow>
      \<exists>v'. on_publish (admin_env demo_page page_env 1) (publication page_env ''chat_5'' x) v = (Done (), v')
        \<and> pg_fx (app v') = pg_fx (app v) @ concat (replicate 3 es)"
    using admin_watchers_pile_up [OF h, of 0] by (auto simp: demo_chats demo_channels demo_admin_sel eval_nat_numeral)
  have "concat (replicate 3 [e]) = replicate 3 e" for e :: effect by (simp add: eval_nat_numeral)
  then show ?thesis using v(1,2) v(3) [OF c] by auto
qed

definition demo_visitors :: "js list" where
  "demo_visitors = [JObj [(''vid'', JStr ''a'')]]"

theorem visitors_asked_when_new_witness:
  "onlineVisitors (admin_env demo_page page_env 1) demo_page (JArr demo_visitors) page_start
   = steps [each (ask_online (admin_env demo_page page_env 1)) [JStr ''a''],
       modify (upd_page (\<lambda>p. p\<lparr>pg_present := [JStr ''a'']\<rparr>))] page_start"
proof -
  have "pg_present (app page_start) = []" by (simp add: page_start_def initial_world_def new_page_def)
  moreover have "tracks demo_page" by (simp add: tracks_def demo_page_def)
  ultimately show ?thesis
    using visitors_asked_when_new [of demo_visitors demo_page page_env 1 page_start] by (simp add: demo_visitors_def listed_def)
qed

definition demo_mail :: "page world" where
  "demo_mail = admin_run page_env 1 [(demo_page, MailLoaded (JStr ''9''))] page_start"

theorem intervals_have_channel_witness:
  "pg_timers (app demo_mail) = [''mail:9'']
   \<and> admin_step demo_page (admin_env demo_page page_env 1) (Interval ''mail:9'') demo_mail
     = channel_publish (admin_env demo_page page_env 1) 0 (here_packet demo_page ''oo'') demo_mail"
proof -
  have key: "mail_key E (JStr ''9'') = ''mail:9''" for E by (simp add: mail_key_def to_key_def)
  have t: "pg_timers (app demo_mail) = [''mail:9'']" "kept ''mail:9'' demo_mail = Some 0"
    by (simp_all add: demo_mail_def admin_step_def mailChatContentLoaded_def start_interval_def key admin_eval)
  have "pg_timers (app page_start) = []" by (simp add: page_start_def initial_world_def new_page_def)
  from intervals_have_channel [OF this demo_mail_def, of demo_page "admin_env demo_page page_env 1"]
  show ?thesis using t by auto
qed

end
