(* ===== verification/Page_Server.thy ===== *)
theory Page_Server
  imports Page_Site Page_Widget Page_Admin Worker
begin

text \<open>
  The page scripts and the socket server together: the packets the pages log in with meet the
  server's handlers, and the packets one page publishes meet the watchers of the other. The
  channel is the network between them: what is published on it reaches its watchers as it is.
\<close>

subsection \<open>Logging in\<close>

lemma visitor_packets: "vi_online True = online_packet" "vi_online False = JObj [(''op'', JStr ''vi_online''), (''status'', JBool False)]"
  by (simp_all add: vi_online_def online_packet_def)

lemma instance_channel_last:
  "CHR ''_'' \<notin> set (to_key E chat) \<Longrightarrow> last (split_on CHR ''_'' (instance_channel E cfg ''chat_'' chat)) = to_key E chat"
  using last_split_on [of "CHR ''_''" "to_key E chat" "''chat''"]
    last_split_on [of "CHR ''_''" "to_key E chat" "''chat_'' @ to_key E (get cfg ''instance_id'')"]
  by (simp add: instance_channel_def)

lemma instance_channel_chat: "occurs ''chat_'' (instance_channel E cfg ''chat_'' chat)"
  using occurs_append_left [of "''chat_''"] by (simp add: instance_channel_def)

text \<open>The site's answer to a request for a token (\<open>tokenvisitor.php\<close>).\<close>

definition chat_token_answer :: "(string \<Rightarrow> string) \<Rightarrow> string \<Rightarrow> nat \<Rightarrow> string \<Rightarrow> jnum \<Rightarrow> js" where
  "chat_token_answer sha1 secret ts chat_id iid = JObj [(''instance_id'', JNum iid),
     (''hash'', JStr (sha1 (show_nat ts @ ''Visitor'' @ secret @ ''_'' @ chat_id) @ ''.'' @ show_nat ts))]"

text \<open>
  C8: A chat window that asks the site for a token is let in: the server accepts the login
  packet made from the site's answer while it is less than an hour old, then allows the window's
  subscription to its own channel, announces the visitor there as online, and announces the
  visitor as offline on the same channel when the window disconnects.
\<close>

theorem chat_window_let_in:
  assumes "\<forall>x. CHR ''.'' \<notin> set (sha1 x)" and "int ts > sec_now now - 60 * 60" and "ts < 10 ^ 20"
    and "CHR ''_'' \<notin> set (to_key E chat)" and "data = chat_token_answer sha1 secret ts (to_key E chat) iid"
  shows "\<exists>t t'. login sha1 secret now (widget_login_packet E cfg chat data) = ([Respond None, SetAuthToken t], None)
    \<and> on_subscribe fmt track (Some t) (widget_channel E cfg chat)
      = (Some t', [Worker.Publish (widget_channel E cfg chat) (vi_online True), Next None], None)
    \<and> on_disconnect fmt track (Some t') = ([Worker.Publish (widget_channel E cfg chat) (vi_online False)], None)"
proof -
  let ?ch = "widget_channel E cfg chat"
  have ch: "occurs ''chat_'' ?ch" "last (split_on CHR ''_'' ?ch) = to_key E chat" "?ch \<noteq> []"
    using instance_channel_chat [of E cfg chat] instance_channel_last [OF assms(4), of cfg]
    by (auto simp: widget_channel_def instance_channel_def)
  have hex: "CHR ''.'' \<notin> set (sha1 x)" for x using assms(1) by simp
  obtain h where h: "h = sha1 (show_nat ts @ ''Visitor'' @ secret @ ''_'' @ to_key E chat) @ ''.'' @ show_nat ts" by blast
  have p: "widget_login_packet E cfg chat data = JObj [(''hash'', JStr h), (''chanelName'', JStr ?ch), (''instance_id'', JNum iid)]"
    by (simp add: widget_login_packet_def assms(5) chat_token_answer_def h)
  show ?thesis
    using ch by (simp add: p issued_chat_hash [where ?sha1.0 = sha1, OF hex assms(2,3) ch(1,2) h] on_subscribe_def on_disconnect_def chat_joined_def)
qed

text \<open>
  On a site with an installation id, the presence of its visitors is lost: the site's
  login packet carries no installation, so the server announces its visitors on the channel of
  installation 0, while the operators of the installation watch the channel with its number.
\<close>

theorem site_presence_lost:
  assumes "\<forall>x. CHR ''.'' \<notin> set (sha1 x)" and "int ts > sec_now now - 60 * 60" and "ts < 10 ^ 20"
    and "get cfg ''hash'' = JStr (sha1 (show_nat ts @ ''Visitor'' @ secret) @ ''.'' @ show_nat ts)"
    and "\<not> occurs ''chat_'' (site_channel E vid)"
    and "get (ad_cfg A) ''instance_id'' = JNum (Fin (of_nat n))" and "0 < n" and "n < 10 ^ 20"
  shows "\<exists>t cs. login sha1 secret now (site_login_packet E cfg vid) = ([Respond None, SetAuthToken t], None)
    \<and> on_subscribe fmt True (Some t) (site_channel E vid) = (Some t, [Worker.Publish ''ous_0'' cs, Next None], None)
    \<and> ''ous_0'' \<noteq> ous_channel E A"
proof -
  have hex: "CHR ''.'' \<notin> set (sha1 x)" for x using assms(1) by simp
  obtain h where h: "h = sha1 (show_nat ts @ ''Visitor'' @ secret) @ ''.'' @ show_nat ts" by blast
  have p: "site_login_packet E cfg vid = JObj [(''hash'', JStr h), (''chanelName'', JStr (site_channel E vid))]"
    by (simp add: site_login_packet_def assms(4) h)
  have "show_nat n \<noteq> ''0''" using show_nat_inject [of n 0] assms(7) by (simp add: show_nat_digit digit_chr_def)
  then have "''ous_0'' \<noteq> ous_channel E A"
    using assms(8) by (simp add: ous_channel_def assms(6) to_key_def show_int_def)
  then show ?thesis
    using assms(5) by (simp add: p issued_site_hash [where ?sha1.0 = sha1, OF hex assms(2,3,5) h] on_subscribe_def ous_packet_def
        last_part_def show_int_def show_nat_digit digit_chr_def)
qed

subsection \<open>Typing\<close>

text \<open>
  What the two pages show. The visitor's text is hidden on a site that says so; the operator is
  shown to the visitor under the name in the title of the chat's owner, when the page has that
  element with a title, and under the site's text otherwise. Somebody else's chat is left alone.
\<close>

definition visitor_text :: "js \<Rightarrow> js \<Rightarrow> js" where
  "visitor_text cfg data = (if truthy (get cfg ''hide_typing'') then get cfg ''typing_text'' else get data ''msg'')"

definition shown_to_operator :: "page env \<Rightarrow> js \<Rightarrow> js \<Rightarrow> effect list" where
  "shown_to_operator E i text =
     [Document (''#user-is-typing-'' @ to_key E i @ '' text'') text,
      Document (''#user-is-typing-'' @ to_key E i @ '' visibility'') (JStr ''visible''),
      EmitPage ''nodeJsTypingVisitor'' [JObj [(''id'', i), (''txt'', text)]]]"

definition owner_of :: "page env \<Rightarrow> admin_page \<Rightarrow> js \<Rightarrow> (string option \<times> string option) option" where
  "owner_of E A i = ad_owner A (''chat-owner-'' @ to_key E i)"

definition owned_by_other :: "page env \<Rightarrow> admin_page \<Rightarrow> js \<Rightarrow> bool" where
  "owned_by_other E A i \<longleftrightarrow> (\<exists>u t. owner_of E A i = Some (u, t) \<and> \<not> is_user E (ad_user A) u)"

definition operator_text :: "page env \<Rightarrow> admin_page \<Rightarrow> js \<Rightarrow> js" where
  "operator_text E A i = (case owner_of E A i of
     Some (_, Some (c # cs)) \<Rightarrow> JStr ((c # cs) @ '' '' @ to_key E (get (ad_cfg A) ''typer_ending_txt''))
   | _ \<Rightarrow> get (ad_cfg A) ''typer'')"

definition shown_to_visitor :: "page env \<Rightarrow> js \<Rightarrow> js \<Rightarrow> effect list" where
  "shown_to_visitor E status text = (if loose_int E status 1
     then [Document ''#id-operator-typing text'' text, Document ''#id-operator-typing visibility'' (JStr ''visible'')]
     else [Document ''#id-operator-typing visibility'' (JStr ''hidden'')])"

lemma visitor_typing_published:
  assumes "\<not> nullish data"
  shows "visitorTypingListener E cfg chat data
    = client_emit E ''#publish'' (publication E (widget_channel E cfg chat) (typing_packet (visitor_text cfg data))) None"
  using assms by (simp add: visitorTypingListener_def visitor_text_def field_def read_prop_def publish_publication)

lemma visitor_typing_shown:
  "chat_watch E A i (typing_packet text) = each fx (shown_to_operator E i text)"
  by (simp add: chat_watch_def typing_packet_def shown_to_operator_def typing_dom_def field_def read_prop_def loose_str_def)

lemma operator_typing_published:
  assumes "\<not> owned_by_other E A (get d ''chat_id'')" and "d = JObj ps"
  shows "\<exists>shown. operatorTypingListener E A d = steps [fx (EmitPage ''nodeJsTypingOperator'' [shown]), client_emit E ''#publish''
      (publication E (chat_channel E A (get d ''chat_id'')) (JObj [(''op'', JStr ''ot''), (''data'', shown)])) None]
    \<and> get shown ''ttx'' = operator_text E A (get d ''chat_id'') \<and> get shown ''status'' = get d ''status'' \<and> \<not> nullish shown"
proof -
  let ?i = "get d ''chat_id''"
  let ?title = "case owner_of E A ?i of None \<Rightarrow> JNull | Some (_, t) \<Rightarrow> attr t"
  let ?ttx = "if truthy ?title then JStr (to_key E ?title @ '' '' @ to_key E (get (ad_cfg A) ''typer_ending_txt''))
    else get (ad_cfg A) ''typer''"
  obtain shown where shown: "shown = JObj (al_set ''typer'' (if truthy ?title then ?title else get (ad_cfg A) ''name_support'') (al_set ''ttx'' ?ttx ps))"
    by blast
  have "?ttx = operator_text E A ?i"
    by (auto simp: operator_text_def attr_def to_key_def [where v = "JStr s" for s] split: option.splits list.splits)
  then have get: "get shown ''ttx'' = operator_text E A ?i" "get shown ''status'' = get d ''status''" "get shown ''chat_id'' = ?i"
    by (simp_all add: shown assms(2))
  have other: "\<not> (case owner_of E A ?i of None \<Rightarrow> False | Some (u, _) \<Rightarrow> \<not> is_user E (ad_user A) u)"
    using assms(1) by (auto simp: owned_by_other_def split: option.splits)
  have "operatorTypingListener E A d = steps [fx (EmitPage ''nodeJsTypingOperator'' [shown]),
      publish E (chat_channel E A (get shown ''chat_id'')) (JObj [(''op'', JStr ''ot''), (''data'', shown)]) None]"
    using other unfolding operatorTypingListener_def owner_of_def [symmetric]
    by (simp add: field_def read_prop_def assms(2) set_prop_def Let_def shown)
  then show ?thesis using get shown by (auto simp: publish_publication)
qed

lemma operator_typing_shown:
  assumes "\<not> nullish shown"
  shows "widget_watch E cfg chat (JObj [(''op'', JStr ''ot''), (''data'', shown)])
    = each fx (shown_to_visitor E (get shown ''status'') (get shown ''ttx''))"
  using assms
  by (simp add: widget_watch_def shown_to_visitor_def field_def read_prop_def loose_str_def bnd_unit)

lemma other_owner_silent: "owned_by_other E A (get d ''chat_id'') \<Longrightarrow> d = JObj ps \<Longrightarrow> operatorTypingListener E A d = skip"
  by (auto simp: operatorTypingListener_def owned_by_other_def owner_of_def field_def read_prop_def)

lemma script_views [simp]:
  "owner_of (admin_env A B d) = owner_of B" "operator_text (admin_env A B d) = operator_text B"
  "owned_by_other (admin_env A B d) = owned_by_other B" "shown_to_operator (admin_env A B d) = shown_to_operator B"
  "shown_to_visitor (widget_env cfg chat B d) = shown_to_visitor B"
  "publication (admin_env A B d) = publication B" "publication (widget_env cfg chat B d) = publication B"
proof -
  have user: "is_user (admin_env A B d) = is_user B"
    by (auto simp: is_user_def fun_eq_iff admin_env_def split: option.split)
  have key: "to_key (admin_env A B d) = to_key B" by (simp add: admin_env_def)
  show owner: "owner_of (admin_env A B d) = owner_of B" by (simp add: owner_of_def key fun_eq_iff)
  show "owned_by_other (admin_env A B d) = owned_by_other B" "operator_text (admin_env A B d) = operator_text B"
    unfolding owned_by_other_def [abs_def] operator_text_def [abs_def] user key owner by (rule refl)+
qed (simp_all add: shown_to_operator_def shown_to_visitor_def loose_int_def fun_eq_iff admin_env_def widget_env_def)

text \<open>
  C9: What is typed on one side is shown on the other. The two pages have options of their own
  that agree on the installation, and ids of the chat that read the same. The visitor's text, or
  the fixed text of a window that hides what visitors type, is published; the publication, when
  it arrives at the operator's client, subscribed to the chat's channel, makes every watcher the
  page has put there show that text and announce it to the page. The operator's typing is not
  published when the page shows the chat as owned by somebody else; otherwise it is, and when
  the publication arrives at the window's client every watcher shows the name of the operator
  (from the title of the owner's element, or the operator page's text) while he types
  (\<open>status\<close> is 1), and hides it when he has stopped.
\<close>

theorem typing_reaches_other_side:
  assumes "get cfg ''instance_id'' = get (ad_cfg A) ''instance_id''"
    and "to_key B i = to_key B chat" and "to_key B (get d ''chat_id'') = to_key B chat"
    and "ch = widget_channel B cfg chat" and "\<not> nullish data" and "d = JObj ps"
    and "isSubscribed ch True v" and "\<forall>f\<in>set (watchers ch v). \<exists>n. f = Fn n \<and> pg_role (app v) n = (''chat'', i)"
    and "isSubscribed ch True w" and "\<forall>f\<in>set (watchers ch w). \<exists>n. f = Fn n"
  shows "(\<exists>p v'. visitorTypingListener (widget_env cfg chat B m) cfg chat data
        = client_emit (widget_env cfg chat B m) ''#publish'' p None
      \<and> on_publish (admin_env A B (Suc k)) p v = (Done (), v')
      \<and> pg_fx (app v') = pg_fx (app v)
        @ concat (replicate (length (watchers ch v)) (shown_to_operator B i (visitor_text cfg data))))
    \<and> (if owned_by_other B A (get d ''chat_id'') then operatorTypingListener (admin_env A B k) A d = skip
      else \<exists>shown p w'. operatorTypingListener (admin_env A B k) A d
          = steps [fx (EmitPage ''nodeJsTypingOperator'' [shown]), client_emit (admin_env A B k) ''#publish'' p None]
        \<and> on_publish (widget_env cfg chat B (Suc m)) p w = (Done (), w')
        \<and> pg_fx (app w') = pg_fx (app w)
          @ concat (replicate (length (watchers ch w)) (shown_to_visitor B (get d ''status'') (operator_text B A (get d ''chat_id'')))))"
proof (intro conjI)
  let ?W = "widget_env cfg chat B" and ?A = "admin_env A B"
  have chans: "chat_channel B A (get d ''chat_id'') = ch"
    by (simp add: assms(3,4) chat_channel_def widget_channel_def instance_channel_def assms(1))
  have "\<exists>v'. on_publish (?A (Suc k)) (publication (?A (Suc k)) ch (typing_packet (visitor_text cfg data))) v = (Done (), v')
    \<and> pg_fx (app v') = pg_fx (app v) @ concat (replicate (length (watchers ch v)) (shown_to_operator B i (visitor_text cfg data)))"
  proof (rule publication_delivered [OF assms(7)])
    show "lis (?A (Suc k)) (Watcher f x) = call_watcher (admin_watch (?A k) A) f x" for f x
      by (simp add: admin_lis admin_handler_def)
    show "\<exists>n. f = Fn n \<and> admin_watch (?A k) A (pg_role (app v) n) (typing_packet (visitor_text cfg data))
        = each fx (shown_to_operator B i (visitor_text cfg data))" if f: "f \<in> set (watchers ch v)" for f
    proof -
      obtain n where n: "f = Fn n" "pg_role (app v) n = (''chat'', i)" using bspec [OF assms(8) f] by auto
      have "chat_watch (?A k) A i (typing_packet x) = each fx (shown_to_operator B i x)" for x
        unfolding visitor_typing_shown by simp
      then show ?thesis by (intro exI [of _ n]) (simp add: admin_watch_def n)
    qed
  qed
  then show "\<exists>p v'. visitorTypingListener (?W m) cfg chat data = client_emit (?W m) ''#publish'' p None
      \<and> on_publish (?A (Suc k)) p v = (Done (), v')
      \<and> pg_fx (app v') = pg_fx (app v) @ concat (replicate (length (watchers ch v)) (shown_to_operator B i (visitor_text cfg data)))"
    unfolding visitor_typing_published [OF assms(5)] by (auto simp: assms(4))
  show "if owned_by_other B A (get d ''chat_id'') then operatorTypingListener (?A k) A d = skip
      else \<exists>shown p w'. operatorTypingListener (?A k) A d
          = steps [fx (EmitPage ''nodeJsTypingOperator'' [shown]), client_emit (?A k) ''#publish'' p None]
        \<and> on_publish (?W (Suc m)) p w = (Done (), w')
        \<and> pg_fx (app w') = pg_fx (app w)
          @ concat (replicate (length (watchers ch w)) (shown_to_visitor B (get d ''status'') (operator_text B A (get d ''chat_id''))))"
  proof (cases "owned_by_other B A (get d ''chat_id'')")
    case True
    then show ?thesis using other_owner_silent [of "?A k" A d ps] assms(6) by simp
  next
    case False
    then have "\<not> owned_by_other (?A k) A (get d ''chat_id'')" by simp
    from operator_typing_published [OF this assms(6), unfolded admin_fields script_views chans]
    obtain shown where shown: "operatorTypingListener (?A k) A d = steps [fx (EmitPage ''nodeJsTypingOperator'' [shown]),
        client_emit (?A k) ''#publish'' (publication B ch (JObj [(''op'', JStr ''ot''), (''data'', shown)])) None]"
      "get shown ''ttx'' = operator_text B A (get d ''chat_id'')" "get shown ''status'' = get d ''status''" "\<not> nullish shown" by blast
    have "\<exists>w'. on_publish (?W (Suc m)) (publication (?W (Suc m)) ch (JObj [(''op'', JStr ''ot''), (''data'', shown)])) w = (Done (), w')
      \<and> pg_fx (app w') = pg_fx (app w)
        @ concat (replicate (length (watchers ch w)) (shown_to_visitor B (get d ''status'') (operator_text B A (get d ''chat_id''))))"
    proof (rule publication_delivered [OF assms(9)])
      show "lis (?W (Suc m)) (Watcher f x) = call_watcher (\<lambda>r. widget_watch (?W m) cfg chat) f x" for f x
        by (simp add: widget_lis widget_handler_def)
      show "\<exists>n. f = Fn n \<and> widget_watch (?W m) cfg chat (JObj [(''op'', JStr ''ot''), (''data'', shown)])
          = each fx (shown_to_visitor B (get d ''status'') (operator_text B A (get d ''chat_id'')))" if "f \<in> set (watchers ch w)" for f
        using assms(10) that operator_typing_shown [OF shown(4), of "?W m"] shown(2,3) by auto
    qed
    then show ?thesis using False shown(1) by auto
  qed
qed

subsection \<open>The clients of the pages\<close>

lemma own_inputs_synced:
  "keeps synced (mailChatContentLoaded (admin_env A B d) A i)" "keeps synced (mailChatContentUnLoaded (admin_env A B d) A i)"
  "keeps synced (onlineVisitors (admin_env A B d) A data)"
proof -
  note ops = admin_mirror.subscribe admin_mirror.script_fx admin_mirror.script_channel admin_mirror.sync_visitors wp
  have m: "keeps synced (modify (upd_page f))" for f by (rule keeps_modify) simp
  show "keeps synced (mailChatContentLoaded (admin_env A B d) A i)"
    unfolding mailChatContentLoaded_def keep_def start_interval_def by (intro ops m)
  show "keeps synced (mailChatContentUnLoaded (admin_env A B d) A i)"
    unfolding mailChatContentUnLoaded_def forget_def stop_interval_def by (intro ops m)
  show "keeps synced (onlineVisitors (admin_env A B d) A data)"
    unfolding onlineVisitors_def
    by (cases data) (simp_all only: js.case,
      (intro keeps_if keeps_skip keeps_raise keeps_steps_Cons keeps_steps_Nil m admin_mirror.sync_visitors)+)
qed

lemma admin_run_synced: "synced w \<Longrightarrow> synced (admin_run B d xs w)"
proof (induction B d xs w rule: admin_run.induct)
  case (2 B d A x xs w)
  have "keeps synced (admin_step A (admin_env A B d) x)"
  proof (cases "own_input x")
    case True
    then show ?thesis using own_inputs_synced by (cases x) (simp_all add: admin_step_def)
  qed (rule admin_mirror.admin_step)
  from 2(1) [OF hoareD [OF this 2(2)]] show ?case by simp
qed simp

fun site_run :: "js \<Rightarrow> js \<Rightarrow> page env \<Rightarrow> nat \<Rightarrow> input list \<Rightarrow> page world \<Rightarrow> page world" where
  "site_run cfg vid B d [] w = w"
| "site_run cfg vid B d (x # xs) w = site_run cfg vid B d xs (snd (run (site_env cfg vid B d) x w))"

lemma site_run_synced: "synced w \<Longrightarrow> synced (site_run cfg vid B d xs w)"
  by (induction cfg vid B d xs w rule: site_run.induct) (simp_all add: hoareD [OF site_mirror.any_run_keeps])

subsection \<open>Instances\<close>

definition demo_sha1 :: "string \<Rightarrow> string" where
  "demo_sha1 x = map (\<lambda>_. CHR ''a'') x"

lemma demo_sha1_hex: "\<forall>x. CHR ''.'' \<notin> set (demo_sha1 x)"
  by (auto simp: demo_sha1_def)

lemma key_5: "to_key E (JStr ''5'') = ''5''"
  by (simp add: to_key_def)

theorem chat_window_let_in_witness:
  "\<exists>t. login demo_sha1 ''s'' 0 (widget_login_packet page_env JUndef (JStr ''5'') (chat_token_answer demo_sha1 ''s'' 7 ''5'' (Fin 0)))
     = ([Respond None, SetAuthToken t], None)"
proof -
  have "sec_now 0 - 60 * 60 < int 7" "(7::nat) < 10 ^ 20" "CHR ''_'' \<notin> set (to_key page_env (JStr ''5''))"
    by (simp_all add: key_5)
  from chat_window_let_in [OF demo_sha1_hex this refl, where cfg = JUndef and secret = "''s''" and iid = "Fin 0"] show ?thesis unfolding key_5 by blast
qed

definition demo_options :: js where
  "demo_options = JObj [(''instance_id'', JNum (Fin 3)),
     (''hash'', JStr (demo_sha1 (show_nat 7 @ ''Visitor'' @ ''s'') @ ''.'' @ show_nat 7))]"

theorem site_presence_lost_witness:
  "\<exists>t. login demo_sha1 ''s'' 0 (site_login_packet page_env demo_options (JStr ''5'')) = ([Respond None, SetAuthToken t], None)
     \<and> ''ous_0'' \<noteq> ous_channel page_env (demo_page\<lparr>ad_cfg := demo_options\<rparr>)"
proof -
  have p: "sec_now 0 - 60 * 60 < int 7" "(7::nat) < 10 ^ 20"
    "get demo_options ''hash'' = JStr (demo_sha1 (show_nat 7 @ ''Visitor'' @ ''s'') @ ''.'' @ show_nat 7)"
    "\<not> occurs ''chat_'' (site_channel page_env (JStr ''5''))"
    "get (ad_cfg (demo_page\<lparr>ad_cfg := demo_options\<rparr>)) ''instance_id'' = JNum (Fin (of_nat 3))" "0 < (3::nat)" "(3::nat) < 10 ^ 20"
    by (simp_all add: demo_options_def demo_site_channel)
  from site_presence_lost [OF demo_sha1_hex p] show ?thesis by blast
qed

definition demo_typing :: "(string \<times> js) list" where
  "demo_typing = [(''chat_id'', JStr ''5''), (''status'', JBool True)]"

definition demo_operator :: admin_page where
  "demo_operator = demo_page\<lparr>ad_owner := (\<lambda>k. if k = ''chat-owner-5'' then Some (Some ''1'', Some ''Ann'') else None),
     ad_cfg := JObj [(''instance_id'', JNum (Fin 0)), (''typer_ending_txt'', JStr ''is typing'')]\<rparr>"

definition demo_window :: js where
  "demo_window = JObj [(''instance_id'', JNum (Fin 0)), (''hide_typing'', JBool True), (''typing_text'', JStr ''...'')]"

theorem typing_reaches_other_side_witness:
  "(\<exists>p v'. visitorTypingListener (widget_env demo_window (JNum (Fin 5)) page_env 0) demo_window (JNum (Fin 5)) (JObj [(''msg'', JStr ''hi'')])
        = client_emit (widget_env demo_window (JNum (Fin 5)) page_env 0) ''#publish'' p None
      \<and> on_publish (admin_env demo_operator page_env 1) p demo_admin = (Done (), v')
      \<and> pg_fx (app v') = pg_fx (app demo_admin) @ shown_to_operator page_env (JStr ''5'') (JStr ''...''))
    \<and> (\<exists>p w'. on_publish (widget_env demo_window (JNum (Fin 5)) page_env 1) p demo_admin = (Done (), w')
        \<and> pg_fx (app w') = pg_fx (app demo_admin) @
          [Document ''#id-operator-typing text'' (JStr ''Ann is typing''), Document ''#id-operator-typing visibility'' (JStr ''visible'')])"
proof -
  let ?d = "JObj demo_typing"
  have ids: "to_key page_env (JStr ''5'') = to_key page_env (JNum (Fin 5))"
    "to_key page_env (get ?d ''chat_id'') = to_key page_env (JNum (Fin 5))"
    by (simp_all add: demo_typing_def to_key_def show_int_def show_nat_digit digit_chr_def)
  have ch: "''chat_5'' = widget_channel page_env demo_window (JNum (Fin 5))"
    by (simp add: widget_channel_def instance_channel_def positive_def loose_num_def demo_window_def to_key_def show_int_def
        show_nat_digit digit_chr_def)
  have inst: "get demo_window ''instance_id'' = get (ad_cfg demo_operator) ''instance_id''"
    by (simp add: demo_window_def demo_operator_def)
  have n: "\<not> nullish (JObj [(''msg'', JStr ''hi'')])" by simp
  have sub: "isSubscribed ''chat_5'' True demo_admin"
    by (simp add: isSubscribed_def demo_admin_sel)
  have fs: "\<forall>f\<in>set (watchers ''chat_5'' demo_admin). \<exists>n. f = Fn n \<and> pg_role (app demo_admin) n = (''chat'', JStr ''5'')"
    "\<forall>f\<in>set (watchers ''chat_5'' demo_admin). \<exists>n. f = Fn n"
    by (simp_all add: demo_admin_sel)
  have "str_to_number ''1'' = Fin 1" using str_to_number_show_nat [of 1] by (simp add: show_nat_digit digit_chr_def)
  then have texts: "visitor_text demo_window (JObj [(''msg'', JStr ''hi'')]) = JStr ''...''"
    "\<not> owned_by_other page_env demo_operator (get ?d ''chat_id'')"
    "shown_to_visitor page_env (get ?d ''status'') (operator_text page_env demo_operator (get ?d ''chat_id''))
      = [Document ''#id-operator-typing text'' (JStr ''Ann is typing''), Document ''#id-operator-typing visibility'' (JStr ''visible'')]"
    by (simp_all add: visitor_text_def demo_window_def owned_by_other_def owner_of_def demo_typing_def to_key_def demo_operator_def
        shown_to_visitor_def loose_int_def loose_num_def operator_text_def is_user_def demo_page_def loose_str_def)
  show ?thesis
    using typing_reaches_other_side [OF inst ids ch n refl sub fs(1) sub fs(2), of 0 0] texts
    by (auto simp: demo_admin_sel)
qed

end
