(* ===== verification/Server_Config.thy ===== *)
theory Server_Config
  imports Factory
begin

text \<open>
  How the socket server is put together: the options of the master process from the command
  line, the environment and \<open>SOCKETCLUSTER_OPTIONS\<close> (\<open>serversc/lhc/server.js\<close>), what the
  broker attaches (\<open>broker.js\<close>) and what the container waits for (\<open>dockerwait.js\<close>). The
  command line as minimist returns it is an object, the environment a map; \<open>fmt\<close> prints
  objects as texts, \<open>json\<close> is \<open>JSON.parse\<close>, and \<open>found\<close> tells whether the library's
  \<open>waitForFile\<close> resolves.
\<close>

subsection \<open>Values\<close>

definition js_or :: "js \<Rightarrow> js \<Rightarrow> js" (* a || b *) where
  "js_or a b = (if truthy a then a else b)"

definition js_number :: "(js \<Rightarrow> string) \<Rightarrow> js \<Rightarrow> js" (* Number(v) *) where
  "js_number fmt v = JNum (case v of JUndef \<Rightarrow> NaN | JNull \<Rightarrow> Fin 0 | JBool b \<Rightarrow> Fin (if b then 1 else 0)
     | JNum n \<Rightarrow> n | JStr s \<Rightarrow> str_to_number s | _ \<Rightarrow> str_to_number (fmt v))"

definition text_key :: "(js \<Rightarrow> string) \<Rightarrow> js \<Rightarrow> string" where
  "text_key fmt v = (case v of JStr s \<Rightarrow> s | JUndef \<Rightarrow> ''undefined'' | JNull \<Rightarrow> ''null''
     | JBool b \<Rightarrow> (if b then ''true'' else ''false'') | JNum n \<Rightarrow> num_to_string (\<lambda>q. fmt (JNum (Fin q))) n | _ \<Rightarrow> fmt v)"

definition env_var :: "(string \<Rightarrow> string option) \<Rightarrow> string \<Rightarrow> js" where
  "env_var e k = (case e k of None \<Rightarrow> JUndef | Some s \<Rightarrow> JStr s)"

definition num_env :: "(js \<Rightarrow> string) \<Rightarrow> (string \<Rightarrow> string option) \<Rightarrow> string \<Rightarrow> js \<Rightarrow> js" where
  "num_env fmt e k dflt = js_or (js_number fmt (env_var e k)) dflt"

definition num :: "rat \<Rightarrow> js" where "num q = JNum (Fin q)"

subsection \<open>Options of the master process\<close>

definition controller_paths :: "js \<Rightarrow> (string \<Rightarrow> string option) \<Rightarrow> js \<times> js \<times> js" where
  "controller_paths argv e =
     (js_or (get argv ''wc'') (env_var e ''SOCKETCLUSTER_WORKER_CONTROLLER''),
      js_or (get argv ''bc'') (env_var e ''SOCKETCLUSTER_BROKER_CONTROLLER''),
      js_or (get argv ''wcc'') (env_var e ''SOCKETCLUSTER_WORKERCLUSTER_CONTROLLER''))"

text \<open>\<open>argv['auto-reboot'] != false\<close>.\<close>

definition not_false :: "(js \<Rightarrow> string) \<Rightarrow> js \<Rightarrow> bool" where
  "not_false fmt v = (case v of JUndef \<Rightarrow> True | JNull \<Rightarrow> True | _ \<Rightarrow> js_number fmt v \<noteq> num 0)"

definition broker_options :: "(string \<Rightarrow> string option) \<Rightarrow> js" where
  "broker_options e = JObj
     [(''host'', js_or (env_var e ''REDIS_HOST'') (JStr ''127.0.0.1'')),
      (''port'', js_or (env_var e ''REDIS_PORT'') (JStr ''6379'')),
      (''auth_pass'', js_or (env_var e ''REDIS_PASS'') JNull)]"

definition server_defaults :: "(js \<Rightarrow> string) \<Rightarrow> string \<Rightarrow> js \<Rightarrow> (string \<Rightarrow> string option) \<Rightarrow> (string \<times> js) list" where
  "server_defaults fmt dirname argv e =
     (let (wc, bc, wcc) = controller_paths argv e in
     [(''workers'', js_or (js_number fmt (get argv ''w'')) (num_env fmt e ''SOCKETCLUSTER_WORKERS'' (num 1))),
      (''brokers'', js_or (js_number fmt (get argv ''b'')) (num_env fmt e ''SOCKETCLUSTER_BROKERS'' (num 1))),
      (''port'', js_or (js_number fmt (get argv ''p'')) (num_env fmt e ''SOCKETCLUSTER_PORT'' (num 8000))),
      (''wsEngine'', js_or (env_var e ''SOCKETCLUSTER_WS_ENGINE'') (JStr ''ws'')),
      (''appName'', js_or (get argv ''n'') (js_or (env_var e ''SOCKETCLUSTER_APP_NAME'') JNull)),
      (''workerController'', js_or wc (JStr (dirname @ ''/worker.js''))),
      (''brokerController'', js_or bc (JStr (dirname @ ''/broker.js''))),
      (''workerClusterController'', js_or wcc JNull),
      (''socketChannelLimit'', num_env fmt e ''SOCKETCLUSTER_SOCKET_CHANNEL_LIMIT'' (num 1000)),
      (''clusterStateServerHost'', js_or (get argv ''cssh'') (js_or (env_var e ''SCC_STATE_SERVER_HOST'') JNull)),
      (''clusterStateServerPort'', js_or (env_var e ''SCC_STATE_SERVER_PORT'') JNull),
      (''clusterMappingEngine'', js_or (env_var e ''SCC_MAPPING_ENGINE'') JNull),
      (''clusterClientPoolSize'', js_or (env_var e ''SCC_CLIENT_POOL_SIZE'') JNull),
      (''clusterAuthKey'', js_or (env_var e ''SCC_AUTH_KEY'') JNull),
      (''clusterInstanceIp'', js_or (env_var e ''SCC_INSTANCE_IP'') JNull),
      (''clusterInstanceIpFamily'', js_or (env_var e ''SCC_INSTANCE_IP_FAMILY'') JNull),
      (''clusterStateServerConnectTimeout'', num_env fmt e ''SCC_STATE_SERVER_CONNECT_TIMEOUT'' JNull),
      (''clusterStateServerAckTimeout'', num_env fmt e ''SCC_STATE_SERVER_ACK_TIMEOUT'' JNull),
      (''clusterStateServerReconnectRandomness'', num_env fmt e ''SCC_STATE_SERVER_RECONNECT_RANDOMNESS'' JNull),
      (''crashWorkerOnError'', JBool (not_false fmt (get argv ''auto-reboot''))),
      (''killMasterOnSignal'', JBool False),
      (''logLevel'', num 1),
      (''environment'', js_or (env_var e ''ENV'') (JStr ''prod'')),
      (''brokerOptions'', broker_options e),
      (''secretHash'', JStr ''<use_your_secret_hash>''),
      (''trackVisitors'', JBool True)])"

text \<open>\<open>SOCKETCLUSTER_OPTIONS\<close> is read when it is not empty; what it has replaces the defaults.\<close>

definition server_overrides :: "(string \<Rightarrow> exn + js) \<Rightarrow> (string \<Rightarrow> string option) \<Rightarrow> exn + (string \<times> js) list" where
  "server_overrides json e =
     (case e ''SOCKETCLUSTER_OPTIONS'' of None \<Rightarrow> Inr []
      | Some s \<Rightarrow> if s = [] then Inr [] else (case json s of Inl x \<Rightarrow> Inl x | Inr v \<Rightarrow> own_entries v))"

definition server_options ::
  "(js \<Rightarrow> string) \<Rightarrow> (string \<Rightarrow> exn + js) \<Rightarrow> string \<Rightarrow> js \<Rightarrow> (string \<Rightarrow> string option) \<Rightarrow> exn + js" where
  "server_options fmt json dirname argv e =
     (case server_overrides json e of Inl x \<Rightarrow> Inl x
      | Inr kvs \<Rightarrow> Inr (merged (server_defaults fmt dirname argv e) kvs))"

subsection \<open>Booting\<close>

record waiting =
  wt_path :: js
  wt_interval :: js
  wt_timeout :: js
  wt_message :: string

definition locate_error :: "string \<Rightarrow> string \<Rightarrow> string" where
  "locate_error what path = ''Failed to locate '' @ what @ '' at path '' @ path @ '' before SOCKETCLUSTER_CONTROLLER_BOOT_TIMEOUT''"

definition startWhenFileIsReady :: "(js \<Rightarrow> string) \<Rightarrow> (string \<Rightarrow> string option) \<Rightarrow> js \<Rightarrow> waiting" where
  "startWhenFileIsReady fmt e path =
     \<lparr>wt_path = path, wt_interval = num_env fmt e ''SOCKETCLUSTER_BOOT_CHECK_INTERVAL'' (num 200),
      wt_timeout = num_env fmt e ''SOCKETCLUSTER_CONTROLLER_BOOT_TIMEOUT'' (num 10000),
      wt_message = locate_error ''a controller file'' (text_key fmt path)\<rparr>"

text \<open>The master starts with its options, exits with a message, or throws while it reads them.\<close>

datatype boot = Started js bool | Exited string | Crashed exn

definition first_missing :: "(waiting \<Rightarrow> bool) \<Rightarrow> waiting list \<Rightarrow> string option" where
  "first_missing found ws = (case filter (\<lambda>x. \<not> found x) ws of [] \<Rightarrow> None | x # _ \<Rightarrow> Some (wt_message x))"

definition server_boot ::
  "(js \<Rightarrow> string) \<Rightarrow> (string \<Rightarrow> exn + js) \<Rightarrow> (waiting \<Rightarrow> bool) \<Rightarrow> string \<Rightarrow> js \<Rightarrow> (string \<Rightarrow> string option) \<Rightarrow> boot" where
  "server_boot fmt json found dirname argv e =
     (case server_options fmt json dirname argv e of Inl x \<Rightarrow> Crashed x
      | Inr opts \<Rightarrow>
          (case controller_paths argv e of (wc, bc, wcc) \<Rightarrow>
            (case first_missing found (map (startWhenFileIsReady fmt e) [wc, bc, wcc]) of
               Some m \<Rightarrow> Exited m
             | None \<Rightarrow> Started opts (get opts ''environment'' = JStr ''dev''))))"

text \<open>The container's wait for the master controller.\<close>

definition dockerwait :: "(js \<Rightarrow> string) \<Rightarrow> (waiting \<Rightarrow> bool) \<Rightarrow> (string \<Rightarrow> string option) \<Rightarrow> boot" where
  "dockerwait fmt found e =
     (let path = js_or (env_var e ''SOCKETCLUSTER_MASTER_CONTROLLER'') (JStr ''./server.js'');
          x = (startWhenFileIsReady fmt e path)\<lparr>wt_message := locate_error ''the master controller file'' (text_key fmt path)\<rparr>
      in if found x then Started JUndef False else Exited (''> Boot error: '' @ wt_message x))"

subsection \<open>The broker\<close>

datatype attached = AttachRedis | AttachCluster js

definition broker_run :: "js \<Rightarrow> attached list" where
  "broker_run opts = AttachRedis #
     (if truthy (get opts ''clusterStateServerHost'') then [AttachCluster (JObj
        [(''stateServerHost'', get opts ''clusterStateServerHost''),
         (''stateServerPort'', get opts ''clusterStateServerPort''),
         (''mappingEngine'', get opts ''clusterMappingEngine''),
         (''clientPoolSize'', get opts ''clusterClientPoolSize''),
         (''authKey'', get opts ''clusterAuthKey''),
         (''stateServerConnectTimeout'', get opts ''clusterStateServerConnectTimeout''),
         (''stateServerAckTimeout'', get opts ''clusterStateServerAckTimeout''),
         (''stateServerReconnectRandomness'', get opts ''clusterStateServerReconnectRandomness'')])] else [])"

subsection \<open>What the options are\<close>

lemma map_of_fold_al_set: "map_of (fold (\<lambda>(k, v). al_set k v) kvs ds) = map_of ds ++ map_of (rev kvs)"
proof (induction kvs arbitrary: ds)
  case (Cons kv kvs)
  show ?case using Cons by (cases kv) (simp add: map_add_def fun_eq_iff split: option.splits)
qed simp

lemma get_merged: "get (merged ds kvs) k = (case map_of (rev kvs) k of Some v \<Rightarrow> v | None \<Rightarrow> get (JObj ds) k)"
  by (simp add: merged_def map_of_fold_al_set map_add_def split: option.splits)

lemma truthy_js_or: "truthy b \<Longrightarrow> truthy (js_or a b)"
  by (simp add: js_or_def)

lemma number_or_number: "(\<exists>n. a = JNum n) \<Longrightarrow> (\<exists>n. b = JNum n) \<Longrightarrow> \<exists>n. js_or a b = JNum n"
  by (auto simp: js_or_def)

definition counts :: "string set" where
  "counts = {''workers'', ''brokers'', ''port'', ''socketChannelLimit''}"

lemma default_values:
  "get (JObj (server_defaults fmt dirname argv e)) ''workers'' = js_or (js_number fmt (get argv ''w'')) (num_env fmt e ''SOCKETCLUSTER_WORKERS'' (num 1))"
  "get (JObj (server_defaults fmt dirname argv e)) ''brokers'' = js_or (js_number fmt (get argv ''b'')) (num_env fmt e ''SOCKETCLUSTER_BROKERS'' (num 1))"
  "get (JObj (server_defaults fmt dirname argv e)) ''port'' = js_or (js_number fmt (get argv ''p'')) (num_env fmt e ''SOCKETCLUSTER_PORT'' (num 8000))"
  "get (JObj (server_defaults fmt dirname argv e)) ''socketChannelLimit'' = num_env fmt e ''SOCKETCLUSTER_SOCKET_CHANNEL_LIMIT'' (num 1000)"
  "get (JObj (server_defaults fmt dirname argv e)) ''clusterStateServerHost'' = js_or (get argv ''cssh'') (js_or (env_var e ''SCC_STATE_SERVER_HOST'') JNull)"
  by (simp_all add: server_defaults_def controller_paths_def)

lemma default_counts:
  assumes "k \<in> counts"
  shows "\<exists>n. get (JObj (server_defaults fmt dirname argv e)) k = JNum n \<and> n \<noteq> NaN \<and> n \<noteq> Fin 0"
proof -
  have num: "\<exists>n. js_number fmt v = JNum n" for v by (simp add: js_number_def)
  have env: "\<exists>n. num_env fmt e x (num q) = JNum n" "q \<noteq> 0 \<Longrightarrow> truthy (num_env fmt e x (num q))" for x q
    using number_or_number [OF num] truthy_js_or by (auto simp: num_env_def num_def)
  have "\<exists>n. v = JNum n \<and> n \<noteq> NaN \<and> n \<noteq> Fin 0" if t: "\<exists>n. v = JNum n" "truthy v" for v
    using t by (cases v) (auto elim!: truthy_num.elims)
  note usable = this
  have or_usable: "\<exists>n. js_or (js_number fmt v) (num_env fmt e x (num q)) = JNum n \<and> n \<noteq> NaN \<and> n \<noteq> Fin 0" if "q \<noteq> 0" for v x q
    by (rule usable) (rule number_or_number [OF num env(1)], rule truthy_js_or, rule env(2), rule that)
  have env_usable: "\<exists>n. num_env fmt e x (num q) = JNum n \<and> n \<noteq> NaN \<and> n \<noteq> Fin 0" if "q \<noteq> 0" for x q
    by (rule usable) (use env that in auto)
  from assms have "k = ''workers'' \<or> k = ''brokers'' \<or> k = ''port'' \<or> k = ''socketChannelLimit''" by (simp add: counts_def)
  then show ?thesis
    by (elim disjE; simp only: default_values) (rule or_usable or_usable or_usable env_usable, simp)+
qed

text \<open>
  C35: The master's options are decided key by key: what \<open>SOCKETCLUSTER_OPTIONS\<close> has wins, and
  otherwise the command line, the environment and the defaults decide; so decided, the numbers of
  workers, of brokers, of the port and of channels per socket are numbers other than zero, whatever
  is in the command line and the environment.
\<close>

theorem options_decided:
  assumes "server_options fmt json dirname argv e = Inr opts" and "server_overrides json e = Inr kvs"
  shows "get opts k = (case map_of (rev kvs) k of Some v \<Rightarrow> v | None \<Rightarrow> get (JObj (server_defaults fmt dirname argv e)) k)
    \<and> (k \<in> counts \<and> map_of (rev kvs) k = None \<longrightarrow> (\<exists>n. get opts k = JNum n \<and> n \<noteq> NaN \<and> n \<noteq> Fin 0))"
proof -
  have "opts = merged (server_defaults fmt dirname argv e) kvs" using assms by (simp add: server_options_def)
  then show ?thesis using default_counts by (simp only: get_merged) simp
qed

definition no_overrides :: "string \<Rightarrow> exn + js" where
  "no_overrides s = Inl TypeError"

theorem options_decided_witness:
  "\<exists>opts n. server_options (\<lambda>_. '''') no_overrides ''/app'' (JObj [(''w'', JStr ''many'')]) (\<lambda>_. None) = Inr opts
     \<and> get opts ''workers'' = JNum n \<and> n \<noteq> NaN \<and> n \<noteq> Fin 0"
proof -
  have o: "server_overrides no_overrides (\<lambda>_. None) = Inr []" by (simp add: server_overrides_def)
  obtain opts where s: "server_options (\<lambda>_. '''') no_overrides ''/app'' (JObj [(''w'', JStr ''many'')]) (\<lambda>_. None) = Inr opts"
    by (simp add: server_options_def o)
  have "''workers'' \<in> counts" "map_of (rev []) ''workers'' = None" by (simp_all add: counts_def)
  then show ?thesis using options_decided [OF s o, of "''workers''"] s by blast
qed

lemma other_variable:
  "k \<noteq> x \<Longrightarrow> env_var (e(x := y)) k = env_var e k" "k \<noteq> x \<Longrightarrow> num_env fmt (e(x := y)) k d = num_env fmt e k d"
  by (simp_all add: env_var_def num_env_def)

lemma defaults_other: "server_defaults fmt dirname argv (e(''SC_CLUSTER_STATE_SERVER_HOST'' := x)) = server_defaults fmt dirname argv e"
  by (simp add: server_defaults_def controller_paths_def broker_options_def other_variable)

text \<open>
  The broker joins a cluster exactly when the options name a state server, on the command
  line, in \<open>SCC_STATE_SERVER_HOST\<close> or in \<open>SOCKETCLUSTER_OPTIONS\<close>. The variable that \<open>broker.js\<close> says
  this is taken from, \<open>SC_CLUSTER_STATE_SERVER_HOST\<close>, has no effect on the options.
\<close>

theorem cluster_joined_when_named:
  assumes "server_options fmt json dirname argv e = Inr opts" and "server_overrides json e = Inr kvs"
  shows "((\<exists>c. AttachCluster c \<in> set (broker_run opts)) \<longleftrightarrow>
      (case map_of (rev kvs) ''clusterStateServerHost'' of Some v \<Rightarrow> truthy v
       | None \<Rightarrow> truthy (get argv ''cssh'') \<or> (\<exists>s. e ''SCC_STATE_SERVER_HOST'' = Some s \<and> s \<noteq> [])))
    \<and> server_options fmt json dirname argv (e(''SC_CLUSTER_STATE_SERVER_HOST'' := x)) = server_options fmt json dirname argv e"
proof
  have opts: "opts = merged (server_defaults fmt dirname argv e) kvs" using assms by (simp add: server_options_def)
  have "(\<exists>c. AttachCluster c \<in> set (broker_run opts)) \<longleftrightarrow> truthy (get opts ''clusterStateServerHost'')"
    by (simp add: broker_run_def)
  also have "\<dots> \<longleftrightarrow> (case map_of (rev kvs) ''clusterStateServerHost'' of Some v \<Rightarrow> truthy v
       | None \<Rightarrow> truthy (get argv ''cssh'') \<or> (\<exists>s. e ''SCC_STATE_SERVER_HOST'' = Some s \<and> s \<noteq> []))"
    unfolding opts get_merged default_values(5) by (auto simp: js_or_def env_var_def split: option.splits)
  finally show "(\<exists>c. AttachCluster c \<in> set (broker_run opts)) \<longleftrightarrow>
      (case map_of (rev kvs) ''clusterStateServerHost'' of Some v \<Rightarrow> truthy v
       | None \<Rightarrow> truthy (get argv ''cssh'') \<or> (\<exists>s. e ''SCC_STATE_SERVER_HOST'' = Some s \<and> s \<noteq> []))" .
  show "server_options fmt json dirname argv (e(''SC_CLUSTER_STATE_SERVER_HOST'' := x)) = server_options fmt json dirname argv e"
    unfolding server_options_def server_overrides_def defaults_other by simp
qed

definition demo_cluster :: "string \<Rightarrow> string option" where
  "demo_cluster = (\<lambda>_. None)(''SCC_STATE_SERVER_HOST'' := Some ''scc'')"

theorem cluster_joined_when_named_witness:
  "\<exists>opts c. server_options (\<lambda>_. '''') no_overrides ''/app'' (JObj []) demo_cluster = Inr opts \<and> AttachCluster c \<in> set (broker_run opts)"
proof -
  have o: "server_overrides no_overrides demo_cluster = Inr []" by (simp add: server_overrides_def demo_cluster_def)
  obtain opts where s: "server_options (\<lambda>_. '''') no_overrides ''/app'' (JObj []) demo_cluster = Inr opts"
    by (simp add: server_options_def o)
  have "demo_cluster ''SCC_STATE_SERVER_HOST'' = Some ''scc''" by (simp add: demo_cluster_def)
  then show ?thesis using cluster_joined_when_named [OF s o] s by auto
qed

end
