(* ===== verification/Decycle.thy ===== *)
theory Decycle
  imports Prelude
begin

text \<open>
  \<open>decycle\<close> (module 20 of \<open>socketcluster.js\<close>), which the errors use: it copies an object
  graph into a tree, with a reference \<open>{$ref: path}\<close> at every further occurrence of an object.
  The graph is a heap of arrays and objects (own properties in their order); what is not copied,
  primitives and dates, regular expressions and boxed values, stands for itself. \<open>quote\<close> is
  \<open>JSON.stringify\<close> on property names. The recursion has fuel for its depth.
\<close>

subsection \<open>Graphs\<close>

datatype hval = HPrim js | HRef nat

datatype cell = HArr "hval list" | HObj "(string \<times> hval) list"

definition in_heap :: "nat \<Rightarrow> hval \<Rightarrow> bool" where
  "in_heap n v = (case v of HPrim _ \<Rightarrow> True | HRef a \<Rightarrow> a < n)"

definition children :: "cell \<Rightarrow> hval list" where
  "children c = (case c of HArr vs \<Rightarrow> vs | HObj kvs \<Rightarrow> map snd kvs)"

definition closed :: "cell list \<Rightarrow> bool" where
  "closed H \<longleftrightarrow> list_all (\<lambda>c. list_all (in_heap (length H)) (children c)) H"

subsection \<open>The copy\<close>

text \<open>Copying the elements of a list in order, with the list of seen objects passed on.\<close>

fun thread :: "('x \<Rightarrow> 's \<Rightarrow> ('y \<times> 's) option) \<Rightarrow> 'x list \<Rightarrow> 's \<Rightarrow> ('y list \<times> 's) option" where
  "thread g [] s = Some ([], s)"
| "thread g (x # xs) s = (case g x s of None \<Rightarrow> None
     | Some (y, s') \<Rightarrow> (case thread g xs s' of None \<Rightarrow> None | Some (ys, s'') \<Rightarrow> Some (y # ys, s'')))"

definition item_path :: "string \<Rightarrow> nat \<Rightarrow> string" where
  "item_path path i = path @ ''['' @ show_nat i @ '']''"

definition prop_path :: "(string \<Rightarrow> string) \<Rightarrow> string \<Rightarrow> string \<Rightarrow> string" where
  "prop_path quote path k = path @ ''['' @ quote k @ '']''"

definition paths :: "(string \<Rightarrow> string) \<Rightarrow> string \<Rightarrow> cell \<Rightarrow> string list" where
  "paths quote path c = (case c of HArr vs \<Rightarrow> map (item_path path) [0..<length vs] | HObj kvs \<Rightarrow> map (prop_path quote path \<circ> fst) kvs)"

definition rebuild :: "cell \<Rightarrow> js list \<Rightarrow> js" where
  "rebuild c js = (case c of HArr _ \<Rightarrow> JArr js | HObj kvs \<Rightarrow> JObj (zip (map fst kvs) js))"

primrec derez :: "(string \<Rightarrow> string) \<Rightarrow> cell list \<Rightarrow> nat \<Rightarrow> hval \<Rightarrow> string \<Rightarrow> (nat \<times> string) list \<Rightarrow> (js \<times> (nat \<times> string) list) option" where
  "derez quote H 0 v path seen = (case v of HPrim x \<Rightarrow> Some (x, seen) | HRef _ \<Rightarrow> None)"
| "derez quote H (Suc n) v path seen =
     (case v of HPrim x \<Rightarrow> Some (x, seen)
      | HRef a \<Rightarrow> (case map_of seen a of Some p \<Rightarrow> Some (JObj [(''$ref'', JStr p)], seen)
          | None \<Rightarrow> if length H \<le> a then None
             else (case thread (\<lambda>(v, p). derez quote H n v p) (zip (children (H ! a)) (paths quote path (H ! a))) (seen @ [(a, path)]) of
                 None \<Rightarrow> None | Some (js, seen') \<Rightarrow> Some (rebuild (H ! a) js, seen'))))"

definition decycle :: "(string \<Rightarrow> string) \<Rightarrow> cell list \<Rightarrow> hval \<Rightarrow> js option" where
  "decycle quote H v = map_option fst (derez quote H (Suc (length H)) v ''$'' [])"

subsection \<open>Enough fuel\<close>

lemma thread_mono:
  assumes "\<And>x s r. x \<in> set xs \<Longrightarrow> g x s = Some r \<Longrightarrow> h x s = Some r" and "thread g xs s = Some r"
  shows "thread h xs s = Some r"
  using assms by (induction xs arbitrary: s r) (auto split: option.splits)

lemma derez_mono: "derez q H n v p s = Some r \<Longrightarrow> n \<le> m \<Longrightarrow> derez q H m v p s = Some r"
proof (induction n arbitrary: m v p s r)
  case 0
  then show ?case by (cases m; cases v) simp_all
next
  case (Suc n)
  then obtain k where m: "m = Suc k" "n \<le> k" by (cases m) auto
  have up: "thread (\<lambda>(v, p). derez q H k v p) xs s' = Some r'" if "thread (\<lambda>(v, p). derez q H n v p) xs s' = Some r'" for xs s' r'
    by (rule thread_mono [OF _ that]) (auto intro: Suc.IH [OF _ m(2)])
  show ?case
  proof (cases v)
    case (HRef a)
    show ?thesis
    proof (cases "map_of s a")
      case None
      then obtain js s' where t: "\<not> length H \<le> a" "r = (rebuild (H ! a) js, s')"
        "thread (\<lambda>(v, p). derez q H n v p) (zip (children (H ! a)) (paths q p (H ! a))) (s @ [(a, p)]) = Some (js, s')"
        using Suc.prems(1) HRef by (auto split: if_splits option.splits)
      show ?thesis using None t(1,2) up [OF t(3)] by (simp add: m HRef)
    qed (use Suc.prems(1) in \<open>simp add: HRef m\<close>)
  qed (use Suc.prems(1) m in simp)
qed

lemma length_paths: "length (paths q path c) = length (children c)"
  by (cases c) (simp_all add: paths_def children_def)

definition seen_ok :: "nat \<Rightarrow> (nat \<times> string) list \<Rightarrow> bool" where
  "seen_ok n seen \<longleftrightarrow> distinct (map fst seen) \<and> fst ` set seen \<subseteq> {..<n}"

lemma seen_ok_room: "seen_ok n seen \<Longrightarrow> a < n \<Longrightarrow> a \<notin> fst ` set seen \<Longrightarrow> length seen < n"
proof -
  assume s: "seen_ok n seen" and a: "a < n" "a \<notin> fst ` set seen"
  then have "insert a (fst ` set seen) \<subseteq> {..<n}" by (auto simp: seen_ok_def)
  then have "card (insert a (fst ` set seen)) \<le> n" using card_mono [of "{..<n}"] by simp
  moreover have "card (fst ` set seen) = length seen"
    using s distinct_card [of "map fst seen"] by (simp add: seen_ok_def)
  ultimately show ?thesis using a by simp
qed

lemma thread_total:
  assumes "\<And>x s. x \<in> set xs \<Longrightarrow> seen_ok n s \<Longrightarrow> l \<le> length s \<Longrightarrow> \<exists>y s'. g x s = Some (y, s') \<and> seen_ok n s' \<and> length s \<le> length s'"
    and "seen_ok n s" and "l \<le> length s"
  shows "\<exists>ys s'. thread g xs s = Some (ys, s') \<and> seen_ok n s' \<and> length s \<le> length s'"
  using assms
proof (induction xs arbitrary: s)
  case (Cons x xs)
  obtain y s1 where 1: "g x s = Some (y, s1)" "seen_ok n s1" "length s \<le> length s1" using Cons.prems by (meson list.set_intros(1))
  obtain ys s2 where "thread g xs s1 = Some (ys, s2)" "seen_ok n s2" "length s1 \<le> length s2"
    using Cons.IH [OF _ 1(2)] Cons.prems 1(3) by (meson le_trans list.set_intros(2))
  then show ?case using 1 by auto
qed auto

lemma derez_total:
  assumes "closed H" and "in_heap (length H) v" and "seen_ok (length H) s" and "length H < n + length s"
  shows "\<exists>j s'. derez q H n v p s = Some (j, s') \<and> seen_ok (length H) s' \<and> length s \<le> length s'"
  using assms(2-)
proof (induction n arbitrary: v p s)
  case 0
  then show ?case
  proof (cases v)
    case (HRef a)
    have "card (fst ` set s) \<le> length H" using 0(2) card_mono [of "{..<length H}"] by (auto simp: seen_ok_def)
    moreover have "card (fst ` set s) = length s" using 0(2) distinct_card [of "map fst s"] by (simp add: seen_ok_def)
    ultimately show ?thesis using 0 by simp
  qed simp
next
  case (Suc n)
  show ?case
  proof (cases v)
    case (HRef a)
    show ?thesis
    proof (cases "map_of s a")
      case None
      then have new: "a \<notin> fst ` set s" by (simp add: map_of_eq_None_iff)
      have a: "a < length H" using Suc.prems(1) HRef by (simp add: in_heap_def)
      have ch: "in_heap (length H) w" if "w \<in> set (children (H ! a))" for w
        using assms(1) a that by (auto simp: closed_def list_all_iff)
      let ?s = "s @ [(a, p)]" and ?xs = "zip (children (H ! a)) (paths q p (H ! a))"
      have ok: "seen_ok (length H) ?s" using Suc.prems(2) new a by (auto simp: seen_ok_def)
      have "\<exists>ys s'. thread (\<lambda>(v, p). derez q H n v p) ?xs ?s = Some (ys, s') \<and> seen_ok (length H) s' \<and> length ?s \<le> length s'"
      proof (rule thread_total [where l = "length ?s", OF _ ok order_refl])
        fix x t assume x: "x \<in> set ?xs" and t: "seen_ok (length H) t" "length ?s \<le> length t"
        obtain w r where w: "x = (w, r)" by (cases x)
        then have "w \<in> set (children (H ! a))" using x set_zip_leftD by fastforce
        then show "\<exists>y s'. (\<lambda>(v, p). derez q H n v p) x t = Some (y, s') \<and> seen_ok (length H) s' \<and> length t \<le> length s'"
          using Suc.IH [OF ch t(1)] Suc.prems(3) t(2) w by simp
      qed
      then show ?thesis using None a by (auto simp: HRef)
    qed (use Suc.prems in \<open>simp add: HRef\<close>)
  qed (use Suc.prems in simp)
qed

subsection \<open>Trees\<close>

text \<open>
  The tree that a value denotes when objects are copied wherever they occur, with the objects
  in the order of their occurrence; it exists when there is no cycle.
\<close>

primrec tree :: "cell list \<Rightarrow> nat \<Rightarrow> hval \<Rightarrow> nat list \<Rightarrow> (js \<times> nat list) option" where
  "tree H 0 v as = (case v of HPrim x \<Rightarrow> Some (x, as) | HRef _ \<Rightarrow> None)"
| "tree H (Suc n) v as =
     (case v of HPrim x \<Rightarrow> Some (x, as)
      | HRef a \<Rightarrow> if length H \<le> a then None
          else (case thread (tree H n) (children (H ! a)) (as @ [a]) of
             None \<Rightarrow> None | Some (js, as') \<Rightarrow> Some (rebuild (H ! a) js, as')))"

definition extending :: "('x \<Rightarrow> 's list \<Rightarrow> ('y \<times> 's list) option) \<Rightarrow> bool" where
  "extending g \<longleftrightarrow> (\<forall>x s y s'. g x s = Some (y, s') \<longrightarrow> (\<exists>e. s' = s @ e))"

lemma thread_extends: "extending g \<Longrightarrow> thread g xs s = Some (ys, s') \<Longrightarrow> \<exists>e. s' = s @ e"
proof (induction xs arbitrary: s ys)
  case (Cons x xs)
  then obtain y s1 zs where 1: "g x s = Some (y, s1)" "thread g xs s1 = Some (zs, s')" by (auto split: option.splits)
  obtain e where "s1 = s @ e" using Cons.prems(1) 1(1) unfolding extending_def by blast
  then show ?case using Cons.IH [OF Cons.prems(1) 1(2)] by auto
qed simp

lemma tree_extends: "extending (tree H n)"
proof (induction n)
  case 0
  show ?case by (simp add: extending_def split: hval.split)
next
  case (Suc n)
  show ?case
    unfolding extending_def
  proof (intro allI impI)
    fix v as j as' assume t: "tree H (Suc n) v as = Some (j, as')"
    show "\<exists>e. as' = as @ e"
    proof (cases v)
      case (HRef a)
      then obtain js where js: "thread (tree H n) (children (H ! a)) (as @ [a]) = Some (js, as')"
        using t by (auto split: if_splits option.splits)
      from thread_extends [OF Suc js] show ?thesis by auto
    qed (use t in auto)
  qed
qed

lemma thread_simulates:
  assumes "\<And>x y s a j a'. (x, y) \<in> set (zip xs ys) \<Longrightarrow> g x a = Some (j, a') \<Longrightarrow> distinct a' \<Longrightarrow> map fst s = a \<Longrightarrow>
      \<exists>s'. h (x, y) s = Some (j, s') \<and> map fst s' = a'"
    and ext: "extending g"
    and "thread g xs a = Some (js, a')" and "distinct a'" and "map fst s = a" and "length ys = length xs"
  shows "\<exists>s'. thread h (zip xs ys) s = Some (js, s') \<and> map fst s' = a'"
  using assms(1,3-)
proof (induction xs arbitrary: ys s a js)
  case (Cons x xs)
  then obtain j a1 js' where 1: "g x a = Some (j, a1)" "thread g xs a1 = Some (js', a')" "js = j # js'"
    by (auto split: option.splits)
  obtain y ys' where ys: "ys = y # ys'" using Cons.prems(5) by (cases ys) auto
  obtain e where "a' = a1 @ e" using thread_extends [OF ext 1(2)] by blast
  then have "distinct a1" using Cons.prems(3) by simp
  then obtain s1 where 2: "h (x, y) s = Some (j, s1)" "map fst s1 = a1"
    using Cons.prems(1) [of x y a j a1 s] 1(1) Cons.prems(4) ys by auto
  have len: "length ys' = length xs" using Cons.prems(5) ys by simp
  have step: "\<exists>s'. h (x, y) s = Some (j, s') \<and> map fst s' = a'" if "(x, y) \<in> set (zip xs ys')" "g x a = Some (j, a')" "distinct a'" "map fst s = a" for x y s a j a'
    using Cons.prems(1) [of x y a j a' s] that ys by simp
  have "\<exists>s'. thread h (zip xs ys') s1 = Some (js', s') \<and> map fst s' = a'"
    by (rule Cons.IH [OF _ 1(2) Cons.prems(3) 2(2) len]) (rule step)
  then obtain s' where "thread h (zip xs ys') s1 = Some (js', s')" "map fst s' = a'" by blast
  then show ?case using 2 1(3) ys by simp
qed auto

lemma derez_tree:
  "tree H n v as = Some (j, as') \<Longrightarrow> distinct as' \<Longrightarrow> map fst s = as \<Longrightarrow> \<exists>s'. derez q H n v p s = Some (j, s') \<and> map fst s' = as'"
proof (induction n arbitrary: v p s as j as')
  case 0
  then show ?case by (cases v) auto
next
  case (Suc n)
  show ?case
  proof (cases v)
    case (HRef a)
    then obtain js where t: "a < length H" "thread (tree H n) (children (H ! a)) (as @ [a]) = Some (js, as')" "j = rebuild (H ! a) js"
      using Suc.prems(1) by (auto split: if_splits option.splits)
    obtain e where "as' = (as @ [a]) @ e" using thread_extends [OF tree_extends t(2)] by blast
    then have "a \<notin> set as" using Suc.prems(2) by auto
    then have none: "map_of s a = None" using Suc.prems(3) by (metis map_of_eq_None_iff set_map)
    have map: "map fst (s @ [(a, p)]) = as @ [a]" using Suc.prems(3) by simp
    have "\<exists>s'. thread (\<lambda>(v, p). derez q H n v p) (zip (children (H ! a)) (paths q p (H ! a))) (s @ [(a, p)]) = Some (js, s')
        \<and> map fst s' = as'"
      by (rule thread_simulates [where g = "tree H n", OF _ tree_extends t(2) Suc.prems(2) map length_paths])
        (simp add: Suc.IH)
    then obtain s' where "thread (\<lambda>(v, p). derez q H n v p) (zip (children (H ! a)) (paths q p (H ! a))) (s @ [(a, p)]) = Some (js, s')"
      "map fst s' = as'" by blast
    then show ?thesis using none t by (simp add: HRef)
  qed (use Suc.prems in auto)
qed

subsection \<open>Places\<close>

text \<open>A place in a value, its text, and what is there.\<close>

datatype step = Item nat | Prop string

fun walk :: "js \<Rightarrow> step list \<Rightarrow> js option" where
  "walk j [] = Some j"
| "walk (JArr xs) (Item i # ss) = (if i < length xs then walk (xs ! i) ss else None)"
| "walk (JObj kvs) (Prop k # ss) = (case map_of kvs k of None \<Rightarrow> None | Some x \<Rightarrow> walk x ss)"
| "walk _ _ = None"

fun place :: "(string \<Rightarrow> string) \<Rightarrow> string \<Rightarrow> step list \<Rightarrow> string" where
  "place q p [] = p"
| "place q p (Item i # ss) = place q (item_path p i) ss"
| "place q p (Prop k # ss) = place q (prop_path q p k) ss"

definition keys_ok :: "cell list \<Rightarrow> bool" where
  "keys_ok H \<longleftrightarrow> list_all (\<lambda>c. case c of HArr _ \<Rightarrow> True | HObj kvs \<Rightarrow> distinct (map fst kvs)) H"

definition nth_step :: "cell \<Rightarrow> nat \<Rightarrow> step" where
  "nth_step c i = (case c of HArr _ \<Rightarrow> Item i | HObj kvs \<Rightarrow> Prop (fst (kvs ! i)))"

lemma walk_rebuild:
  assumes "length js = length (children c)" and "i < length js" and "keys_ok [c]"
  shows "walk (rebuild c js) (nth_step c i # ss) = walk (js ! i) ss"
proof (cases c)
  case (HObj kvs)
  have "map_of (zip (map fst kvs) js) (map fst kvs ! i) = Some (js ! i)"
    using assms by (intro map_of_zip_nth) (simp_all add: HObj children_def keys_ok_def)
  then show ?thesis using assms by (simp add: HObj rebuild_def nth_step_def children_def)
qed (use assms in \<open>simp add: rebuild_def nth_step_def\<close>)

lemma place_nth: "i < length (children c) \<Longrightarrow> place q p (nth_step c i # ss) = place q (paths q p c ! i) ss"
  by (cases c) (simp_all add: children_def paths_def nth_step_def)

lemma thread_length: "thread g xs s = Some (ys, s') \<Longrightarrow> length ys = length xs"
  by (induction xs arbitrary: s ys) (auto split: option.splits)

lemma thread_chain:
  assumes "extending g" and "thread g xs s = Some (ys, s')"
  shows "\<exists>es. length es = length xs \<and> s' = s @ concat es
    \<and> (\<forall>i<length xs. g (xs ! i) (s @ concat (take i es)) = Some (ys ! i, s @ concat (take (Suc i) es)))"
  using assms(2)
proof (induction xs arbitrary: s ys)
  case (Cons x xs)
  then obtain y s1 zs where 1: "g x s = Some (y, s1)" "thread g xs s1 = Some (zs, s')" "ys = y # zs" by (auto split: option.splits)
  obtain e where e: "s1 = s @ e" using assms(1) 1(1) unfolding extending_def by blast
  from Cons.IH [OF 1(2)] obtain es where es: "length es = length xs" "s' = s1 @ concat es"
    "\<forall>i<length xs. g (xs ! i) (s1 @ concat (take i es)) = Some (zs ! i, s1 @ concat (take (Suc i) es))" by blast
  have "g ((x # xs) ! i) (s @ concat (take i (e # es))) = Some (ys ! i, s @ concat (take (Suc i) (e # es)))" if "i < length (x # xs)" for i
    using that 1 e es(3) by (cases i) auto
  then show ?case using e es by (intro exI [of _ "e # es"]) simp
qed simp

lemma thread_image:
  assumes "\<And>x s. x \<in> set xs \<Longrightarrow> h (f x) (t s) = map_option (map_prod id t) (g x s)"
  shows "thread h (map f xs) (t s) = map_option (map_prod id t) (thread g xs s)"
  using assms
proof (induction xs arbitrary: s)
  case (Cons x xs)
  then show ?case by (cases "g x s") (auto simp: option.map_comp comp_def split: option.split)
qed simp

text \<open>What a graph has at a place, following references.\<close>

fun graph_at :: "cell list \<Rightarrow> hval \<Rightarrow> step list \<Rightarrow> hval option" where
  "graph_at H v [] = Some v"
| "graph_at H (HPrim x) (s # ss) = None"
| "graph_at H (HRef a) (s # ss) =
     (if a < length H
      then (case (H ! a, s) of
          (HArr vs, Item i) \<Rightarrow> if i < length vs then graph_at H (vs ! i) ss else None
        | (HObj kvs, Prop k) \<Rightarrow> (case map_of kvs k of None \<Rightarrow> None | Some w \<Rightarrow> graph_at H w ss)
        | _ \<Rightarrow> None)
      else None)"

lemma graph_at_nth:
  assumes "a < length H" and "keys_ok [H ! a]" and "i < length (children (H ! a))"
  shows "graph_at H (HRef a) (nth_step (H ! a) i # ss) = graph_at H (children (H ! a) ! i) ss"
proof (cases "H ! a")
  case (HObj kvs)
  have "map_of kvs (fst (kvs ! i)) = Some (snd (kvs ! i))"
    using assms by (intro map_of_is_SomeI) (simp_all add: HObj children_def keys_ok_def)
  then show ?thesis using assms by (simp add: HObj nth_step_def children_def)
qed (use assms in \<open>simp add: nth_step_def children_def\<close>)

text \<open>
  A value of the graph and the value that stands for it at a place. Every object has a home:
  there it is copied, with all its members in their order; at any other place stands a
  reference to its home.
\<close>

inductive mirrors :: "(string \<Rightarrow> string) \<Rightarrow> cell list \<Rightarrow> (nat \<Rightarrow> step list option) \<Rightarrow> step list \<Rightarrow> hval \<Rightarrow> js \<Rightarrow> bool"
  for quote H home where
  primitive: "mirrors quote H home P (HPrim x) x"
| reference: "home a = Some Q \<Longrightarrow> Q \<noteq> P \<Longrightarrow> mirrors quote H home P (HRef a) (JObj [(''$ref'', JStr (place quote ''$'' Q))])"
| copied: "home a = Some P \<Longrightarrow> a < length H \<Longrightarrow> length js = length (children (H ! a))
    \<Longrightarrow> \<forall>i<length js. mirrors quote H home (P @ [nth_step (H ! a) i]) (children (H ! a) ! i) (js ! i)
    \<Longrightarrow> mirrors quote H home P (HRef a) (rebuild (H ! a) js)"

text \<open>The copy with places in place of their texts.\<close>

definition steps_of :: "cell \<Rightarrow> step list" where
  "steps_of c = map (nth_step c) [0..<length (children c)]"

definition members :: "cell \<Rightarrow> step list \<Rightarrow> (hval \<times> step list) list" where
  "members c P = zip (children c) (map (\<lambda>st. P @ [st]) (steps_of c))"

primrec homes :: "(string \<Rightarrow> string) \<Rightarrow> cell list \<Rightarrow> nat \<Rightarrow> hval \<Rightarrow> step list \<Rightarrow> (nat \<times> step list) list \<Rightarrow> (js \<times> (nat \<times> step list) list) option" where
  "homes quote H 0 v P S = (case v of HPrim x \<Rightarrow> Some (x, S) | HRef _ \<Rightarrow> None)"
| "homes quote H (Suc n) v P S =
     (case v of HPrim x \<Rightarrow> Some (x, S)
      | HRef a \<Rightarrow> (case map_of S a of Some Q \<Rightarrow> Some (JObj [(''$ref'', JStr (place quote ''$'' Q))], S)
          | None \<Rightarrow> if length H \<le> a then None
             else (case thread (\<lambda>(v, P). homes quote H n v P) (members (H ! a) P) (S @ [(a, P)]) of
                 None \<Rightarrow> None | Some (js, S') \<Rightarrow> Some (rebuild (H ! a) js, S'))))"

definition texts :: "(string \<Rightarrow> string) \<Rightarrow> (nat \<times> step list) list \<Rightarrow> (nat \<times> string) list" where
  "texts q S = map (\<lambda>(a, P). (a, place q ''$'' P)) S"

lemma place_append: "place q p (P @ [st]) = place q (place q p P) [st]"
  by (induction q p P rule: place.induct) simp_all

lemma members_texts:
  "zip (children c) (paths q (place q ''$'' P) c) = map (\<lambda>(v, Q). (v, place q ''$'' Q)) (members c P)"
proof (rule nth_equalityI)
  show "length (zip (children c) (paths q (place q ''$'' P) c)) = length (map (\<lambda>(v, Q). (v, place q ''$'' Q)) (members c P))"
    by (simp add: members_def steps_of_def length_paths)
  fix i assume "i < length (zip (children c) (paths q (place q ''$'' P) c))"
  then have i: "i < length (children c)" by simp
  have "paths q (place q ''$'' P) c ! i = place q ''$'' (P @ [nth_step c i])"
    unfolding place_append using place_nth [OF i, of q "place q ''$'' P" "[]"] by simp
  then show "zip (children c) (paths q (place q ''$'' P) c) ! i = map (\<lambda>(v, Q). (v, place q ''$'' Q)) (members c P) ! i"
    using i by (simp add: members_def steps_of_def length_paths)
qed

lemma map_of_texts: "map_of (texts q S) a = map_option (place q ''$'') (map_of S a)"
  by (induction S) (auto simp: texts_def)

lemma derez_homes: "derez q H n v (place q ''$'' P) (texts q S) = map_option (map_prod id (texts q)) (homes q H n v P S)"
proof (induction n arbitrary: v P S)
  case 0
  show ?case by (simp split: hval.split)
next
  case (Suc n)
  have t: "thread (\<lambda>(v, p). derez q H n v p) (map (\<lambda>(v, Q). (v, place q ''$'' Q)) xs) (texts q S)
      = map_option (map_prod id (texts q)) (thread (\<lambda>(v, P). homes q H n v P) xs S)" for xs S
    by (rule thread_image) (auto simp: Suc.IH id_def)
  have s: "texts q S @ [(a, place q ''$'' P)] = texts q (S @ [(a, P)])" for a by (simp add: texts_def)
  show ?case
    by (cases v) (auto simp: map_of_texts members_texts s t option.map_comp comp_def split: option.split)
qed

lemma homes_extend: "extending (\<lambda>(v, P). homes q H n v P)"
proof (induction n)
  case 0
  show ?case by (auto simp: extending_def split: hval.splits)
next
  case (Suc n)
  have "\<exists>E. S' = S @ E" if h: "homes q H (Suc n) v P S = Some (j, S')" for v P S j S'
  proof (cases v)
    case (HRef a)
    show ?thesis
    proof (cases "map_of S a")
      case None
      then obtain js where "thread (\<lambda>(v, P). homes q H n v P) (members (H ! a) P) (S @ [(a, P)]) = Some (js, S')"
        using h HRef by (auto split: if_splits option.splits)
      from thread_extends [OF Suc this] show ?thesis by auto
    qed (use h HRef in auto)
  qed (use h in auto)
  then show ?case unfolding extending_def by auto
qed

lemma members_nth:
  "length (members c P) = length (children c)"
  "i < length (children c) \<Longrightarrow> members c P ! i = (children c ! i, P @ [nth_step c i])"
  by (simp_all add: members_def steps_of_def)

lemma nth_step_inject:
  "keys_ok [c] \<Longrightarrow> i < length (children c) \<Longrightarrow> k < length (children c) \<Longrightarrow> nth_step c i = nth_step c k \<longleftrightarrow> i = k"
  using nth_eq_iff_index_eq [of "map fst (case c of HArr _ \<Rightarrow> [] | HObj kvs \<Rightarrow> kvs)" i k]
  by (cases c) (auto simp: nth_step_def children_def keys_ok_def)

text \<open>What the copy makes of a value, for every assignment of homes that agrees with the seen objects.\<close>

definition at_home :: "(string \<Rightarrow> string) \<Rightarrow> cell list \<Rightarrow> (nat \<Rightarrow> step list option) \<Rightarrow> step list \<Rightarrow> hval \<Rightarrow> js \<Rightarrow> nat \<times> step list \<Rightarrow> bool" where
  "at_home q H home P v j z \<longleftrightarrow> (\<exists>R c. snd z = P @ R \<and> graph_at H v R = Some (HRef (fst z)) \<and> walk j R = Some c
     \<and> mirrors q H home (snd z) (HRef (fst z)) c)"

definition agrees :: "(nat \<Rightarrow> step list option) \<Rightarrow> (nat \<times> step list) list \<Rightarrow> bool" where
  "agrees home S \<longleftrightarrow> (\<forall>a P. map_of S a = Some P \<longrightarrow> home a = Some P)"

definition elsewhere :: "step list \<Rightarrow> (nat \<times> step list) list \<Rightarrow> bool" where
  "elsewhere P S \<longleftrightarrow> (\<forall>z\<in>set S. \<not> prefix P (snd z))"

lemma agrees_append: "agrees home (S @ E) \<Longrightarrow> agrees home S"
  by (auto simp: agrees_def map_add_def split: option.splits)

lemma at_home_under:
  assumes "a < length H" and "keys_ok [H ! a]" and "i < length (children (H ! a))" and "length js = length (children (H ! a))"
    and "at_home q H home (P @ [nth_step (H ! a) i]) (children (H ! a) ! i) (js ! i) z"
  shows "at_home q H home P (HRef a) (rebuild (H ! a) js) z"
proof -
  obtain R c where r: "snd z = (P @ [nth_step (H ! a) i]) @ R" "graph_at H (children (H ! a) ! i) R = Some (HRef (fst z))"
    "walk (js ! i) R = Some c" "mirrors q H home (snd z) (HRef (fst z)) c"
    using assms(5) unfolding at_home_def by blast
  then show ?thesis
    unfolding at_home_def using graph_at_nth [OF assms(1-3)] walk_rebuild [OF assms(4) _ assms(2), of i R] assms(3,4)
    by (intro exI [of _ "nth_step (H ! a) i # R"] exI [of _ c]) simp
qed

lemma homes_mirror:
  assumes "keys_ok H"
  shows "homes q H n v P S = Some (j, S @ E) \<Longrightarrow> agrees home (S @ E) \<Longrightarrow> elsewhere P S
    \<Longrightarrow> mirrors q H home P v j \<and> (\<forall>z\<in>set E. at_home q H home P v j z)"
proof (induction n arbitrary: v P S j E)
  case 0
  then show ?case by (auto intro: mirrors.primitive split: hval.splits)
next
  case (Suc n)
  show ?case
  proof (cases v)
    case (HRef a)
    show ?thesis
    proof (cases "map_of S a")
      case (Some Q)
      then have "home a = Some Q" using Suc.prems(2) agrees_append unfolding agrees_def by blast
      moreover have "Q \<noteq> P" using map_of_SomeD [OF Some] Suc.prems(3) by (auto simp: elsewhere_def)
      ultimately show ?thesis using Suc.prems(1) HRef Some by (auto intro: mirrors.reference)
    next
      case None
      let ?c = "H ! a" and ?g = "\<lambda>(v, P). homes q H n v P"
      obtain js where t: "a < length H" "j = rebuild ?c js" "thread ?g (members ?c P) (S @ [(a, P)]) = Some (js, S @ E)"
        using Suc.prems(1) None HRef by (auto split: if_splits option.splits)
      have len: "length js = length (children ?c)" using thread_length [OF t(3)] by (simp add: members_nth)
      have keys: "keys_ok [?c]" using assms t(1) by (simp add: keys_ok_def list_all_length)
      obtain es where es: "length es = length (children ?c)" "S @ E = (S @ [(a, P)]) @ concat es"
        "\<forall>i<length (children ?c). ?g (members ?c P ! i) ((S @ [(a, P)]) @ concat (take i es))
          = Some (js ! i, (S @ [(a, P)]) @ concat (take (Suc i) es))"
        using thread_chain [OF homes_extend t(3)] unfolding members_nth(1) by blast
      have "map_of ((S @ [(a, P)]) @ concat es) a = Some P" using None by (simp add: map_add_def)
      then have home: "home a = Some P" using Suc.prems(2) unfolding es(2) agrees_def by blast
      have parts: "mirrors q H home (P @ [nth_step ?c i]) (children ?c ! i) (js ! i)
          \<and> (\<forall>z\<in>set (es ! i). at_home q H home (P @ [nth_step ?c i]) (children ?c ! i) (js ! i) z)"
        if "i < length (children ?c)" for i
        using that
      proof (induction i rule: less_induct)
        case (less i)
        let ?S = "(S @ [(a, P)]) @ concat (take i es)"
        have run: "homes q H n (children ?c ! i) (P @ [nth_step ?c i]) ?S = Some (js ! i, ?S @ es ! i)"
          using es(1,3) less.prems by (simp add: members_nth take_Suc_conv_app_nth)
        have "concat es = concat (take i es) @ es ! i @ concat (drop (Suc i) es)"
          using id_take_nth_drop [of i es] es(1) less.prems by (metis concat.simps(2) concat_append)
        then have "agrees home (?S @ es ! i)" using Suc.prems(2) agrees_append unfolding es(2) by (metis append_assoc)
        moreover have "elsewhere (P @ [nth_step ?c i]) ?S"
        proof -
          have "\<not> prefix (P @ [nth_step ?c i]) (snd z)" if z: "z \<in> set (concat (take i es))" for z
          proof -
            obtain k where k: "k < i" "z \<in> set (es ! k)" using z es(1) less.prems by (auto simp: nth_image [symmetric])
            then obtain R where "snd z = (P @ [nth_step ?c k]) @ R"
              using less.IH [OF k(1)] less.prems unfolding at_home_def by (meson less_trans)
            then show ?thesis using nth_step_inject [OF keys, of i k] k(1) less.prems by (auto simp: prefix_def)
          qed
          moreover have "\<not> prefix (P @ [nth_step ?c i]) (snd z)" if "z \<in> set S" for z
            using that Suc.prems(3) unfolding elsewhere_def by (metis append_prefixD)
          ultimately show ?thesis by (auto simp: elsewhere_def)
        qed
        ultimately show ?case using Suc.IH [OF run] by blast
      qed
      then have m: "mirrors q H home P (HRef a) (rebuild ?c js)" using home t(1) len by (intro mirrors.copied) auto
      have E: "E = (a, P) # concat es" using es(2) by simp
      have "at_home q H home P (HRef a) (rebuild ?c js) z" if z: "z \<in> set E" for z
      proof (cases "z = (a, P)")
        case True
        then show ?thesis using m unfolding at_home_def by (intro exI [of _ "[]"] exI) simp
      next
        case False
        then obtain x where "x \<in> set es" "z \<in> set x" using z by (auto simp: E)
        then obtain i where "i < length (children ?c)" "z \<in> set (es ! i)" using es(1) by (metis in_set_conv_nth)
        then show ?thesis using parts at_home_under [OF t(1) keys _ len] by blast
      qed
      then show ?thesis using m t(2) HRef by simp
    qed
  qed (use Suc.prems in \<open>auto intro: mirrors.primitive\<close>)
qed

subsection \<open>What decycle gives\<close>

text \<open>
  C24: \<open>decycle\<close> ends on every object graph, cyclic or not. Every object that occurs is copied
  once, with all its members in their order, at the place that is its home; at every other
  place at which the object occurs stands \<open>{$ref: path}\<close> with the path of the home, and
  following this path, in the graph as in the copy, leads to the object. A graph in which no
  object occurs twice is copied as it is.
\<close>

theorem decycle_correct:
  assumes "closed H" and "keys_ok H" and "in_heap (length H) v"
  shows "(\<exists>j home. decycle q H v = Some j \<and> mirrors q H home [] v j
        \<and> (\<forall>a P. home a = Some P \<longrightarrow> graph_at H v P = Some (HRef a)
             \<and> (\<exists>c. walk j P = Some c \<and> mirrors q H home P (HRef a) c)))
    \<and> (\<forall>n j as. tree H n v [] = Some (j, as) \<and> distinct as \<longrightarrow> decycle q H v = Some j)"
proof (intro conjI allI impI)
  have "seen_ok (length H) []" by (simp add: seen_ok_def)
  from derez_total [OF assms(1,3) this, of "Suc (length H)" q "''$''"]
  obtain j seen where d: "derez q H (Suc (length H)) v ''$'' [] = Some (j, seen)" by auto
  then have dec: "decycle q H v = Some j" by (simp add: decycle_def)
  have "derez q H n v ''$'' [] = map_option (map_prod id (texts q)) (homes q H n v [] [])" for n
    using derez_homes [of q H n v "[]" "[]"] by (simp add: texts_def)
  then obtain S where S: "homes q H (Suc (length H)) v [] [] = Some (j, S)" using d by (auto simp del: homes.simps derez.simps)
  have "agrees (map_of S) ([] @ S)" "elsewhere [] []" by (simp_all add: agrees_def elsewhere_def)
  from homes_mirror [OF assms(2) _ this, of q "Suc (length H)" v j] S
  have m: "mirrors q H (map_of S) [] v j" "\<forall>z\<in>set S. at_home q H (map_of S) [] v j z" by auto
  have "graph_at H v P = Some (HRef a) \<and> (\<exists>c. walk j P = Some c \<and> mirrors q H (map_of S) P (HRef a) c)" if "map_of S a = Some P" for a P
    using m(2) map_of_SomeD [OF that] unfolding at_home_def by fastforce
  then show "\<exists>j home. decycle q H v = Some j \<and> mirrors q H home [] v j
      \<and> (\<forall>a P. home a = Some P \<longrightarrow> graph_at H v P = Some (HRef a)
           \<and> (\<exists>c. walk j P = Some c \<and> mirrors q H home P (HRef a) c))"
    using dec m(1) by blast
  fix n k as assume "tree H n v [] = Some (k, as) \<and> distinct as"
  then obtain s' where "derez q H n v ''$'' [] = Some (k, s')" using derez_tree [of H n v "[]" k as "[]" q "''$''"] by auto
  then have "derez q H (n + Suc (length H)) v ''$'' [] = Some (k, s')" by (rule derez_mono) simp
  moreover have "derez q H (n + Suc (length H)) v ''$'' [] = Some (j, seen)"
    using d by (rule derez_mono) simp
  ultimately show "decycle q H v = Some k" using dec by simp
qed

text \<open>The comment's example: an array that is its own element; and an object that occurs twice.\<close>

theorem decycle_correct_witness:
  "decycle id [HArr [HRef 0]] (HRef 0) = Some (JArr [JObj [(''$ref'', JStr ''$'')]])
   \<and> decycle id [HArr [HRef 1, HRef 1], HArr []] (HRef 0) = Some (JArr [JArr [], JObj [(''$ref'', JStr ''$[0]'')]])
   \<and> (\<exists>home. mirrors id [HArr [HRef 1, HRef 1], HArr []] home [] (HRef 0) (JArr [JArr [], JObj [(''$ref'', JStr ''$[0]'')]]))"
proof -
  let ?H = "[HArr [HRef 1, HRef 1], HArr []]"
  have eval: "decycle id [HArr [HRef 0]] (HRef 0) = Some (JArr [JObj [(''$ref'', JStr ''$'')]])"
    "decycle id ?H (HRef 0) = Some (JArr [JArr [], JObj [(''$ref'', JStr ''$[0]'')]])"
    by (simp_all add: decycle_def children_def paths_def rebuild_def item_path_def show_nat_digit digit_chr_def)
  have "closed ?H" "keys_ok ?H" "in_heap (length ?H) (HRef 0)"
    by (simp_all add: closed_def keys_ok_def in_heap_def children_def)
  from decycle_correct [OF this, of id] eval show ?thesis by auto
qed

end
