(* ===== verification/Json.thy ===== *)
theory Json
  imports Querystring
begin

text \<open>
  \<open>JSON.stringify\<close> and \<open>JSON.parse\<close> of the language, which the packet formatter
  (\<open>Formatter\<close>) is made of: the text of a value and the parser of texts, on characters below
  256. The properties of an object are listed in the language's own order, which puts keys that
  are array indices first: a list in another order stands for no object. Numbers that are not integers below \<open>10^21\<close> are printed by the parameter \<open>fmt\<close>. The
  parser has fuel for its recursion; \<open>parse_fuel_enough\<close> shows that what it is given is enough.
\<close>

subsection \<open>Texts of values\<close>

definition hex_digit :: "nat \<Rightarrow> char" where
  "hex_digit n = ''0123456789abcdef'' ! n"

definition esc_char :: "char \<Rightarrow> string" where
  "esc_char c =
     (if c = CHR 0x22 then [CHR 0x5C, CHR 0x22]
      else if c = CHR 0x5C then [CHR 0x5C, CHR 0x5C]
      else if c = CHR 0x08 then [CHR 0x5C, CHR ''b'']
      else if c = CHR 0x09 then [CHR 0x5C, CHR ''t'']
      else if c = CHR 0x0A then [CHR 0x5C, CHR ''n'']
      else if c = CHR 0x0C then [CHR 0x5C, CHR ''f'']
      else if c = CHR 0x0D then [CHR 0x5C, CHR ''r'']
      else if of_char c < (32 :: nat) then
        [CHR 0x5C, CHR ''u'', CHR ''0'', CHR ''0'', hex_digit (of_char c div 16), hex_digit (of_char c mod 16)]
      else [c])"

definition quote :: "string \<Rightarrow> string" where
  "quote s = CHR 0x22 # concat (map esc_char s) @ [CHR 0x22]"

definition number_text :: "(rat \<Rightarrow> string) \<Rightarrow> jnum \<Rightarrow> string" where
  "number_text fmt n = (case n of Fin _ \<Rightarrow> num_to_string fmt n | _ \<Rightarrow> ''null'')"

text \<open>Undefined members of an object are left out, undefined elements of an array are null.\<close>

fun json_text :: "(rat \<Rightarrow> string) \<Rightarrow> js \<Rightarrow> string" where
  "json_text fmt JUndef = ''null''"
| "json_text fmt JNull = ''null''"
| "json_text fmt (JBool b) = (if b then ''true'' else ''false'')"
| "json_text fmt (JNum n) = number_text fmt n"
| "json_text fmt (JStr s) = quote s"
| "json_text fmt (JArr xs) = ''['' @ join '','' (map (json_text fmt) xs) @ '']''"
| "json_text fmt (JObj kvs) = ''{'' @ join '','' (map (\<lambda>(k, v). quote k @ '':'' @ json_text fmt v)
     (filter (\<lambda>(k, v). v \<noteq> JUndef) kvs)) @ ''}''"

definition stringify :: "(rat \<Rightarrow> string) \<Rightarrow> js \<Rightarrow> string option" where
  "stringify fmt v = (if v = JUndef then None else Some (json_text fmt v))"

subsection \<open>Parsing\<close>

definition is_ws :: "char \<Rightarrow> bool" where
  "is_ws c \<longleftrightarrow> c \<in> {CHR '' '', CHR 0x0A, CHR 0x0D, CHR 0x09}"

definition skip_ws :: "string \<Rightarrow> string" where
  "skip_ws = dropWhile is_ws"

definition esc_value :: "char \<Rightarrow> char option" where
  "esc_value c = map_of [(CHR 0x22, CHR 0x22), (CHR 0x5C, CHR 0x5C), (CHR ''/'', CHR ''/''), (CHR ''b'', CHR 0x08),
     (CHR ''f'', CHR 0x0C), (CHR ''n'', CHR 0x0A), (CHR ''r'', CHR 0x0D), (CHR ''t'', CHR 0x09)] c"

definition hex_char :: "string \<Rightarrow> char option" where
  "hex_char ds = (if list_all (\<lambda>c. digit_val c < 16) ds \<and> digits_val 16 ds < 256 then Some (char_of (digits_val 16 ds)) else None)"

definition put_char :: "char option \<Rightarrow> (string \<times> string) option \<Rightarrow> (string \<times> string) option" where
  "put_char c r = (case c of None \<Rightarrow> None | Some c \<Rightarrow> map_option (\<lambda>(s, t). (c # s, t)) r)"

text \<open>The rest of a string after its opening quote: its characters and what follows it.\<close>

function parse_string :: "string \<Rightarrow> (string \<times> string) option" where
  "parse_string s =
     (case s of [] \<Rightarrow> None
      | c # t \<Rightarrow>
          if c = CHR 0x22 then Some ([], t)
          else if of_char c < (32 :: nat) then None
          else if c \<noteq> CHR 0x5C then put_char (Some c) (parse_string t)
          else (case t of [] \<Rightarrow> None
            | e # u \<Rightarrow> if e = CHR ''u'' then (if length u < 4 then None else put_char (hex_char (take 4 u)) (parse_string (drop 4 u)))
                else put_char (esc_value e) (parse_string u)))"
  by pat_completeness auto
termination by (relation "measure length") auto

declare parse_string.simps [simp del]

lemma parse_string_Cons:
  "parse_string (c # t) =
     (if c = CHR 0x22 then Some ([], t)
      else if of_char c < (32 :: nat) then None
      else if c \<noteq> CHR 0x5C then put_char (Some c) (parse_string t)
      else (case t of [] \<Rightarrow> None
        | e # u \<Rightarrow> if e = CHR ''u'' then (if length u < 4 then None else put_char (hex_char (take 4 u)) (parse_string (drop 4 u)))
            else put_char (esc_value e) (parse_string u)))"
  by (simp add: parse_string.simps [of "c # t"])

lemma parse_string_Nil: "parse_string [] = None"
  by (simp add: parse_string.simps)

definition json_number :: "string \<Rightarrow> js option" where
  "json_number t =
     (let neg = (t \<noteq> [] \<and> hd t = CHR ''-''); u = (if neg then tl t else t);
          ds = takeWhile is_digit u; r = dropWhile is_digit u
      in if ds = [] \<or> (hd ds = CHR ''0'' \<and> tl ds \<noteq> [])
            \<or> (r \<noteq> [] \<and> hd r = CHR ''.'' \<and> (tl r = [] \<or> \<not> is_digit (hd (tl r)))) then None
         else map_option (\<lambda>q. JNum (of_exact (if neg then - q else q))) (dec_literal u))"

definition in_number :: "char \<Rightarrow> bool" where
  "in_number c \<longleftrightarrow> is_digit c \<or> c \<in> set ''+-.eE''"

definition literal :: "string \<Rightarrow> (js \<times> string) option" where
  "literal s =
     (if prefix ''true'' s then Some (JBool True, drop 4 s)
      else if prefix ''false'' s then Some (JBool False, drop 5 s)
      else if prefix ''null'' s then Some (JNull, drop 4 s)
      else map_option (\<lambda>v. (v, dropWhile in_number s)) (json_number (takeWhile in_number s)))"

fun parse_value :: "nat \<Rightarrow> string \<Rightarrow> (js \<times> string) option"
  and parse_items :: "nat \<Rightarrow> string \<Rightarrow> js list \<Rightarrow> (js \<times> string) option"
  and parse_members :: "nat \<Rightarrow> string \<Rightarrow> (string \<times> js) list \<Rightarrow> (js \<times> string) option" where
  "parse_value 0 s = None"
| "parse_value (Suc n) s =
     (case skip_ws s of [] \<Rightarrow> None
      | c # t \<Rightarrow>
          if c = CHR 0x22 then map_option (\<lambda>(x, r). (JStr x, r)) (parse_string t)
          else if c = CHR ''['' then (case skip_ws t of [] \<Rightarrow> None
            | d # u \<Rightarrow> if d = CHR '']'' then Some (JArr [], u) else parse_items n t [])
          else if c = CHR ''{'' then (case skip_ws t of [] \<Rightarrow> None
            | d # u \<Rightarrow> if d = CHR ''}'' then Some (JObj [], u) else parse_members n t [])
          else literal (c # t))"
| "parse_items 0 s xs = None"
| "parse_items (Suc n) s xs =
     (case parse_value n s of None \<Rightarrow> None
      | Some (v, r) \<Rightarrow> (case skip_ws r of [] \<Rightarrow> None
          | c # t \<Rightarrow> if c = CHR '']'' then Some (JArr (xs @ [v]), t)
              else if c = CHR '','' then parse_items n t (xs @ [v]) else None))"
| "parse_members 0 s kvs = None"
| "parse_members (Suc n) s kvs =
     (case skip_ws s of [] \<Rightarrow> None
      | c # t \<Rightarrow> if c \<noteq> CHR 0x22 then None
          else (case parse_string t of None \<Rightarrow> None
            | Some (k, r) \<Rightarrow> (case skip_ws r of [] \<Rightarrow> None
              | c # t \<Rightarrow> if c \<noteq> CHR '':'' then None
                  else (case parse_value n t of None \<Rightarrow> None
                    | Some (v, r) \<Rightarrow> (case skip_ws r of [] \<Rightarrow> None
                      | c # t \<Rightarrow> if c = CHR ''}'' then Some (JObj (al_set k v kvs), t)
                          else if c = CHR '','' then parse_members n t (al_set k v kvs) else None)))))"

definition syntax_error :: exn where
  "syntax_error = Thrown (JObj [(''name'', JStr ''SyntaxError'')])"

definition json_parse_text :: "string \<Rightarrow> exn + js" where
  "json_parse_text s =
     (case parse_value (2 * length s + 2) s of None \<Rightarrow> Inl syntax_error
      | Some (v, r) \<Rightarrow> if skip_ws r = [] then Inr v else Inl syntax_error)"

subsection \<open>Enough fuel\<close>

lemma length_skip_ws: "length (skip_ws s) \<le> length s"
  by (simp add: skip_ws_def length_dropWhile_le)

lemma skip_ws_Cons: "skip_ws s = c # t \<Longrightarrow> length t < length s"
  using length_skip_ws [of s] by simp

lemma parse_string_rest: "parse_string s = Some (x, r) \<Longrightarrow> length r < length s"
proof (induction s arbitrary: x rule: parse_string.induct)
  case (1 s)
  show ?case
  proof (cases s)
    case (Cons c t)
    consider "c = CHR 0x22" | "c \<noteq> CHR 0x22" "c \<noteq> CHR 0x5C" "\<not> of_char c < (32::nat)"
      | "c = CHR 0x5C" | "c \<noteq> CHR 0x22" "of_char c < (32::nat)" by blast
    then show ?thesis
    proof cases
      case 1
      then show ?thesis using "1.prems" Cons by (simp add: parse_string_Cons)
    next
      case 2
      then obtain y where "parse_string t = Some (y, r)"
        using "1.prems" Cons by (auto simp: parse_string_Cons put_char_def split: option.splits)
      from "1.IH"(1) [OF Cons 2(1,3,2) this] show ?thesis using Cons by simp
    next
      case 3
      then obtain e u where t: "t = e # u" using "1.prems" Cons by (cases t) (auto simp: parse_string_Cons)
      show ?thesis
      proof (cases "e = CHR ''u''")
        case True
        then obtain y where y: "parse_string (drop 4 u) = Some (y, r)" "\<not> length u < 4"
          using "1.prems" Cons t 3 by (auto simp: parse_string_Cons put_char_def split: option.splits if_splits)
        have "length r < length (drop 4 u)" by (rule "1.IH"(2) [OF Cons _ _ _ t True y(2) y(1)]) (use 3 in simp_all)
        then show ?thesis using Cons t by simp
      next
        case False
        then obtain y where y: "parse_string u = Some (y, r)"
          using "1.prems" Cons t 3 by (auto simp: parse_string_Cons put_char_def split: option.splits)
        have "length r < length u" by (rule "1.IH"(3) [OF Cons _ _ _ t False y]) (use 3 in simp_all)
        then show ?thesis using Cons t by simp
      qed
    next
      case 4
      then show ?thesis using "1.prems" Cons by (simp add: parse_string_Cons)
    qed
  qed (use "1.prems" in \<open>simp add: parse_string_Nil\<close>)
qed

lemma literal_rest: "literal s = Some (v, r) \<Longrightarrow> length r \<le> length s"
  by (auto simp: literal_def length_dropWhile_le split: if_splits)

lemma parse_rest:
  "(\<forall>s v r. parse_value n s = Some (v, r) \<longrightarrow> length r \<le> length s)
   \<and> (\<forall>s xs v r. parse_items n s xs = Some (v, r) \<longrightarrow> length r \<le> length s)
   \<and> (\<forall>s kvs v r. parse_members n s kvs = Some (v, r) \<longrightarrow> length r \<le> length s)"
proof (induction n)
  case (Suc n)
  have v: "length r \<le> length s" if p: "parse_value (Suc n) s = Some (v, r)" for s v r
  proof (cases "skip_ws s")
    case (Cons c t)
    then have l: "length (c # t) \<le> length s" "length t < length s" using length_skip_ws [of s] by auto
    show ?thesis
      using p l Suc parse_string_rest [of t] literal_rest [of "c # t"] skip_ws_Cons [of t]
      by (fastforce simp: Cons split: if_splits list.splits)
  qed (use p in simp)
  have i: "length r \<le> length s" if p: "parse_items (Suc n) s xs = Some (v, r)" for s xs v r
  proof -
    obtain x u where x: "parse_value n s = Some (x, u)" using p by (cases "parse_value n s") auto
    then have u: "length u \<le> length s" using Suc by blast
    obtain c t where c: "skip_ws u = c # t" using p x by (auto split: list.splits)
    then have t: "length t \<le> length s" using skip_ws_Cons [of u] u by fastforce
    have "c \<noteq> CHR '']'' \<Longrightarrow> parse_items n t (xs @ [x]) = Some (v, r)" using p x c by (auto split: if_splits)
    then have "c \<noteq> CHR '']'' \<Longrightarrow> length r \<le> length t" using Suc by blast
    then show ?thesis using p x c t by (cases "c = CHR '']''") auto
  qed
  have m: "length r \<le> length s" if p: "parse_members (Suc n) s kvs = Some (v, r)" for s kvs v r
  proof -
    obtain t where t: "skip_ws s = CHR 0x22 # t" using p by (auto split: list.splits if_splits)
    obtain k r1 where k: "parse_string t = Some (k, r1)" using p t by (cases "parse_string t") auto
    obtain t2 where t2: "skip_ws r1 = CHR '':'' # t2" using p t k by (auto split: list.splits if_splits)
    obtain x r2 where x: "parse_value n t2 = Some (x, r2)" using p t k t2 by (cases "parse_value n t2") auto
    obtain d t3 where d: "skip_ws r2 = d # t3" using p t k t2 x by (auto split: list.splits)
    have l: "length t3 \<le> length s"
      using skip_ws_Cons [OF t] parse_string_rest [OF k] skip_ws_Cons [OF t2] skip_ws_Cons [OF d] Suc x by fastforce
    have "d \<noteq> CHR ''}'' \<Longrightarrow> parse_members n t3 (al_set k x kvs) = Some (v, r)" using p t k t2 x d by (auto split: if_splits)
    then have "d \<noteq> CHR ''}'' \<Longrightarrow> length r \<le> length t3" using Suc by blast
    then show ?thesis using p t k t2 x d l by (cases "d = CHR ''}''") auto
  qed
  show ?case using v i m by blast
qed simp

lemma parse_fuel_step:
  "(\<forall>s. 2 * length s + 2 \<le> n \<longrightarrow> parse_value (Suc n) s = parse_value n s)
   \<and> (\<forall>s xs. 2 * length s + 3 \<le> n \<longrightarrow> parse_items (Suc n) s xs = parse_items n s xs)
   \<and> (\<forall>s kvs. 2 * length s + 1 \<le> n \<longrightarrow> parse_members (Suc n) s kvs = parse_members n s kvs)"
proof (induction n)
  case (Suc n)
  have v: "parse_value (Suc (Suc n)) s = parse_value (Suc n) s" if "2 * length s + 2 \<le> Suc n" for s
  proof (cases "skip_ws s")
    case (Cons c t)
    then have "length t < length s" by (rule skip_ws_Cons)
    then have "parse_items (Suc n) t [] = parse_items n t []" "parse_members (Suc n) t [] = parse_members n t []"
      using Suc that by simp_all
    then show ?thesis by (simp only: parse_value.simps Cons list.case)
  qed simp
  have i: "parse_items (Suc (Suc n)) s xs = parse_items (Suc n) s xs" if "2 * length s + 3 \<le> Suc n" for s xs
  proof -
    have pv: "parse_value (Suc n) s = parse_value n s" using Suc that by simp
    have "parse_items (Suc n) t ys = parse_items n t ys" if c: "parse_value n s = Some (x, u)" "skip_ws u = c # t" for x u c t ys
    proof -
      have "length t < length s" using parse_rest [of n] c(1) skip_ws_Cons [OF c(2)] by fastforce
      then show ?thesis using Suc \<open>2 * length s + 3 \<le> Suc n\<close> by simp
    qed
    note items = this
    show ?thesis
    proof (cases "parse_value n s")
      case (Some xu)
      obtain x u where xu: "xu = (x, u)" by (cases xu)
      show ?thesis
      proof (cases "skip_ws u")
        case (Cons c t)
        from items [OF Some [unfolded xu] Cons] show ?thesis
          by (simp only: parse_items.simps(2) [of "Suc n"] parse_items.simps(2) [of n s] pv Some xu Cons option.case prod.case list.case)
      qed (simp only: parse_items.simps(2) [of "Suc n"] parse_items.simps(2) [of n s] pv Some xu option.case prod.case list.case)
    qed (simp only: parse_items.simps(2) [of "Suc n"] parse_items.simps(2) [of n s] pv option.case)
  qed
  have m: "parse_members (Suc (Suc n)) s kvs = parse_members (Suc n) s kvs" if "2 * length s + 1 \<le> Suc n" for s kvs
  proof -
    have pv: "parse_value (Suc n) t2 = parse_value n t2" "length t2 < length s"
      if "skip_ws s = c # t" "parse_string t = Some (k, r)" "skip_ws r = d # t2" for c t k r d t2
    proof -
      show l: "length t2 < length s"
        using skip_ws_Cons [OF that(1)] parse_string_rest [OF that(2)] skip_ws_Cons [OF that(3)] by simp
      then show "parse_value (Suc n) t2 = parse_value n t2" using Suc \<open>2 * length s + 1 \<le> Suc n\<close> by simp
    qed
    have pm: "parse_members (Suc n) t3 l = parse_members n t3 l"
      if "length t2 < length s" "parse_value n t2 = Some (x, u)" "skip_ws u = e # t3" for t2 x u e t3 l
    proof -
      have "length t3 < length s" using parse_rest [of n] that skip_ws_Cons [OF that(3)] by fastforce
      then show ?thesis using Suc \<open>2 * length s + 1 \<le> Suc n\<close> by simp
    qed
    note eqs = parse_members.simps(2) [of "Suc n" s] parse_members.simps(2) [of n s]
    show ?thesis
    proof (cases "skip_ws s")
      case (Cons c t)
      note 1 = Cons
      show ?thesis
      proof (cases "parse_string t")
        case (Some kr)
        obtain k r where 2: "parse_string t = Some (k, r)" using Some by (cases kr) simp
        show ?thesis
        proof (cases "skip_ws r")
          case (Cons d t2)
          note 3 = Cons
          note pv = pv [OF 1 2 3]
          show ?thesis
          proof (cases "parse_value n t2")
            case (Some xu)
            obtain x u where 4: "parse_value n t2 = Some (x, u)" using Some by (cases xu) simp
            show ?thesis
            proof (cases "skip_ws u")
              case (Cons e t3)
              show ?thesis by (simp only: eqs 1 2 3 pv(1) 4 Cons pm [OF pv(2) 4 Cons] option.case prod.case list.case)
            qed (simp only: eqs 1 2 3 pv(1) 4 option.case prod.case list.case)
          qed (simp only: eqs 1 2 3 pv(1) option.case prod.case list.case)
        qed (simp only: eqs 1 2 option.case prod.case list.case)
      qed (simp only: eqs 1 option.case list.case)
    qed (simp only: eqs list.case)
  qed
  show ?case using v i m by blast
qed auto

text \<open>More fuel than \<open>2 * length s + 2\<close> changes nothing: the parser does not stop for lack of it.\<close>

lemma parse_fuel_enough: "2 * length s + 2 \<le> n \<Longrightarrow> parse_value n s = parse_value (2 * length s + 2) s"
proof (induction n rule: nat_induct_at_least)
  case (Suc n)
  then show ?case using parse_fuel_step [of n] by simp
qed simp

subsection \<open>Parsing what was printed\<close>

text \<open>Values that JSON can carry: no undefined, integers below \<open>10^20\<close>, each key once.\<close>

fun plain :: "js \<Rightarrow> bool" where
  "plain JUndef = False"
| "plain JNull = True"
| "plain (JBool b) = True"
| "plain (JNum n) = (case n of Fin q \<Rightarrow> q = of_int \<lfloor>q\<rfloor> \<and> \<bar>q\<bar> < 10 ^ 20 | _ \<Rightarrow> False)"
| "plain (JStr s) = True"
| "plain (JArr xs) = list_all plain xs"
| "plain (JObj kvs) = (distinct (map fst kvs) \<and> list_all (\<lambda>(k, v). plain v) kvs)"

lemma esc_char_parses: "parse_string (esc_char c @ t) = put_char (Some c) (parse_string t)"
proof -
  have e: "esc_value (CHR 0x22) = Some (CHR 0x22)" "esc_value (CHR 0x5C) = Some (CHR 0x5C)" "esc_value (CHR ''b'') = Some (CHR 0x08)"
    "esc_value (CHR ''t'') = Some (CHR 0x09)" "esc_value (CHR ''n'') = Some (CHR 0x0A)" "esc_value (CHR ''f'') = Some (CHR 0x0C)"
    "esc_value (CHR ''r'') = Some (CHR 0x0D)"
    by (simp_all add: esc_value_def)
  consider "c \<in> {CHR 0x22, CHR 0x5C, CHR 0x08, CHR 0x09, CHR 0x0A, CHR 0x0C, CHR 0x0D}"
    | "c \<notin> {CHR 0x22, CHR 0x5C, CHR 0x08, CHR 0x09, CHR 0x0A, CHR 0x0C, CHR 0x0D}" "of_char c < (32 :: nat)"
    | "c \<notin> {CHR 0x22, CHR 0x5C}" "\<not> of_char c < (32 :: nat)" by blast
  then show ?thesis
  proof cases
    case 1
    then show ?thesis by (auto simp: esc_char_def parse_string_Cons e)
  next
    case 2
    have "list_all (\<lambda>n. hex_char [CHR ''0'', CHR ''0'', hex_digit (n div 16), hex_digit (n mod 16)] = Some (char_of n)) [0..<32]"
      by code_simp
    then have all: "hex_char [CHR ''0'', CHR ''0'', hex_digit (n div 16), hex_digit (n mod 16)] = Some (char_of n)" if "n < 32" for n
      using that by (simp add: list_all_iff)
    show ?thesis using 2 all [OF 2(2)] by (simp add: esc_char_def parse_string_Cons)
  next
    case 3
    then show ?thesis by (auto simp: esc_char_def parse_string_Cons)
  qed
qed

lemma quote_parses: "parse_string (concat (map esc_char s) @ CHR 0x22 # t) = Some (s, t)"
  by (induction s) (simp_all add: parse_string_Cons esc_char_parses put_char_def)

lemma show_nat_head: "show_nat n \<noteq> [] \<and> is_digit (hd (show_nat n)) \<and> (hd (show_nat n) = CHR ''0'' \<longrightarrow> n = 0)"
proof (induction n rule: less_induct)
  case (less n)
  show ?case
  proof (cases "n < 10")
    case True
    then show ?thesis
      using digit_char [of n] by (auto simp: show_nat_digit digit_val_def is_digit_def)
  next
    case False
    then have "n div 10 \<noteq> 0" by (simp add: div_eq_0_iff)
    then show ?thesis using less [of "n div 10"] show_nat_step [of n] False by simp
  qed
qed

lemma json_number_nat:
  assumes "n < 10 ^ 20"
  shows "json_number (show_nat n) = Some (JNum (Fin (of_nat n)))"
    and "json_number (CHR ''-'' # show_nat n) = Some (JNum (Fin (- of_nat n)))"
proof -
  have d: "takeWhile is_digit (show_nat n) = show_nat n" "dropWhile is_digit (show_nat n) = []"
    using show_nat_digits [of n] by (simp_all add: list_all_iff)
  have bs: "\<forall>c\<in>set (show_nat n). is_digit c" using show_nat_digits [of n] by (simp add: list_all_iff)
  have h: "hd (show_nat n) \<noteq> CHR ''-''" using show_nat_head [of n] by (auto simp: is_digit_def)
  have z: "\<not> (hd (show_nat n) = CHR ''0'' \<and> tl (show_nat n) \<noteq> [])"
    using show_nat_head [of n] show_nat_digit [of 0] by auto
  have l: "dec_literal (show_nat n) = Some (of_nat n)"
    using dec_literal_digits [OF show_nat_digits] show_nat_head [of n] by simp
  have b: "of_exact (of_nat n) = Fin (of_nat n)" "of_exact (- of_nat n) = Fin (- of_nat n)"
  proof -
    have "(of_nat n :: rat) < of_nat (10 ^ 20)" using assms by (simp only: of_nat_less_iff)
    also have "of_nat (10 ^ 20) < (2 ^ 1024 - 2 ^ 970 :: rat)" by simp
    finally have "(of_nat n :: rat) < 2 ^ 1024 - 2 ^ 970" .
    then show "of_exact (of_nat n) = Fin (of_nat n)" "of_exact (- of_nat n) = Fin (- of_nat n)"
      by (simp_all add: of_exact_def)
  qed
  show "json_number (show_nat n) = Some (JNum (Fin (of_nat n)))"
    "json_number (CHR ''-'' # show_nat n) = Some (JNum (Fin (- of_nat n)))"
    using h z bs by (simp_all add: json_number_def Let_def d l b)
qed

text \<open>What follows a value does not go on with a number; texts begin with no space and no closing bracket.\<close>

definition ends :: "string \<Rightarrow> bool" where
  "ends r \<longleftrightarrow> r = [] \<or> \<not> in_number (hd r)"

definition starts :: "string \<Rightarrow> bool" where
  "starts s \<longleftrightarrow> s \<noteq> [] \<and> \<not> is_ws (hd s) \<and> hd s \<noteq> CHR '']''"

lemma skip_starts: "starts s \<Longrightarrow> skip_ws (s @ r) = s @ r"
  by (cases s) (simp_all add: starts_def skip_ws_def)

lemma skip_char [simp]: "\<not> is_ws c \<Longrightarrow> skip_ws (c # r) = c # r"
  by (simp add: skip_ws_def)

lemma ws_chars [simp]: "\<not> is_ws (CHR 0x22)" "\<not> is_ws (CHR ''['')" "\<not> is_ws (CHR '']'')" "\<not> is_ws (CHR ''{'')" "\<not> is_ws (CHR ''}'')"
  "\<not> is_ws (CHR '','')" "\<not> is_ws (CHR '':'')" "\<not> is_ws (CHR ''t'')" "\<not> is_ws (CHR ''f'')" "\<not> is_ws (CHR ''n'')" "\<not> is_ws (CHR ''-'')"
  by (simp_all add: is_ws_def)

lemma digit_start: "is_digit c \<Longrightarrow> \<not> is_ws c \<and> in_number c \<and> c \<notin> {CHR 0x22, CHR ''['', CHR '']'', CHR ''{'', CHR ''t'', CHR ''f'', CHR ''n''}"
  by (auto simp: is_digit_def is_ws_def in_number_def)

text \<open>The text of a number: an optional sign and digits.\<close>

lemma plain_number:
  assumes "plain (JNum n)"
  obtains m where "n = Fin (of_nat m)" "number_text fmt n = show_nat m" "m < 10 ^ 20"
    | m where "n = Fin (- of_nat m)" "number_text fmt n = CHR ''-'' # show_nat m" "m < 10 ^ 20"
proof -
  obtain q where n: "n = Fin q" and q: "q = of_int \<lfloor>q\<rfloor>" "\<bar>q\<bar> < 10 ^ 20" using assms by (cases n) auto
  obtain i where i: "q = of_int i" using q(1) by blast
  have "\<bar>(of_int i :: rat)\<bar> < of_int (10 ^ 20)" using q(2) i by simp
  then have b: "\<bar>i\<bar> < 10 ^ 20" by (metis of_int_abs of_int_less_iff)
  have t: "number_text fmt n = show_int i" using b by (simp add: number_text_def n i flip: of_int_abs)
  show thesis
  proof (cases "i < 0")
    case True
    show thesis by (rule that(2) [of "nat (- i)"]) (use True b n i t in \<open>simp_all add: show_int_def nat_less_iff\<close>)
  next
    case False
    show thesis by (rule that(1) [of "nat i"]) (use False b n i t in \<open>simp_all add: show_int_def nat_less_iff\<close>)
  qed
qed

lemma literal_number:
  assumes "plain (JNum n)" and "ends r"
  shows "literal (number_text fmt n @ r) = Some (JNum n, r)" and "starts (number_text fmt n)"
    and "hd (number_text fmt n) \<notin> {CHR 0x22, CHR ''['', CHR ''{''}"
proof -
  have digits: "takeWhile in_number (show_nat m @ r) = show_nat m" "dropWhile in_number (show_nat m @ r) = r" for m
  proof -
    have "\<forall>c\<in>set (show_nat m). in_number c" using show_nat_digits [of m] digit_start by (simp add: list_all_iff)
    then show "takeWhile in_number (show_nat m @ r) = show_nat m" "dropWhile in_number (show_nat m @ r) = r"
      using assms(2) by (cases r; simp add: ends_def)+
  qed
  have minus: "in_number (CHR ''-'')" by (simp add: in_number_def)
  have head: "\<exists>c t. show_nat m = c # t \<and> is_digit c" for m using show_nat_head [of m] by (cases "show_nat m") auto
  show "literal (number_text fmt n @ r) = Some (JNum n, r)"
    using assms(1)
  proof (rule plain_number [where fmt = fmt])
    fix m assume m: "n = Fin (of_nat m)" "number_text fmt n = show_nat m" "m < 10 ^ 20"
    obtain c t where "show_nat m = c # t" "is_digit c" using head by blast
    then have "\<not> prefix ''true'' (show_nat m @ r)" "\<not> prefix ''false'' (show_nat m @ r)" "\<not> prefix ''null'' (show_nat m @ r)"
      using digit_start by auto
    then show ?thesis using m digits [of m] json_number_nat [OF m(3)] by (simp add: literal_def)
  next
    fix m assume m: "n = Fin (- of_nat m)" "number_text fmt n = CHR ''-'' # show_nat m" "m < 10 ^ 20"
    show ?thesis using m digits [of m] json_number_nat [OF m(3)] minus by (simp add: literal_def)
  qed
  show "starts (number_text fmt n)" "hd (number_text fmt n) \<notin> {CHR 0x22, CHR ''['', CHR ''{''}"
  proof -
    have h: "starts (show_nat m) \<and> hd (show_nat m) \<notin> {CHR 0x22, CHR ''['', CHR ''{''}" for m
    proof -
      obtain c t where "show_nat m = c # t" "is_digit c" using head by blast
      then show ?thesis using digit_start [of c] by (auto simp: starts_def)
    qed
    have n: "starts (number_text fmt n) \<and> hd (number_text fmt n) \<notin> {CHR 0x22, CHR ''['', CHR ''{''}"
      using assms(1) by (rule plain_number [where fmt = fmt]) (use h in \<open>simp_all add: starts_def\<close>)
    then show "starts (number_text fmt n)" "hd (number_text fmt n) \<notin> {CHR 0x22, CHR ''['', CHR ''{''}" by blast+
  qed
qed

lemma text_starts: "plain v \<Longrightarrow> starts (json_text fmt v)"
  using literal_number(2) [of _ "[]" fmt] by (cases v) (auto simp: starts_def ends_def quote_def)

text \<open>From some fuel on, the parser reads the text back and stops after it.\<close>

definition reads :: "(rat \<Rightarrow> string) \<Rightarrow> js \<Rightarrow> bool" where
  "reads fmt v \<longleftrightarrow> (\<forall>r. ends r \<longrightarrow> (\<exists>N. \<forall>n\<ge>N. parse_value n (json_text fmt v @ r) = Some (v, r)))"

lemma ends_chars [simp]: "ends (CHR '']'' # r)" "ends (CHR ''}'' # r)" "ends (CHR '','' # r)"
  by (simp_all add: ends_def in_number_def is_digit_def)

lemma readsD:
  assumes "reads fmt v" and "ends r"
  shows "\<exists>N. \<forall>n\<ge>N. parse_value n (json_text fmt v @ r) = Some (v, r)"
  using assms by (simp add: reads_def)

lemma join_Cons: "ys \<noteq> [] \<Longrightarrow> join sep (x # ys) = x @ sep @ join sep ys"
  by (cases ys) simp_all

lemma items_read:
  assumes "\<And>x. x \<in> set xs \<Longrightarrow> reads fmt x" and "xs \<noteq> []"
  shows "\<exists>N. \<forall>n\<ge>N. parse_items n (join '','' (map (json_text fmt) xs) @ CHR '']'' # r) acc = Some (JArr (acc @ xs), r)"
  using assms
proof (induction xs arbitrary: acc)
  case (Cons x xs)
  show ?case
  proof (cases "xs = []")
    case True
    have x: "reads fmt x" using Cons.prems by simp
    obtain N where N: "\<And>n. n \<ge> N \<Longrightarrow> parse_value n (json_text fmt x @ CHR '']'' # r) = Some (x, CHR '']'' # r)"
      using readsD [OF x ends_chars(1)] by blast
    have "parse_items n (join '','' (map (json_text fmt) (x # xs)) @ CHR '']'' # r) acc = Some (JArr (acc @ x # xs), r)" if "n \<ge> Suc N" for n
      using that N by (cases n) (simp_all add: True)
    then show ?thesis by blast
  next
    case False
    let ?rest = "join '','' (map (json_text fmt) xs) @ CHR '']'' # r"
    have x: "reads fmt x" using Cons.prems by simp
    obtain N where N: "\<And>n. n \<ge> N \<Longrightarrow> parse_value n (json_text fmt x @ CHR '','' # ?rest) = Some (x, CHR '','' # ?rest)"
      using readsD [OF x ends_chars(3)] by blast
    obtain M where M: "\<And>n. n \<ge> M \<Longrightarrow> parse_items n ?rest (acc @ [x]) = Some (JArr (acc @ [x] @ xs), r)"
      using Cons.IH [of "acc @ [x]"] Cons.prems False by auto
    have "parse_items n (join '','' (map (json_text fmt) (x # xs)) @ CHR '']'' # r) acc = Some (JArr (acc @ x # xs), r)" if "n \<ge> Suc (max N M)" for n
      using that N M False by (cases n) (simp_all add: join_Cons)
    then show ?thesis by blast
  qed
qed simp

definition member_text :: "(rat \<Rightarrow> string) \<Rightarrow> string \<times> js \<Rightarrow> string" where
  "member_text fmt kv = quote (fst kv) @ '':'' @ json_text fmt (snd kv)"

lemma member_step:
  assumes "parse_value n (json_text fmt v @ c # r) = Some (v, c # r)" and "starts (json_text fmt v)" and "c = CHR ''}'' \<or> c = CHR '',''"
  shows "parse_members (Suc n) (member_text fmt (k, v) @ c # r) kvs
    = (if c = CHR ''}'' then Some (JObj (al_set k v kvs), r) else parse_members n r (al_set k v kvs))"
  using assms skip_starts [OF assms(2)] by (auto simp: member_text_def quote_def quote_parses)

lemma members_read:
  assumes "\<And>k x. (k, x) \<in> set kvs \<Longrightarrow> reads fmt x \<and> starts (json_text fmt x)" and "kvs \<noteq> []"
    and "distinct (map fst (acc @ kvs))"
  shows "\<exists>N. \<forall>n\<ge>N. parse_members n (join '','' (map (member_text fmt) kvs) @ CHR ''}'' # r) acc = Some (JObj (acc @ kvs), r)"
  using assms
proof (induction kvs arbitrary: acc)
  case (Cons kv kvs)
  obtain k x where kv: "kv = (k, x)" by (cases kv)
  have x: "reads fmt x" "starts (json_text fmt x)" using Cons.prems(1) kv by auto
  have new: "al_set k x acc = acc @ [(k, x)]" using Cons.prems(3) kv by (intro al_set_new) auto
  show ?case
  proof (cases "kvs = []")
    case True
    obtain N where N: "\<And>n. n \<ge> N \<Longrightarrow> parse_value n (json_text fmt x @ CHR ''}'' # r) = Some (x, CHR ''}'' # r)"
      using readsD [OF x(1) ends_chars(2)] by blast
    have "parse_members n (join '','' (map (member_text fmt) (kv # kvs)) @ CHR ''}'' # r) acc = Some (JObj (acc @ kv # kvs), r)"
      if n: "n \<ge> Suc N" for n
    proof (cases n)
      case (Suc m)
      then show ?thesis using member_step [OF N x(2), of m k acc] n new True kv by simp
    qed (use n in simp)
    then show ?thesis by blast
  next
    case False
    let ?rest = "join '','' (map (member_text fmt) kvs) @ CHR ''}'' # r"
    obtain N where N: "\<And>n. n \<ge> N \<Longrightarrow> parse_value n (json_text fmt x @ CHR '','' # ?rest) = Some (x, CHR '','' # ?rest)"
      using readsD [OF x(1) ends_chars(3)] by blast
    have "\<exists>M. \<forall>n\<ge>M. parse_members n ?rest (acc @ [(k, x)]) = Some (JObj ((acc @ [(k, x)]) @ kvs), r)"
      using Cons.prems False kv by (intro Cons.IH) auto
    then obtain M where M: "\<And>n. n \<ge> M \<Longrightarrow> parse_members n ?rest (acc @ [(k, x)]) = Some (JObj (acc @ kv # kvs), r)"
      using kv by auto
    have "parse_members n (join '','' (map (member_text fmt) (kv # kvs)) @ CHR ''}'' # r) acc = Some (JObj (acc @ kv # kvs), r)"
      if n: "n \<ge> Suc (max N M)" for n
    proof (cases n)
      case (Suc m)
      then show ?thesis using member_step [OF N x(2), of m k acc] M [of m] n new False kv by (simp add: join_Cons)
    qed (use n in simp)
    then show ?thesis by blast
  qed
qed simp

lemma object_text:
  assumes "plain (JObj kvs)"
  shows "json_text fmt (JObj kvs) = CHR ''{'' # join '','' (map (member_text fmt) kvs) @ ''}''"
proof -
  have "filter (\<lambda>(k, v). v \<noteq> JUndef) kvs = kvs"
    using assms by (intro filter_True) (auto simp: list_all_iff split: prod.splits)
  then show ?thesis by (simp add: member_text_def [abs_def] case_prod_unfold)
qed

lemma plain_reads: "plain v \<Longrightarrow> reads fmt v"
proof (induction v)
  case (JArr xs)
  have x: "reads fmt x" if "x \<in> set xs" for x using JArr that by (auto simp: list_all_iff)
  show ?case
    unfolding reads_def
  proof (intro allI impI)
    fix r assume "ends r"
    show "\<exists>N. \<forall>n\<ge>N. parse_value n (json_text fmt (JArr xs) @ r) = Some (JArr xs, r)"
    proof (cases "xs = []")
      case True
      have "parse_value n (json_text fmt (JArr xs) @ r) = Some (JArr xs, r)" if "n \<ge> 1" for n
        using that by (cases n) (simp_all add: True)
      then show ?thesis by blast
    next
      case False
      let ?items = "join '','' (map (json_text fmt) xs) @ CHR '']'' # r"
      obtain N where N: "\<And>n. n \<ge> N \<Longrightarrow> parse_items n ?items [] = Some (JArr xs, r)"
        using items_read [OF x False, where acc = "[]" and r = r] by auto
      have "\<exists>y ys. join '','' (map (json_text fmt) xs) = json_text fmt (hd xs) @ ys"
        using False by (cases xs; cases "tl xs") auto
      moreover have "starts (json_text fmt (hd xs))"
        using JArr.prems False by (intro text_starts) (cases xs; simp)
      ultimately obtain c t where "?items = c # t" "\<not> is_ws c" "c \<noteq> CHR '']''"
        by (cases "json_text fmt (hd xs)") (auto simp: starts_def)
      then have "parse_value n (json_text fmt (JArr xs) @ r) = Some (JArr xs, r)" if "n \<ge> Suc N" for n
        using that N by (cases n) simp_all
      then show ?thesis by blast
    qed
  qed
next
  case (JObj kvs)
  have x: "reads fmt x \<and> starts (json_text fmt x)" if m: "(k, x) \<in> set kvs" for k x
  proof -
    have "plain x" using JObj.prems m by (auto simp: list_all_iff)
    then show ?thesis using JObj.IH [OF m] text_starts by auto
  qed
  show ?case
    unfolding reads_def
  proof (intro allI impI)
    fix r assume "ends r"
    show "\<exists>N. \<forall>n\<ge>N. parse_value n (json_text fmt (JObj kvs) @ r) = Some (JObj kvs, r)"
    proof (cases "kvs = []")
      case True
      have "parse_value n (json_text fmt (JObj kvs) @ r) = Some (JObj kvs, r)" if "n \<ge> 1" for n
        using that by (cases n) (simp_all add: True)
      then show ?thesis by blast
    next
      case False
      let ?members = "join '','' (map (member_text fmt) kvs) @ CHR ''}'' # r"
      have "distinct (map fst ([] @ kvs))" using JObj.prems by simp
      then have "\<exists>N. \<forall>n\<ge>N. parse_members n ?members [] = Some (JObj ([] @ kvs), r)"
        by (intro members_read x False)
      then obtain N where N: "\<And>n. n \<ge> N \<Longrightarrow> parse_members n ?members [] = Some (JObj kvs, r)"
        by auto
      have "\<exists>t. ?members = CHR 0x22 # t"
        using False by (cases kvs; cases "tl kvs") (auto simp: member_text_def quote_def)
      then obtain t where t: "?members = CHR 0x22 # t" by blast
      have "parse_value n (json_text fmt (JObj kvs) @ r) = Some (JObj kvs, r)" if "n \<ge> Suc N" for n
        using that N unfolding object_text [OF JObj.prems] by (cases n) (simp_all add: t)
      then show ?thesis by blast
    qed
  qed
next
  case (JNum n)
  show ?case
    unfolding reads_def
  proof (intro allI impI)
    fix r assume r: "ends r"
    note num = literal_number [OF JNum r, of fmt]
    obtain c t where c: "number_text fmt n = c # t" "\<not> is_ws c" "c \<notin> {CHR 0x22, CHR ''['', CHR ''{''}"
      using num(2,3) by (cases "number_text fmt n") (auto simp: starts_def)
    have "parse_value m (json_text fmt (JNum n) @ r) = Some (JNum n, r)" if "m \<ge> 1" for m
      using that c num(1) by (cases m) simp_all
    then show "\<exists>N. \<forall>m\<ge>N. parse_value m (json_text fmt (JNum n) @ r) = Some (JNum n, r)" by blast
  qed
next
  case (JStr s)
  have "parse_value n (json_text fmt (JStr s) @ r) = Some (JStr s, r)" if "n \<ge> 1" for n r
    using that by (cases n) (simp_all add: quote_def quote_parses)
  then show ?case unfolding reads_def by blast
next
  case (JBool b)
  have "parse_value n (json_text fmt (JBool b) @ r) = Some (JBool b, r)" if "n \<ge> 1" for n r
    using that by (cases n) (simp_all add: literal_def)
  then show ?case unfolding reads_def by blast
next
  case JNull
  have "parse_value n (json_text fmt JNull @ r) = Some (JNull, r)" if "n \<ge> 1" for n r
    using that by (cases n) (simp_all add: literal_def)
  then show ?case unfolding reads_def by blast
qed simp

lemma json_roundtrip:
  assumes "plain v"
  shows "json_parse_text (json_text fmt v) = Inr v"
proof -
  let ?s = "json_text fmt v"
  obtain N where N: "\<And>n. n \<ge> N \<Longrightarrow> parse_value n (?s @ []) = Some (v, [])"
    using readsD [OF plain_reads [OF assms], of "[]"] by (auto simp: ends_def)
  have "parse_value (2 * length ?s + 2) ?s = parse_value (max N (2 * length ?s + 2)) ?s"
    by (rule parse_fuel_enough [symmetric]) simp
  also have "\<dots> = Some (v, [])" using N [of "max N (2 * length ?s + 2)"] by simp
  finally show ?thesis by (simp add: json_parse_text_def skip_ws_def)
qed

end
