(* ===== verification/Formatter.thy ===== *)
theory Formatter
  imports Json Base64
begin

text \<open>
  The packet formatter of the client (module 22 of \<open>socketcluster.js\<close>): \<open>encode\<close> turns what is
  sent into text with \<open>JSON.stringify\<close> and a replacer that packs binary data in base 64,
  \<open>decode\<close> reads what is received. What is sent is a finite tree; \<open>JSON.stringify\<close> throws on
  cyclic ones. The formatter's encoder \<open>arrayBufferToBase64\<close> is in \<open>Base64\<close>.
\<close>

subsection \<open>What is sent\<close>

text \<open>Primitives, arrays, plain objects, and binary data: an ArrayBuffer and a Buffer of Node.js.\<close>

datatype data =
    Prim js
  | Items "data list"
  | Members "(string \<times> data) list"
  | Array_Buffer "8 word list"
  | Buffer "8 word list"

text \<open>
  The globals the formatter looks at: whether ArrayBuffer and Buffer exist, whether Buffers have
  a \<open>toJSON\<close>, and the Buffer's \<open>from\<close> and \<open>toString('base64')\<close>.
\<close>

record host =
  array_buffers :: bool
  buffers :: bool
  buffer_json :: bool
  buffer_from :: "data list \<Rightarrow> 8 word list"
  buffer_base64 :: "8 word list \<Rightarrow> string"

definition byte_item :: "8 word \<Rightarrow> data" where
  "byte_item b = Prim (JNum (Fin (of_nat (unat b))))"

definition packed :: "string \<Rightarrow> data" where
  "packed s = Members [(''base64'', Prim (JBool True)), (''data'', Prim (JStr s))]"

definition buffer_object :: "8 word list \<Rightarrow> data" where
  "buffer_object bs = Members [(''type'', Prim (JStr ''Buffer'')), (''data'', Items (map byte_item bs))]"

text \<open>\<open>JSON.stringify\<close> calls \<open>toJSON\<close> before the replacer.\<close>

definition to_json :: "host \<Rightarrow> data \<Rightarrow> data" where
  "to_json h v = (case v of Buffer bs \<Rightarrow> if buffer_json h then buffer_object bs else v | _ \<Rightarrow> v)"

definition binaryToBase64Replacer :: "host \<Rightarrow> data \<Rightarrow> data" where
  "binaryToBase64Replacer h v =
     (case v of
        Array_Buffer bs \<Rightarrow> if array_buffers h then packed (arrayBufferToBase64 bs) else v
      | Buffer bs \<Rightarrow> if buffers h then packed (buffer_base64 h bs) else v
      | Members kvs \<Rightarrow>
          (case (map_of kvs ''type'', map_of kvs ''data'') of
             (Some (Prim (JStr t)), Some (Items xs)) \<Rightarrow>
               if buffers h \<and> t = ''Buffer'' then packed (buffer_base64 h (buffer_from h xs)) else v
           | _ \<Rightarrow> v)
      | _ \<Rightarrow> v)"

text \<open>
  The value whose text is sent. An ArrayBuffer has no properties of its own, a Buffer has its
  indices.
\<close>

definition weight_list :: "nat list \<Rightarrow> nat" where
  "weight_list ns = sum_list ns + length ns"

fun weight :: "data \<Rightarrow> nat" where
  "weight (Prim _) = 1"
| "weight (Items xs) = 1 + weight_list (map weight xs)"
| "weight (Members kvs) = 1 + weight_list (map (\<lambda>(k, v). weight v) kvs)"
| "weight (Array_Buffer _) = 2"
| "weight (Buffer bs) = 4 + weight_list (map (\<lambda>_. 1) bs)"

lemma weight_mem: "x \<in> set xs \<Longrightarrow> f x < Suc (weight_list (map f xs))"
  using member_le_sum_list [of "f x" "map f xs"] by (auto simp: weight_list_def)

lemma weight_ready:
  "binaryToBase64Replacer h (to_json h v) = Items xs \<Longrightarrow> x \<in> set xs \<Longrightarrow> weight x < weight v"
  "binaryToBase64Replacer h (to_json h v) = Members kvs \<Longrightarrow> (k, x) \<in> set kvs \<Longrightarrow> weight x < weight v"
proof -
  assume "binaryToBase64Replacer h (to_json h v) = Items xs" "x \<in> set xs"
  then show "weight x < weight v"
    by (cases v) (auto simp: binaryToBase64Replacer_def to_json_def packed_def buffer_object_def weight_mem
        split: if_splits option.splits data.splits js.splits)
next
  assume m: "binaryToBase64Replacer h (to_json h v) = Members kvs" "(k, x) \<in> set kvs"
  have w: "weight x < Suc (weight_list (map (\<lambda>(k, v). weight v) kvs))"
    using weight_mem [OF m(2), of "\<lambda>(k, v). weight v"] by simp
  have l: "kvs \<noteq> [] \<Longrightarrow> 1 < Suc (weight_list (map (\<lambda>(k, v). weight v) kvs))" for kvs :: "(string \<times> data) list"
    by (cases kvs) (auto simp: weight_list_def)
  show "weight x < weight v"
    using m w l by (cases v) (auto simp: binaryToBase64Replacer_def to_json_def packed_def buffer_object_def weight_list_def byte_item_def o_def
        split: if_splits option.splits data.splits js.splits)
qed

function json_of :: "host \<Rightarrow> data \<Rightarrow> js" where
  "json_of h v =
     (case binaryToBase64Replacer h (to_json h v) of
        Prim p \<Rightarrow> p
      | Items xs \<Rightarrow> JArr (map (json_of h) xs)
      | Members kvs \<Rightarrow> JObj (map (\<lambda>(k, x). (k, json_of h x)) kvs)
      | Array_Buffer _ \<Rightarrow> JObj []
      | Buffer bs \<Rightarrow> JObj (map (\<lambda>i. (show_nat i, JNum (Fin (of_nat (unat (bs ! i)))))) [0..<length bs]))"
  by pat_completeness auto
termination
  by (relation "measure (\<lambda>(h, v). weight v)") (auto dest: weight_ready)

declare json_of.simps [simp del]

subsection \<open>The codec\<close>

text \<open>\<open>undefined\<close> has no text.\<close>

definition encode :: "host \<Rightarrow> (rat \<Rightarrow> string) \<Rightarrow> data \<Rightarrow> js" where
  "encode h fmt v =
     (if v = Prim (JStr ''#1'') then JStr ''#1'' else if v = Prim (JStr ''#2'') then JStr ''#2''
      else (case stringify fmt (json_of h v) of None \<Rightarrow> JUndef | Some s \<Rightarrow> JStr s))"

definition validJSONStart :: "string \<Rightarrow> bool" where
  "validJSONStart s = (case dropWhile (\<lambda>c. c \<in> {CHR '' '', CHR 0x0A, CHR 0x0D, CHR 0x09}) s of
     [] \<Rightarrow> False | c # _ \<Rightarrow> c = CHR ''{'' \<or> c = CHR ''['')"

text \<open>\<open>text\<close> is \<open>toString\<close> of inputs that are not strings.\<close>

definition decode :: "(js \<Rightarrow> string) \<Rightarrow> js \<Rightarrow> js" where
  "decode text input =
     (if nullish input then JNull
      else if input = JStr ''#1'' \<or> input = JStr ''#2'' then input
      else (let message = (case input of JStr s \<Rightarrow> s | _ \<Rightarrow> text input)
            in if \<not> validJSONStart message then JStr message
               else (case json_parse_text message of Inr v \<Rightarrow> v | Inl _ \<Rightarrow> JStr message)))"

subsection \<open>What arrives\<close>

text \<open>
  What JSON keeps of a value: undefined members are dropped, undefined elements and numbers that
  are not finite become null.
\<close>

fun settled :: "js \<Rightarrow> js" where
  "settled JUndef = JNull"
| "settled (JNum n) = (case n of Fin q \<Rightarrow> JNum (Fin q) | _ \<Rightarrow> JNull)"
| "settled (JArr xs) = JArr (map settled xs)"
| "settled (JObj kvs) = JObj (map (\<lambda>(k, v). (k, settled v)) (filter (\<lambda>(k, v). v \<noteq> JUndef) kvs))"
| "settled v = v"

text \<open>Data that can be sent: numbers are integers or not finite, and each key occurs once.\<close>

fun sendable :: "data \<Rightarrow> bool" where
  "sendable (Prim p) = (case p of JNum (Fin q) \<Rightarrow> q = of_int \<lfloor>q\<rfloor> \<and> \<bar>q\<bar> < 10 ^ 20 | JArr _ \<Rightarrow> False | JObj _ \<Rightarrow> False | _ \<Rightarrow> True)"
| "sendable (Items xs) = list_all sendable xs"
| "sendable (Members kvs) = (distinct (map fst kvs) \<and> list_all (\<lambda>(k, v). sendable v) kvs)"
| "sendable (Array_Buffer _) = True"
| "sendable (Buffer _) = True"

lemma settled_def_not: "settled v \<noteq> JUndef"
  by (cases v) (auto split: jnum.splits)

lemma json_text_settled: "json_text fmt (settled v) = json_text fmt v"
proof (induction v rule: settled.induct)
  case (2 n)
  then show ?case by (cases n) (simp_all add: number_text_def)
next
  case (3 xs)
  then have "map (json_text fmt) (map settled xs) = map (json_text fmt) xs" by simp
  then show ?case by (simp only: settled.simps json_text.simps)
next
  case (4 kvs)
  let ?kept = "filter (\<lambda>(k, v). v \<noteq> JUndef) kvs"
  have "map (\<lambda>(k, v). quote k @ '':'' @ json_text fmt v) (map (\<lambda>(k, v). (k, settled v)) ?kept)
      = map (\<lambda>(k, v). quote k @ '':'' @ json_text fmt v) ?kept"
    using 4 by (auto simp: o_def)
  moreover have "filter (\<lambda>(k, v). v \<noteq> JUndef) (map (\<lambda>(k, v). (k, settled v)) ?kept) = map (\<lambda>(k, v). (k, settled v)) ?kept"
    by (rule filter_True) (auto simp: settled_def_not)
  ultimately show ?case by (simp only: settled.simps json_text.simps)
qed simp_all

lemma distinct_kept: "distinct (map fst kvs) \<Longrightarrow> distinct (map fst (filter P kvs))"
  by (induction kvs) auto

lemma byte_sendable: "sendable (byte_item b)"
proof -
  obtain n where n: "n = unat b" "n < 256" using unat8 [of b] by blast
  have "\<bar>of_nat n :: rat\<bar> < 10 ^ 20"
  proof -
    have "(of_nat n :: rat) < of_nat 256" using n(2) by (simp only: of_nat_less_iff)
    then show ?thesis by simp
  qed
  then show ?thesis unfolding byte_item_def n(1) [symmetric] by simp
qed

lemma ready_sendable: "sendable v \<Longrightarrow> sendable (binaryToBase64Replacer h (to_json h v))"
  using byte_sendable by (cases v) (auto simp: binaryToBase64Replacer_def to_json_def packed_def buffer_object_def
      list_all_iff split: option.splits data.splits js.splits)

lemma plain_settled: "sendable v \<Longrightarrow> plain (settled (json_of h v))"
proof (induction h v rule: json_of.induct)
  case (1 h v)
  let ?r = "binaryToBase64Replacer h (to_json h v)"
  have r: "sendable ?r" using "1.prems" by (rule ready_sendable)
  show ?case
  proof (cases ?r)
    case (Prim p)
    then show ?thesis using r by (cases p) (auto simp: json_of.simps [of h v] split: jnum.splits)
  next
    case (Items xs)
    have "plain (settled (json_of h x))" if "x \<in> set xs" for x
      using "1.IH"(1) [OF Items that] r Items that by (simp add: list_all_iff)
    then show ?thesis by (simp add: json_of.simps [of h v] Items list_all_iff)
  next
    case (Members kvs)
    have "plain (settled (json_of h x))" if m: "(k, x) \<in> set kvs" for k x
      using "1.IH"(2) [OF Members m refl] r Members m by (auto simp: list_all_iff)
    moreover have "distinct (map fst (filter (\<lambda>(k, v). v \<noteq> JUndef) (map (\<lambda>(k, x). (k, json_of h x)) kvs)))"
      using r Members by (intro distinct_kept) (simp add: o_def case_prod_beta)
    ultimately show ?thesis by (auto simp: json_of.simps [of h v] Members list_all_iff o_def case_prod_beta)
  next
    case (Array_Buffer bs)
    then show ?thesis by (simp add: json_of.simps [of h v])
  next
    case (Buffer bs)
    have "sendable (byte_item b)" for b by (rule byte_sendable)
    then show ?thesis
      by (auto simp: json_of.simps [of h v] Buffer list_all_iff o_def byte_item_def distinct_map inj_on_def show_nat_inject simp del: of_nat_unat)
  qed
qed

lemma json_of_prim: "json_of h (Prim p) = p"
  by (simp add: json_of.simps [of h "Prim p"] binaryToBase64Replacer_def to_json_def)

text \<open>A text that does not start like an object or an array is passed on.\<close>

lemma valid_start: "validJSONStart s \<longleftrightarrow> (case skip_ws s of [] \<Rightarrow> False | c # _ \<Rightarrow> c = CHR ''{'' \<or> c = CHR ''['')"
proof -
  have "is_ws = (\<lambda>c. c \<in> {CHR '' '', CHR 0x0A, CHR 0x0D, CHR 0x09})" by (auto simp: is_ws_def)
  then show ?thesis by (simp add: validJSONStart_def skip_ws_def)
qed

lemma decode_other: "\<not> validJSONStart s \<Longrightarrow> decode text (JStr s) = JStr s"
  by (simp add: decode_def)

lemma decode_plain:
  assumes "plain v" and "(\<exists>xs. v = JArr xs) \<or> (\<exists>kvs. v = JObj kvs)"
  shows "decode text (JStr (json_text fmt v)) = v"
proof -
  have c: "\<exists>c t. json_text fmt v = c # t \<and> (c = CHR ''{'' \<or> c = CHR ''['')" using assms(2) by auto
  then have "validJSONStart (json_text fmt v)" by (auto simp: valid_start)
  then show ?thesis using c json_roundtrip [OF assms(1), of fmt] by (auto simp: decode_def)
qed

lemma primitive_text:
  assumes "sendable (Prim p)" and "p \<noteq> JUndef"
  shows "\<not> validJSONStart (json_text fmt p)"
proof (cases "\<exists>q. p = JNum (Fin q)")
  case True
  then have "plain p" using assms(1) by auto
  then have "starts (json_text fmt p)" "hd (json_text fmt p) \<notin> {CHR 0x22, CHR ''['', CHR ''{''}"
    using True literal_number(2,3) [of _ "[]" fmt] by (auto simp: ends_def)
  then show ?thesis by (cases "json_text fmt p") (auto simp: valid_start starts_def)
next
  case False
  then show ?thesis
    using assms by (cases p) (auto simp: valid_start quote_def number_text_def split: jnum.splits)
qed

lemma value_arrives:
  assumes "sendable v" and "\<forall>p. v \<noteq> Prim p"
  shows "decode text (encode h fmt v) = settled (json_of h v)"
proof -
  have "\<exists>xs. json_of h v = JArr xs" if "binaryToBase64Replacer h (to_json h v) = Items xs" for xs
    using that by (simp add: json_of.simps [of h v])
  moreover have "binaryToBase64Replacer h (to_json h v) \<noteq> Prim p" for p
    using assms(2) by (cases v) (auto simp: binaryToBase64Replacer_def to_json_def packed_def buffer_object_def
        split: option.splits data.splits js.splits)
  ultimately have "(\<exists>xs. json_of h v = JArr xs) \<or> (\<exists>kvs. json_of h v = JObj kvs)"
    by (cases "binaryToBase64Replacer h (to_json h v)") (auto simp: json_of.simps [of h v])
  then have shape: "(\<exists>xs. settled (json_of h v) = JArr xs) \<or> (\<exists>kvs. settled (json_of h v) = JObj kvs)" "json_of h v \<noteq> JUndef" by auto
  have "decode text (JStr (json_text fmt (settled (json_of h v)))) = settled (json_of h v)"
    using plain_settled [OF assms(1)] shape(1) by (rule decode_plain)
  then show ?thesis using assms(2) shape(2) by (simp add: encode_def stringify_def json_text_settled)
qed

text \<open>
  C14: Whatever the globals of the page, an object, an array or binary data that is sent arrives as
  the value the replacer made of it, without what JSON cannot carry, and the pings arrive as they
  are; but other primitives arrive as their JSON text, and nothing as null.
\<close>

theorem formatter_roundtrip:
  assumes "sendable v"
  shows "decode text (encode h fmt v) =
    (case v of
       Prim p \<Rightarrow> if p = JUndef then JNull else if p \<in> {JStr ''#1'', JStr ''#2''} then p else JStr (json_text fmt p)
     | _ \<Rightarrow> settled (json_of h v))"
proof (cases "\<exists>p. v = Prim p")
  case True
  then obtain p where p: "v = Prim p" by blast
  then show ?thesis
    using decode_other [OF primitive_text [of p fmt]] assms
    by (auto simp: encode_def stringify_def json_of_prim) (auto simp: decode_def)
next
  case False
  then show ?thesis using value_arrives [OF assms] by (cases v) simp_all
qed

text \<open>A browser without Buffer, and a packet with a binary member and an undefined one.\<close>

definition browser :: host where
  "browser = \<lparr>array_buffers = True, buffers = False, buffer_json = False, buffer_from = (\<lambda>_. []), buffer_base64 = (\<lambda>_. [])\<rparr>"

lemma json_of_simps:
  "json_of h (Members kvs) = (case binaryToBase64Replacer h (Members kvs) of Members kvs \<Rightarrow> JObj (map (\<lambda>(k, x). (k, json_of h x)) kvs) | _ \<Rightarrow> json_of h (Members kvs))"
  "array_buffers h \<Longrightarrow> json_of h (Array_Buffer bs) = JObj [(''base64'', JBool True), (''data'', JStr (arrayBufferToBase64 bs))]"
  "json_of h (Items xs) = JArr (map (json_of h) xs)"
  by (simp_all add: json_of.simps [of h "Members kvs"] json_of.simps [of h "Array_Buffer bs"] json_of.simps [of h "Items xs"]
      binaryToBase64Replacer_def to_json_def packed_def json_of_prim split: data.splits)

theorem formatter_roundtrip_witness:
  "decode (\<lambda>_. []) (encode browser (\<lambda>_. []) (Items [Array_Buffer [104, 105], Prim JUndef, Prim (JStr ''a'')]))
     = JArr [JObj [(''base64'', JBool True), (''data'', JStr ''aGk='')], JNull, JStr ''a'']"
proof -
  have "sendable (Items [Array_Buffer [104, 105], Prim JUndef, Prim (JStr ''a'')])" by simp
  moreover have "arrayBufferToBase64 [104, 105] = ''aGk=''"
    by code_simp
  ultimately show ?thesis
    by (simp add: formatter_roundtrip json_of_simps json_of_prim browser_def)
qed

subsection \<open>Binary data\<close>

lemma packed_binary:
  assumes "b = Array_Buffer bs \<and> array_buffers h \<or> b = Buffer bs \<and> buffers h"
    and "\<forall>bs. buffer_from h (map byte_item bs) = bs \<and> buffer_base64 h bs = fromByteArray bs"
  shows "binaryToBase64Replacer h (to_json h b) = packed (fromByteArray bs)"
  using assms by (auto simp: binaryToBase64Replacer_def to_json_def buffer_object_def formatter_ref)

lemma json_of_packed: "binaryToBase64Replacer h (to_json h v) = packed s \<Longrightarrow> json_of h v = JObj [(''base64'', JBool True), (''data'', JStr s)]"
  by (simp add: json_of.simps [of h v] packed_def json_of_prim)

text \<open>
  C25: The bytes of a binary member of a packet survive it: the other side finds, under the same
  name, an object marked \<open>base64\<close> whose text decodes to exactly the bytes.
\<close>

theorem binary_survives:
  assumes "sendable (Members kvs)" and "map_of kvs k = Some b"
    and "b = Array_Buffer bs \<and> array_buffers h \<or> b = Buffer bs \<and> buffers h"
    and "\<forall>bs. buffer_from h (map byte_item bs) = bs \<and> buffer_base64 h bs = fromByteArray bs"
    and "\<not> buffers h \<or> map_of kvs ''type'' \<noteq> Some (Prim (JStr ''Buffer''))"
  shows "\<exists>s. get (decode text (encode h fmt (Members kvs))) k = JObj [(''base64'', JBool True), (''data'', JStr s)]
    \<and> toByteArray s = Inr bs"
proof -
  have "binaryToBase64Replacer h (to_json h (Members kvs)) = Members kvs"
    using assms(5) by (auto simp: binaryToBase64Replacer_def to_json_def split: option.splits data.splits js.splits)
  then have v: "json_of h (Members kvs) = JObj (map (\<lambda>(k, x). (k, json_of h x)) kvs)"
    by (simp add: json_of.simps [of h "Members kvs"])
  have b: "json_of h b = JObj [(''base64'', JBool True), (''data'', JStr (fromByteArray bs))]"
    using packed_binary [OF assms(3,4)] by (rule json_of_packed)
  have d: "decode text (encode h fmt (Members kvs)) = settled (json_of h (Members kvs))"
    using assms(1) by (rule value_arrives) simp
  have "get (settled (JObj (map (\<lambda>(k, x). (k, json_of h x)) kvs))) k = settled (json_of h b)"
    using assms(2) b by (induction kvs) auto
  then show ?thesis using b toByteArray_roundtrip [of bs] by (auto simp: d v)
qed

text \<open>A page with a Buffer that has \<open>toJSON\<close>, so that the replacer sees an object.\<close>

fun item_byte :: "data \<Rightarrow> 8 word" where
  "item_byte (Prim (JNum (Fin q))) = of_int \<lfloor>q\<rfloor>"
| "item_byte _ = 0"

definition node_page :: host where
  "node_page = \<lparr>array_buffers = True, buffers = True, buffer_json = True, buffer_from = map item_byte, buffer_base64 = fromByteArray\<rparr>"

lemma item_byte_item: "item_byte (byte_item b) = b"
proof -
  have "item_byte (byte_item b) = of_nat (unat b)" by (simp add: byte_item_def del: of_nat_unat)
  then show ?thesis by simp
qed

theorem binary_survives_witness:
  "\<exists>s. get (decode (\<lambda>_. []) (encode node_page (\<lambda>_. []) (Members [(''cid'', Prim (JNum (Fin 1))), (''file'', Buffer [255, 0, 7])]))) ''file''
      = JObj [(''base64'', JBool True), (''data'', JStr s)] \<and> toByteArray s = Inr [255, 0, 7]"
  by (rule binary_survives [where b = "Buffer [255, 0, 7]"]) (simp_all add: node_page_def o_def item_byte_item)

end
