(* ===== verification/Buf_Text.thy ===== *)
theory Buf_Text
  imports Base64
begin

text \<open>
  The text side of the Buffer of the bundle (module 10 of \<open>socketcluster.js\<close>): the encodings
  \<open>utf8\<close>, \<open>hex\<close>, \<open>ascii\<close>, \<open>latin1\<close>, \<open>base64\<close> and \<open>ucs2\<close>, both ways. A text is the list of its
  UTF-16 code units, a buffer the list of its bytes. What is written goes through \<open>write\<close>, which
  never writes past the end; what is read is the part between \<open>start\<close> and \<open>end\<close>.
\<close>

type_synonym units = "nat list"
type_synonym bytes = "8 word list"

definition range_error :: "string \<Rightarrow> exn" where
  "range_error m = Thrown (JObj [(''name'', JStr ''RangeError''), (''message'', JStr m)])"

definition type_error :: "string \<Rightarrow> exn" where
  "type_error m = Thrown (JObj [(''name'', JStr ''TypeError''), (''message'', JStr m)])"

definition units_of :: "string \<Rightarrow> units" where
  "units_of = map of_char"

subsection \<open>UTF-8: from text to bytes\<close>

definition lead :: "nat \<Rightarrow> bool" where
  "lead c \<longleftrightarrow> 0xD7FF < c \<and> c < 0xDC00"

definition trail :: "nat \<Rightarrow> bool" where
  "trail c \<longleftrightarrow> 0xDBFF < c \<and> c < 0xE000"

text \<open>\<open>units\<close> counts the bytes that may still be written; \<open>None\<close> is \<open>Infinity\<close>.\<close>

definition spend :: "int \<Rightarrow> int option \<Rightarrow> int option" where
  "spend n units = map_option (\<lambda>u. u - n) units"

definition spent :: "int option \<Rightarrow> bool" where
  "spent units \<longleftrightarrow> (case units of None \<Rightarrow> False | Some u \<Rightarrow> u < 0)"

definition before :: "nat list \<Rightarrow> exn + nat list \<Rightarrow> exn + nat list" where
  "before bs r = (case r of Inl e \<Rightarrow> Inl e | Inr cs \<Rightarrow> Inr (bs @ cs))"

definition replacement :: "int option \<Rightarrow> nat list" where
  "replacement units = (if spent units then [] else [0xEF, 0xBF, 0xBD])"

definition utf8_bytes :: "nat \<Rightarrow> nat list option" where
  "utf8_bytes cp =
     (if cp < 0x80 then Some [cp]
      else if cp < 0x800 then Some [drop_bit 6 cp OR 0xC0, cp AND 0x3F OR 0x80]
      else if cp < 0x10000 then Some [drop_bit 12 cp OR 0xE0, drop_bit 6 cp AND 0x3F OR 0x80, cp AND 0x3F OR 0x80]
      else if cp < 0x110000 then
        Some [drop_bit 18 cp OR 0xF0, drop_bit 12 cp AND 0x3F OR 0x80, drop_bit 6 cp AND 0x3F OR 0x80, cp AND 0x3F OR 0x80]
      else None)"

definition pair_point :: "nat \<Rightarrow> nat \<Rightarrow> nat" where
  "pair_point l c = (push_bit 10 (l - 0xD800) OR (c - 0xDC00)) + 0x10000"

text \<open>A code point is written if there is room for all of it; otherwise the loop ends.\<close>

definition encode_point :: "nat \<Rightarrow> int option \<Rightarrow> (int option \<Rightarrow> exn + nat list) \<Rightarrow> exn + nat list" where
  "encode_point cp units rest =
     (case utf8_bytes cp of
        None \<Rightarrow> Inl (Thrown (JStr ''Invalid code point''))
      | Some bs \<Rightarrow> (let u = spend (int (length bs)) units in if spent u then Inr [] else before bs (rest u)))"

text \<open>The loop, with the lead surrogate that waits for its other half.\<close>

fun utf8_loop :: "units \<Rightarrow> int option \<Rightarrow> nat option \<Rightarrow> exn + nat list" where
  "utf8_loop [] units leadSurrogate = Inr []"
| "utf8_loop (c # cs) units leadSurrogate =
     (let u3 = spend 3 units
      in if 0xD7FF < c \<and> c < 0xE000 then
           (case leadSurrogate of
              None \<Rightarrow>
                if c > 0xDBFF then before (replacement u3) (utf8_loop cs u3 None)
                else if cs = [] then before (replacement u3) (utf8_loop cs u3 None)
                else utf8_loop cs units (Some c)
            | Some l \<Rightarrow>
                if c < 0xDC00 then before (replacement u3) (utf8_loop cs u3 (Some c))
                else encode_point (pair_point l c) units (\<lambda>u. utf8_loop cs u None))
         else (case leadSurrogate of
              None \<Rightarrow> encode_point c units (\<lambda>u. utf8_loop cs u None)
            | Some _ \<Rightarrow> before (replacement u3) (encode_point c u3 (\<lambda>u. utf8_loop cs u None))))"

lemma limit_simps [simp]:
  "spend n None = None" "spent None = False" "spend n (Some u) = Some (u - n)" "spent (Some u) = (u < 0)"
  by (simp_all add: spend_def spent_def)

lemma replacement_None [simp]: "replacement None = [0xEF, 0xBF, 0xBD]"
  by (simp add: replacement_def)

lemma before_Inr: "before xs r = Inr bs \<longleftrightarrow> (\<exists>ys. r = Inr ys \<and> bs = xs @ ys)"
  by (auto simp: before_def split: sum.splits)

lemma encode_point_eq: "utf8_bytes p = Some xs \<Longrightarrow> encode_point p None f = before xs (f None)"
  by (simp add: encode_point_def)

definition utf8ToBytes :: "units \<Rightarrow> int option \<Rightarrow> exn + nat list" where
  "utf8ToBytes s units = utf8_loop s (if units = Some 0 then None else units) None"

subsection \<open>UTF-8: from bytes to text\<close>

definition seq_length :: "nat \<Rightarrow> nat" where
  "seq_length b = (if b > 0xEF then 4 else if b > 0xDF then 3 else if b > 0xBF then 2 else 1)"

definition continues :: "nat \<Rightarrow> bool" where
  "continues b \<longleftrightarrow> b AND 0xC0 = 0x80"

definition keep_if :: "bool \<Rightarrow> nat \<Rightarrow> nat option" where
  "keep_if b n = (if b then Some n else None)"

text \<open>The code point that starts what is left of the window, if it is well-formed.\<close>

definition point_at :: "nat list \<Rightarrow> nat option" where
  "point_at r =
     (let a = r ! 0; n = seq_length a in
      if length r < n then None
      else if n = 1 then keep_if (a < 0x80) a
      else if n = 2 then
        (let p = push_bit 6 (a AND 0x1F) OR (r ! 1 AND 0x3F)
         in keep_if (continues (r ! 1) \<and> p > 0x7F) p)
      else if n = 3 then
        (let p = push_bit 12 (a AND 0xF) OR push_bit 6 (r ! 1 AND 0x3F) OR (r ! 2 AND 0x3F)
         in keep_if (continues (r ! 1) \<and> continues (r ! 2) \<and> p > 0x7FF \<and> (p < 0xD800 \<or> p > 0xDFFF)) p)
      else
        (let p = push_bit 18 (a AND 0xF) OR push_bit 12 (r ! 1 AND 0x3F) OR push_bit 6 (r ! 2 AND 0x3F) OR (r ! 3 AND 0x3F)
         in keep_if (continues (r ! 1) \<and> continues (r ! 2) \<and> continues (r ! 3) \<and> p > 0xFFFF \<and> p < 0x110000) p))"

definition utf16 :: "nat \<Rightarrow> units" where
  "utf16 cp =
     (if cp > 0xFFFF then [drop_bit 10 (cp - 0x10000) AND 0x3FF OR 0xD800, 0xDC00 OR (cp - 0x10000) AND 0x3FF] else [cp])"

function utf8_points :: "nat list \<Rightarrow> units" where
  "utf8_points r =
     (if r = [] then []
      else (case point_at r of
          None \<Rightarrow> 0xFFFD # utf8_points (drop 1 r)
        | Some p \<Rightarrow> utf16 p @ utf8_points (drop (seq_length (r ! 0)) r)))"
  by pat_completeness auto
termination
  by (relation "measure length") (auto simp: seq_length_def)

declare utf8_points.simps [simp del]

text \<open>The window between two indices, and \<open>fromCharCode\<close> in chunks of 4096.\<close>

definition window :: "bytes \<Rightarrow> nat \<Rightarrow> nat \<Rightarrow> nat list" where
  "window buf start e = map unat (drop start (take e buf))"

function decodeCodePointsArray :: "units \<Rightarrow> units" where
  "decodeCodePointsArray ps =
     (if length ps \<le> 0x1000 then map (\<lambda>c. c mod 65536) ps
      else map (\<lambda>c. c mod 65536) (take 0x1000 ps) @ decodeCodePointsArray (drop 0x1000 ps))"
  by pat_completeness auto
termination
  by (relation "measure length") auto

declare decodeCodePointsArray.simps [simp del]

definition utf8Slice :: "bytes \<Rightarrow> nat \<Rightarrow> nat \<Rightarrow> units" where
  "utf8Slice buf start e = decodeCodePointsArray (utf8_points (window buf start e))"

subsection \<open>UTF-8 of one code point\<close>

lemma and_high: "y AND push_bit k m = push_bit k (drop_bit k y AND (m :: nat))"
  by (rule bit_eqI) (auto simp: bit_simps)

lemma or_mark:
  "x < 64 \<Longrightarrow> x OR 0x80 = x + (128 :: nat)" "x < 32 \<Longrightarrow> x OR 0xC0 = x + (192 :: nat)"
  "x < 16 \<Longrightarrow> x OR 0xE0 = x + (224 :: nat)" "x < 8 \<Longrightarrow> x OR 0xF0 = x + (240 :: nat)"
  using or_push [of x 6 2] or_push [of x 5 6] or_push [of x 4 14] or_push [of x 3 30]
  by (simp_all add: or.commute push_bit_eq_mult)

lemma and31: "(x::nat) AND 31 = x mod 32"
  using take_bit_eq_mask [of 5 x] by (simp add: mask_eq_exp_minus_1 take_bit_eq_mod)

lemma mod_shift: "x < m \<Longrightarrow> (x + k * m) mod m = (x :: nat)"
  by simp

lemma continuation:
  assumes "x < 64"
  shows "continues (x + 128)" and "(x + 128) AND 0x3F = x"
proof -
  have "(x + 128) AND push_bit 6 3 = push_bit 6 (drop_bit 6 (x + 128) AND (3::nat))" by (rule and_high)
  moreover have "drop_bit 6 (x + 128) = 2" using assms by (simp add: drop_bit_eq_div)
  ultimately show "continues (x + 128)" by (simp add: continues_def push_bit_eq_mult and3)
  show "(x + 128) AND 0x3F = x" using mod_shift [OF assms, of 2] by (simp add: and63)
qed

lemma first_byte:
  "x < 32 \<Longrightarrow> (x + 192) AND 0x1F = (x :: nat)" "x < 16 \<Longrightarrow> (x + 224) AND 0xF = (x :: nat)" "x < 8 \<Longrightarrow> (x + 240) AND 0xF = (x :: nat)"
  using mod_shift [of x 32 6] mod_shift [of x 16 14] mod_shift [of x 16 15] by (simp_all add: and31 and15)

lemma sextets_or:
  "b < 64 \<Longrightarrow> push_bit 6 a OR b = 64 * a + (b :: nat)"
  "b < 64 \<Longrightarrow> c < 64 \<Longrightarrow> push_bit 12 a OR push_bit 6 b OR c = 4096 * a + 64 * b + (c :: nat)"
  "b < 64 \<Longrightarrow> c < 64 \<Longrightarrow> d < 64 \<Longrightarrow> push_bit 18 a OR push_bit 12 b OR push_bit 6 c OR d = 262144 * a + 4096 * b + 64 * c + (d :: nat)"
proof -
  have p: "push_bit 6 a = 64 * a" "push_bit 12 a = 4096 * a" "push_bit 18 a = 262144 * a" for a :: nat by (simp_all add: push_bit_eq_mult)
  show a: "push_bit 6 a OR b = 64 * a + b" if "b < 64" for a b :: nat
    using or_push [of b 6 a] that by (simp add: p)
  show b: "push_bit 12 a OR push_bit 6 b OR c = 4096 * a + 64 * b + c" if "b < 64" "c < 64" for a b c :: nat
    using or_push [of "64 * b + c" 12 a] that unfolding a [OF that(2)] by (simp add: p)
  show "push_bit 18 a OR push_bit 12 b OR push_bit 6 c OR d = 262144 * a + 4096 * b + 64 * c + d" if "b < 64" "c < 64" "d < 64"
    using or_push [of "4096 * b + 64 * c + d" 18 a] that unfolding b [OF that(2,3)] by (simp add: p)
qed

lemma sextets_sum:
  "64 * (p div 64) + p mod 64 = (p :: nat)"
  "4096 * (p div 4096) + 64 * (p div 64 mod 64) + p mod 64 = (p :: nat)"
  "262144 * (p div 262144) + 4096 * (p div 4096 mod 64) + 64 * (p div 64 mod 64) + p mod 64 = (p :: nat)"
proof -
  have d: "p div 4096 = p div 64 div 64" "p div 262144 = p div 64 div 64 div 64" by (simp_all flip: div_mult2_eq)
  show a: "64 * (p div 64) + p mod 64 = p" for p :: nat by simp
  show b: "4096 * (p div 4096) + 64 * (p div 64 mod 64) + p mod 64 = p"
    using a [of p] a [of "p div 64"] unfolding d by linarith
  show "262144 * (p div 262144) + 4096 * (p div 4096 mod 64) + 64 * (p div 64 mod 64) + p mod 64 = p"
    using b a [of "p div 64 div 64"] unfolding d by linarith
qed

definition scalar :: "nat \<Rightarrow> bool" where
  "scalar p \<longleftrightarrow> p < 0x110000 \<and> \<not> (0xD7FF < p \<and> p < 0xE000)"

text \<open>The bytes of a code point, as numbers.\<close>

lemma utf8_bytes_num:
  "utf8_bytes p =
     (if p < 0x80 then Some [p]
      else if p < 0x800 then Some [p div 64 + 192, p mod 64 + 128]
      else if p < 0x10000 then Some [p div 4096 + 224, p div 64 mod 64 + 128, p mod 64 + 128]
      else if p < 0x110000 then Some [p div 262144 + 240, p div 4096 mod 64 + 128, p div 64 mod 64 + 128, p mod 64 + 128]
      else None)"
  unfolding utf8_bytes_def and63 drop_bit_eq_div by (simp add: or_mark less_mult_imp_div_less)

lemma point2:
  assumes "a < 32" "b < 64" "64 * a + b > 0x7F"
  shows "point_at ([a + 192, b + 128] @ r) = Some (64 * a + b)"
  using assms by (simp add: point_at_def seq_length_def keep_if_def Let_def continuation first_byte sextets_or)

lemma point3:
  assumes "a < 16" "b < 64" "c < 64" "p = 4096 * a + 64 * b + c" "p > 0x7FF" "p < 0xD800 \<or> p > 0xDFFF"
  shows "point_at ([a + 224, b + 128, c + 128] @ r) = Some p"
proof -
  have s: "seq_length (a + 224) = 3" using assms by (simp add: seq_length_def)
  have "push_bit 12 ((a + 224) AND 0xF) OR push_bit 6 ((b + 128) AND 0x3F) OR ((c + 128) AND 0x3F) = p"
    using assms by (simp only: first_byte continuation) (simp only: sextets_or(2))
  then show ?thesis
    using assms(1-3,5,6) s continuation(1) [of b] continuation(1) [of c]
    by (simp add: point_at_def Let_def keep_if_def numeral_2_eq_2)
qed

lemma point4:
  assumes "a < 8" "b < 64" "c < 64" "d < 64" "p = 262144 * a + 4096 * b + 64 * c + d" "p > 0xFFFF" "p < 0x110000"
  shows "point_at ([a + 240, b + 128, c + 128, d + 128] @ r) = Some p"
proof -
  have s: "seq_length (a + 240) = 4" using assms by (simp add: seq_length_def)
  have "push_bit 18 ((a + 240) AND 0xF) OR push_bit 12 ((b + 128) AND 0x3F) OR push_bit 6 ((c + 128) AND 0x3F) OR ((d + 128) AND 0x3F) = p"
    using assms by (simp only: first_byte continuation) (simp only: sextets_or(3))
  then show ?thesis
    using assms(1-4,6,7) s continuation(1) [of b] continuation(1) [of c] continuation(1) [of d]
    by (simp add: point_at_def Let_def keep_if_def numeral_2_eq_2 numeral_3_eq_3)
qed

lemma point_at_bytes:
  assumes "scalar p"
  obtains bs where "utf8_bytes p = Some bs" "bs \<noteq> []" "list_all (\<lambda>b. b < 256) bs" "length bs = seq_length (bs ! 0)"
    "\<And>r. point_at (bs @ r) = Some p"
proof -
  have p: "p < 0x110000" "\<not> (0xD7FF < p \<and> p < 0xE000)" using assms by (auto simp: scalar_def)
  have m: "x mod 64 < (64::nat)" for x by simp
  consider "p < 0x80" | "0x80 \<le> p" "p < 0x800" | "0x800 \<le> p" "p < 0x10000" | "0x10000 \<le> p" "p < 0x110000" using p(1) by linarith
  then show thesis
  proof cases
    case 1
    show thesis
      by (rule that [of "[p]"]) (use 1 in \<open>simp_all add: utf8_bytes_num seq_length_def point_at_def keep_if_def\<close>)
  next
    case 2
    obtain a b where d: "a = p div 64" "b = p mod 64" "a < 32" "b < 64" using 2 by (simp add: less_mult_imp_div_less)
    then have b: "utf8_bytes p = Some [a + 192, b + 128]" "p = 64 * a + b" using 2 by (simp_all add: utf8_bytes_num)
    show thesis
      by (rule that [OF b(1)]) (use 2 b(2) d(3,4) point2 [of a b] in \<open>simp_all add: seq_length_def\<close>)
  next
    case 3
    obtain a b c where d: "a = p div 4096" "b = p div 64 mod 64" "c = p mod 64" "a < 16" "b < 64" "c < 64"
      using 3 by (simp add: less_mult_imp_div_less)
    then have b: "utf8_bytes p = Some [a + 224, b + 128, c + 128]" "p = 4096 * a + 64 * b + c"
      using 3 sextets_sum(2) [of p] by (simp_all add: utf8_bytes_num)
    have "p < 0xD800 \<or> p > 0xDFFF" using p(2) by auto
    then show thesis
      by (intro that [OF b(1)]) (use 3 d(4-6) point3 [OF d(4-6) b(2)] in \<open>simp_all add: seq_length_def linorder_not_less\<close>)
  next
    case 4
    obtain a b c d where d: "a = p div 262144" "b = p div 4096 mod 64" "c = p div 64 mod 64" "d = p mod 64" "a < 8" "b < 64" "c < 64" "d < 64"
      using 4 by (simp add: less_mult_imp_div_less)
    then have b: "utf8_bytes p = Some [a + 240, b + 128, c + 128, d + 128]" "p = 262144 * a + 4096 * b + 64 * c + d"
      using 4 sextets_sum(3) [of p] by (simp_all add: utf8_bytes_num)
    show thesis
      by (rule that [OF b(1)]) (use 4 d(5-8) point4 [OF d(5-8) b(2)] in \<open>simp_all add: seq_length_def\<close>)
  qed
qed

subsection \<open>UTF-8 of a text\<close>

text \<open>Every surrogate that is not in a pair becomes the replacement character.\<close>

fun scrub :: "units \<Rightarrow> units" where
  "scrub [] = []"
| "scrub [a] = [if lead a \<or> trail a then 0xFFFD else a]"
| "scrub (a # b # r) =
     (if lead a \<and> trail b then a # b # scrub r else (if lead a \<or> trail a then 0xFFFD else a) # scrub (b # r))"

text \<open>The last of two lead surrogates at the end is lost.\<close>

definition cut_end :: "units \<Rightarrow> units" where
  "cut_end s = (if length s \<ge> 2 \<and> lead (last s) \<and> lead (last (butlast s)) then butlast s else s)"

definition arrives :: "nat list \<Rightarrow> units \<Rightarrow> bool" where
  "arrives bs t \<longleftrightarrow> list_all (\<lambda>b. b < 256) bs \<and> (\<forall>r. utf8_points (bs @ r) = t @ utf8_points r)"

lemma arrives_append: "arrives bs t \<Longrightarrow> arrives bs' t' \<Longrightarrow> arrives (bs @ bs') (t @ t')"
  by (simp add: arrives_def)

lemma arrives_Nil: "arrives [] []"
  by (simp add: arrives_def)

lemma arrives_point:
  assumes "scalar p"
  shows "\<exists>bs. utf8_bytes p = Some bs \<and> arrives bs (utf16 p)"
proof -
  obtain bs where bs: "utf8_bytes p = Some bs" "bs \<noteq> []" "list_all (\<lambda>b. b < 256) bs" "length bs = seq_length (bs ! 0)"
    "\<And>r. point_at (bs @ r) = Some p" using assms by (rule point_at_bytes) blast
  have "utf8_points (bs @ r) = utf16 p @ utf8_points r" for r
    using bs by (simp add: utf8_points.simps [of "bs @ r"] nth_append flip: bs(4))
  then show ?thesis using bs by (auto simp: arrives_def)
qed

lemma arrives_replacement: "arrives [0xEF, 0xBF, 0xBD] [0xFFFD]"
proof -
  have "utf8_bytes 0xFFFD = Some [0xEF, 0xBF, 0xBD]" "utf16 0xFFFD = [0xFFFD]" "scalar 0xFFFD"
    by (simp_all add: utf8_bytes_num utf16_def scalar_def)
  then show ?thesis using arrives_point by fastforce
qed

lemma surrogates:
  assumes "lead l" and "trail c"
  shows "scalar (pair_point l c)" and "utf16 (pair_point l c) = [l, c]"
proof -
  obtain a where a: "l = 54 * 1024 + a" "a < 1024" using assms(1) that [of "l - 55296"] by (auto simp: lead_def)
  obtain b where b: "c = 55 * 1024 + b" "b < 1024" using assms(2) that [of "c - 56320"] by (auto simp: trail_def)
  have p: "pair_point l c = a * 1024 + b + 65536" using or_push [of b 10 a] a b by (simp add: pair_point_def push_bit_eq_mult)
  show "scalar (pair_point l c)" unfolding p scalar_def using a(2) b(2) by auto
  have m: "x AND 1023 = x mod 1024" for x :: nat using take_bit_eq_mask [of 10 x] by (simp add: take_bit_eq_mod mask_eq_exp_minus_1)
  have "a OR 55296 = 55296 + a" "56320 OR b = 56320 + b"
    using or_push [of a 10 54] or_push [of b 10 55] a b by (simp_all add: push_bit_eq_mult or.commute)
  then show "utf16 (pair_point l c) = [l, c]"
    unfolding p utf16_def drop_bit_eq_div m using a(2) split_radix [OF b(2), of a] by (simp add: a(1) b(1))
qed

lemma cut_Cons: "\<not> lead x \<or> length s \<ge> 2 \<Longrightarrow> cut_end (x # s) = x # cut_end s"
proof -
  assume a: "\<not> lead x \<or> length s \<ge> 2"
  consider "s = []" | y where "s = [y]" | ys y z where "s = ys @ [y, z]"
    by (cases s rule: rev_cases; cases "butlast s" rule: rev_cases) auto
  then show ?thesis using a by cases (auto simp: cut_end_def butlast_append)
qed

lemma cut_head: "s \<noteq> [] \<Longrightarrow> \<exists>d. cut_end (c # s) = c # d"
  by (auto simp: cut_end_def)

lemma scrub_single: "\<not> lead a \<Longrightarrow> scrub (a # s) = (if trail a then 0xFFFD else a) # scrub s"
  by (cases s) auto

lemma scrub_alone: "\<not> trail b \<Longrightarrow> scrub (a # b # s) = (if lead a \<or> trail a then 0xFFFD else a) # scrub (b # s)"
  by simp

text \<open>The loop without a limit, with and without a lead surrogate that waits.\<close>

definition gives :: "exn + nat list \<Rightarrow> units \<Rightarrow> bool" where
  "gives r t \<longleftrightarrow> (\<exists>bs. r = Inr bs \<and> arrives bs t)"

lemma gives_before: "arrives bs t \<Longrightarrow> gives r t' \<Longrightarrow> gives (before bs r) (t @ t')"
  by (auto simp: gives_def before_def intro: arrives_append)

lemma loop_points:
  assumes "c < 65536" and "\<not> lead c" "\<not> trail c"
  shows "\<exists>bs. utf8_bytes c = Some bs \<and> arrives bs [c]"
  using arrives_point [of c] assms by (auto simp: scalar_def utf16_def lead_def trail_def)

lemma utf8_loop_gives:
  assumes "list_all (\<lambda>c. c < 65536) s"
  shows "gives (utf8_loop s None None) (scrub (cut_end s))
    \<and> (\<forall>l. lead l \<longrightarrow> gives (utf8_loop s None (Some l)) (if s = [] then [] else scrub (cut_end (l # s))))"
  using assms
proof (induction s)
  case Nil
  then show ?case by (simp add: gives_def arrives_Nil cut_end_def)
next
  case (Cons c cs)
  have c: "c < 65536" using Cons.prems by simp
  have none: "gives (utf8_loop cs None None) (scrub (cut_end cs))" and some: "\<And>l. lead l \<Longrightarrow> gives (utf8_loop cs None (Some l)) (if cs = [] then [] else scrub (cut_end (l # cs)))"
    using Cons by auto
  note fffd = gives_before [OF arrives_replacement]
  consider "lead c" | "trail c" | "\<not> lead c" "\<not> trail c" by blast
  then show ?case
  proof cases
    case 1
    then have r: "0xD7FF < c" "c < 0xE000" "\<not> c > 0xDBFF" "c < 0xDC00" "\<not> trail c" by (auto simp: lead_def trail_def)
    have "gives (utf8_loop (c # cs) None None) (scrub (cut_end (c # cs)))"
    proof (cases "cs = []")
      case True
      then show ?thesis using r 1 fffd [OF none] by (simp add: cut_end_def)
    qed (use r some [OF 1] in simp)
    moreover have "gives (utf8_loop (c # cs) None (Some l)) (scrub (cut_end (l # c # cs)))" if l: "lead l" for l
    proof (cases "cs = []")
      case True
      then show ?thesis using r 1 l fffd [OF some [OF 1]] by (simp add: cut_end_def)
    next
      case False
      then obtain d where "cut_end (c # cs) = c # d" using cut_head by blast
      moreover have "cut_end (l # c # cs) = l # cut_end (c # cs)" using False by (intro cut_Cons) (cases cs; simp)
      ultimately have "scrub (cut_end (l # c # cs)) = 0xFFFD # scrub (cut_end (c # cs))" using l r(5) by simp
      then show ?thesis using r fffd [OF some [OF 1]] False by simp
    qed
    ultimately show ?thesis by simp
  next
    case 2
    then have r: "0xD7FF < c" "c < 0xE000" "c > 0xDBFF" "\<not> c < 0xDC00" "\<not> lead c" by (auto simp: lead_def trail_def)
    have "gives (utf8_loop (c # cs) None None) (scrub (cut_end (c # cs)))"
      using r 2 fffd [OF none] by (simp add: cut_Cons scrub_single)
    moreover have "gives (utf8_loop (c # cs) None (Some l)) (scrub (cut_end (l # c # cs)))" if l: "lead l" for l
    proof -
      have "cut_end (l # c # cs) = l # c # cut_end cs"
        using cut_Cons [of l "c # cs"] cut_Cons [of c cs] r(5) by (cases cs) (auto simp: cut_end_def)
      moreover obtain bs where "utf8_bytes (pair_point l c) = Some bs" "arrives bs [l, c]"
        using arrives_point surrogates [OF l 2] by metis
      moreover from this(2) have "gives (before bs (utf8_loop cs None None)) ([l, c] @ scrub (cut_end cs))"
        using none by (rule gives_before)
      ultimately show ?thesis using r l 2 by (simp add: encode_point_eq)
    qed
    ultimately show ?thesis by simp
  next
    case 3
    then have r: "\<not> (0xD7FF < c \<and> c < 0xE000)" by (auto simp: lead_def trail_def)
    obtain bs where bs: "utf8_bytes c = Some bs" "arrives bs [c]" using loop_points [OF c 3] by blast
    have g: "gives (before bs (utf8_loop cs None None)) (c # scrub (cut_end cs))" using gives_before [OF bs(2) none] by simp
    have "gives (utf8_loop (c # cs) None None) (scrub (cut_end (c # cs)))"
      using r bs g 3 by (cases "0xD7FF < c") (simp_all add: cut_Cons scrub_single encode_point_eq)
    moreover have "gives (utf8_loop (c # cs) None (Some l)) (scrub (cut_end (l # c # cs)))" if l: "lead l" for l
    proof -
      have "cut_end (l # c # cs) = l # c # cut_end cs"
        using cut_Cons [of l "c # cs"] cut_Cons [of c cs] 3 by (cases cs) (auto simp: cut_end_def)
      then have "scrub (cut_end (l # c # cs)) = 0xFFFD # c # scrub (cut_end cs)" using l 3 by (simp add: scrub_single)
      then show ?thesis using r bs fffd [OF g] by (cases "0xD7FF < c") (simp_all add: encode_point_eq)
    qed
    ultimately show ?thesis by simp
  qed
qed

subsection \<open>What is read back\<close>

lemma decode_chunks: "decodeCodePointsArray ps = map (\<lambda>c. c mod 65536) ps"
proof (induction ps rule: decodeCodePointsArray.induct)
  case (1 ps)
  let ?n = "0x1000 :: nat"
  show ?case
  proof (cases "length ps \<le> ?n")
    case False
    then have "decodeCodePointsArray ps = map (\<lambda>c. c mod 65536) (take ?n ps) @ map (\<lambda>c. c mod 65536) (drop ?n ps)"
      using 1 [OF False] by (simp only: decodeCodePointsArray.simps [of ps] if_False)
    also have "\<dots> = map (\<lambda>c. c mod 65536) (take ?n ps @ drop ?n ps)" by (rule map_append [symmetric])
    finally show ?thesis by (simp only: append_take_drop_id)
  qed (simp only: decodeCodePointsArray.simps [of ps] if_True)
qed

lemma scrub_units: "list_all (\<lambda>c. c < 65536) s \<Longrightarrow> list_all (\<lambda>c. c < 65536) (scrub s)"
  by (induction s rule: scrub.induct) auto

lemma cut_units: "list_all P s \<Longrightarrow> list_all P (cut_end s)"
  by (auto simp: cut_end_def list_all_iff dest: in_set_butlastD)

lemma window_all: "list_all (\<lambda>b. b < 256) bs \<Longrightarrow> window (map word_of_nat bs) 0 (length bs) = bs"
proof -
  assume b: "list_all (\<lambda>b. b < 256) bs"
  have "map (unat \<circ> (word_of_nat :: nat \<Rightarrow> 8 word)) bs = map id bs"
    using b by (intro map_cong) (auto simp: list_all_iff unat_of_nat)
  then show ?thesis by (simp add: window_def)
qed

lemma utf8_text:
  assumes "list_all (\<lambda>c. c < 65536) s"
  obtains bs where "utf8ToBytes s None = Inr bs" "list_all (\<lambda>b. b < 256) bs"
    "utf8Slice (map word_of_nat bs) 0 (length bs) = scrub (cut_end s)"
proof -
  obtain bs where bs: "utf8_loop s None None = Inr bs" "arrives bs (scrub (cut_end s))"
    using utf8_loop_gives [OF assms] by (auto simp: gives_def)
  have "utf8_points bs = scrub (cut_end s)"
    using bs(2) utf8_points.simps [of "[]"] unfolding arrives_def by (metis append_Nil2)
  moreover have "map (\<lambda>c. c mod 65536) (scrub (cut_end s)) = scrub (cut_end s)"
    using scrub_units [OF cut_units [OF assms]] by (intro map_idI) (auto simp: list_all_iff)
  moreover have "list_all (\<lambda>b. b < 256) bs" using bs(2) by (simp add: arrives_def)
  ultimately show thesis
    using that [of bs] bs(1) by (simp add: utf8ToBytes_def utf8Slice_def window_all decode_chunks)
qed

end
