(* ===== verification/Buf_Codec.thy ===== *)
theory Buf_Codec
  imports Buf_Text
begin

text \<open>
  The encodings of the Buffer (module 10 of \<open>socketcluster.js\<close>) around UTF-8: \<open>byteLength\<close>,
  \<open>write\<close>, \<open>from\<close> a text and \<open>toString\<close>, and what the client makes of them to read and write
  the data of a token (\<open>decodeBase64\<close> and \<open>encodeBase64\<close> of \<open>scclientsocket.js\<close>).
\<close>

subsection \<open>Encodings\<close>

datatype encoding = Hex | Utf8 | Ascii | Latin1 | B64 | Ucs2

definition lower_char :: "char \<Rightarrow> char" where
  "lower_char c = (if of_char c \<in> {65..(90::nat)} then char_of (of_char c + (32::nat)) else c)"

definition encoding_of :: "string \<Rightarrow> encoding option" where
  "encoding_of e = map_of
     [(''hex'', Hex), (''utf8'', Utf8), (''utf-8'', Utf8), (''ascii'', Ascii), (''latin1'', Latin1), (''binary'', Latin1),
      (''base64'', B64), (''ucs2'', Ucs2), (''ucs-2'', Ucs2), (''utf16le'', Ucs2), (''utf-16le'', Ucs2)] (map lower_char e)"

definition isEncoding :: "string \<Rightarrow> bool" where
  "isEncoding e = (encoding_of e \<noteq> None)"

definition unknown_encoding :: "string \<Rightarrow> exn" where
  "unknown_encoding e = type_error (''Unknown encoding: '' @ e)"

text \<open>An optional argument: \<open>undefined\<close>, a text that is not a number, or a number without fraction.\<close>

datatype arg = Absent | Txt string | Num int

subsection \<open>From text to bytes\<close>

definition is_space_unit :: "nat \<Rightarrow> bool" where
  "is_space_unit c \<longleftrightarrow> c \<in> {9, 10, 11, 12, 13, 32, 160, 0x1680, 0x2028, 0x2029, 0x202F, 0x205F, 0x3000, 0xFEFF}
     \<or> (0x2000 \<le> c \<and> c \<le> 0x200A)"

definition trim_units :: "units \<Rightarrow> units" where
  "trim_units s = rev (dropWhile is_space_unit (rev (dropWhile is_space_unit s)))"

definition valid64 :: "nat \<Rightarrow> bool" where
  "valid64 c \<longleftrightarrow> c \<in> {43, 47, 45, 95} \<or> (48 \<le> c \<and> c \<le> 57) \<or> (65 \<le> c \<and> c \<le> 90) \<or> (97 \<le> c \<and> c \<le> 122)"

function pad4 :: "units \<Rightarrow> units" where
  "pad4 s = (if length s mod 4 \<noteq> 0 then pad4 (s @ [61]) else s)"
  by pat_completeness auto
termination
proof (relation "measure (\<lambda>s. (4 - length s mod 4) mod 4)")
  fix s :: units assume "length s mod 4 \<noteq> 0"
  then show "(s @ [61], s) \<in> measure (\<lambda>s. (4 - length s mod 4) mod 4)" by (simp add: mod_Suc) presburger
qed simp

declare pad4.simps [simp del]

definition base64clean :: "units \<Rightarrow> units" where
  "base64clean s =
     (let t = filter valid64 (trim_units (takeWhile (\<lambda>c. c \<noteq> 61) s))
      in if length t < 2 then [] else pad4 t)"

definition base64ToBytes :: "units \<Rightarrow> exn + nat list" where
  "base64ToBytes s = map_sum id (map unat) (toByteArray (map char_of (base64clean s)))"

definition asciiToBytes :: "units \<Rightarrow> nat list" where
  "asciiToBytes s = map (\<lambda>c. c AND 0xFF) s"

fun utf16leToBytes :: "units \<Rightarrow> int \<Rightarrow> nat list" where
  "utf16leToBytes [] units = []"
| "utf16leToBytes (c # cs) units = (if units - 2 < 0 then [] else c mod 256 # drop_bit 8 c # utf16leToBytes cs (units - 2))"

definition byteLength :: "units \<Rightarrow> arg \<Rightarrow> exn + nat" where
  "byteLength s encoding =
     (if s = [] then Inr 0
      else (case (case encoding of Txt e \<Rightarrow> encoding_of e | _ \<Rightarrow> None) of
          Some Ascii \<Rightarrow> Inr (length s)
        | Some Latin1 \<Rightarrow> Inr (length s)
        | Some Ucs2 \<Rightarrow> Inr (length s * 2)
        | Some Hex \<Rightarrow> Inr (length s div 2)
        | Some B64 \<Rightarrow> map_sum id length (base64ToBytes s)
        | _ \<Rightarrow> map_sum id length (utf8ToBytes s None)))"

subsection \<open>Writing\<close>

text \<open>A loop that copies bytes into the buffer and gives the number of the bytes it wrote.\<close>

function blit_loop :: "nat list \<Rightarrow> bytes \<Rightarrow> nat \<Rightarrow> nat \<Rightarrow> nat \<Rightarrow> bytes \<times> nat" where
  "blit_loop src dst offset len i =
     (if i < len \<and> \<not> (i + offset \<ge> length dst \<or> i \<ge> length src)
      then blit_loop src (dst[i + offset := word_of_nat (src ! i)]) offset len (Suc i) else (dst, i))"
  by pat_completeness auto
termination
  by (relation "measure (\<lambda>(src, dst, offset, len, i). len - i)") auto

declare blit_loop.simps [simp del]

definition blitBuffer :: "nat list \<Rightarrow> bytes \<Rightarrow> nat \<Rightarrow> nat \<Rightarrow> bytes \<times> nat" where
  "blitBuffer src dst offset len = blit_loop src dst offset len 0"

text \<open>\<open>parseInt(s, 16)\<close>; what is stored in the buffer is taken modulo 256.\<close>

definition hex_value :: "nat \<Rightarrow> nat option" where
  "hex_value c = (if 48 \<le> c \<and> c \<le> 57 then Some (c - 48)
     else if 97 \<le> c \<and> c \<le> 102 then Some (c - 87) else if 65 \<le> c \<and> c \<le> 70 then Some (c - 55) else None)"

definition parse_int16 :: "units \<Rightarrow> int option" where
  "parse_int16 s0 =
     (let s = dropWhile is_space_unit s0;
          neg = (s \<noteq> [] \<and> hd s = 45);
          t = (if s \<noteq> [] \<and> hd s \<in> {43, 45} then tl s else s);
          u = (if take 2 t = [48, 120] \<or> take 2 t = [48, 88] then drop 2 t else t);
          ds = takeWhile (\<lambda>c. hex_value c \<noteq> None) u;
          n = fold (\<lambda>c n. 16 * n + int (the (hex_value c))) ds 0
      in if ds = [] then None else Some (if neg then - n else n))"

text \<open>The loop of \<open>hexWrite\<close>; \<open>i\<close> is below \<open>length\<close> and below half of the text, rounded up.\<close>

function hex_loop :: "bytes \<Rightarrow> units \<Rightarrow> nat \<Rightarrow> nat \<Rightarrow> nat \<Rightarrow> bytes \<times> nat" where
  "hex_loop buf s offset len i =
     (if i < len then
        (case parse_int16 (take 2 (drop (i * 2) s)) of None \<Rightarrow> (buf, i)
         | Some parsed \<Rightarrow> hex_loop (buf[offset + i := word_of_int parsed]) s offset len (Suc i))
      else (buf, i))"
  by pat_completeness auto
termination
  by (relation "measure (\<lambda>(buf, s, offset, len, i). len - i)") auto

declare hex_loop.simps [simp del]

definition hexWrite :: "bytes \<Rightarrow> units \<Rightarrow> nat \<Rightarrow> nat \<Rightarrow> bytes \<times> nat" where
  "hexWrite buf s offset len0 =
     (let remaining = length buf - offset;
          len = (if len0 = 0 then remaining else if len0 > remaining then remaining else len0)
      in hex_loop buf s offset (if 2 * len > length s then (length s + 1) div 2 else len) 0)"

definition write_as :: "encoding \<Rightarrow> bytes \<Rightarrow> units \<Rightarrow> nat \<Rightarrow> nat \<Rightarrow> exn + bytes \<times> nat" where
  "write_as e buf s offset len =
     (let blit = (\<lambda>src. blitBuffer src buf offset len); room = int (length buf) - int offset
      in case e of
           Hex \<Rightarrow> Inr (hexWrite buf s offset len)
         | Utf8 \<Rightarrow> map_sum id blit (utf8ToBytes s (Some room))
         | Ascii \<Rightarrow> Inr (blit (asciiToBytes s))
         | Latin1 \<Rightarrow> Inr (blit (asciiToBytes s))
         | B64 \<Rightarrow> map_sum id blit (base64ToBytes s)
         | Ucs2 \<Rightarrow> Inr (blit (utf16leToBytes s room)))"

text \<open>\<open>write(string[, offset[, length]][, encoding])\<close>: the offset, the length and the encoding.\<close>

definition uint32 :: "int \<Rightarrow> nat" where
  "uint32 n = nat (n mod 2 ^ 32)"

definition write_args :: "nat \<Rightarrow> arg \<Rightarrow> arg \<Rightarrow> arg \<Rightarrow> exn + nat \<times> nat option \<times> arg" where
  "write_args buf_length offset len encoding =
     (case offset of
        Absent \<Rightarrow> Inr (0, Some buf_length, Txt ''utf8'')
      | Txt e \<Rightarrow> if len = Absent then Inr (0, Some buf_length, offset)
          else Inl (Thrown (JStr ''Buffer.write(string, encoding, offset[, length]) is no longer supported''))
      | Num o1 \<Rightarrow> (case len of
            Num l \<Rightarrow> Inr (uint32 o1, Some (uint32 l), if encoding = Absent then Txt ''utf8'' else encoding)
          | _ \<Rightarrow> Inr (uint32 o1, None, len)))"

definition chosen :: "arg \<Rightarrow> exn + encoding" where
  "chosen encoding =
     (case encoding of
        Txt e \<Rightarrow> if e = [] then Inr Utf8 else (case encoding_of e of None \<Rightarrow> Inl (unknown_encoding (map lower_char e)) | Some c \<Rightarrow> Inr c)
      | Num n \<Rightarrow> if n = 0 then Inr Utf8 else Inl (unknown_encoding (show_int n))
      | Absent \<Rightarrow> Inr Utf8)"

definition bufWrite :: "bytes \<Rightarrow> units \<Rightarrow> arg \<Rightarrow> arg \<Rightarrow> arg \<Rightarrow> exn + bytes \<times> nat" where
  "bufWrite buf s offset len encoding =
     (case write_args (length buf) offset len encoding of
        Inl e \<Rightarrow> Inl e
      | Inr (offset, len, encoding) \<Rightarrow>
          if offset > length buf then Inl (range_error ''Attempt to write outside buffer bounds'')
          else (let remaining = length buf - offset;
                    len = (case len of None \<Rightarrow> remaining | Some l \<Rightarrow> if l > remaining then remaining else l)
                in case chosen encoding of Inl e \<Rightarrow> Inl e | Inr e \<Rightarrow> write_as e buf s offset len))"

text \<open>A new buffer is filled with zeros.\<close>

definition createBuffer :: "nat \<Rightarrow> exn + bytes" where
  "createBuffer n = (if n > 0x7fffffff then Inl (range_error ''Invalid typed array length'') else Inr (replicate n 0))"

definition fromString :: "units \<Rightarrow> arg \<Rightarrow> exn + bytes" where
  "fromString s encoding0 =
     (let e = (case encoding0 of Txt e \<Rightarrow> if e = [] then ''utf8'' else e | _ \<Rightarrow> ''utf8'')
      in if \<not> isEncoding e then Inl (unknown_encoding e)
         else (case byteLength s (Txt e) of Inl x \<Rightarrow> Inl x
           | Inr n \<Rightarrow> (case createBuffer n of Inl x \<Rightarrow> Inl x
             | Inr buf \<Rightarrow> (case bufWrite buf s (Txt e) Absent Absent of Inl x \<Rightarrow> Inl x
               | Inr (buf, actual) \<Rightarrow> Inr (if actual \<noteq> n then take actual buf else buf)))))"

subsection \<open>From bytes to text\<close>

definition toHex :: "nat \<Rightarrow> units" where
  "toHex n = (let d = (\<lambda>k. if k < 10 then 48 + k else 87 + k) in if n < 16 then [48, d n] else [d (n div 16), d (n mod 16)])"

definition hexSlice :: "bytes \<Rightarrow> nat \<Rightarrow> nat \<Rightarrow> units" where
  "hexSlice buf start e = concat (map toHex (window buf start (if e = 0 \<or> e > length buf then length buf else e)))"

definition asciiSlice :: "bytes \<Rightarrow> nat \<Rightarrow> nat \<Rightarrow> units" where
  "asciiSlice buf start e = map (\<lambda>b. b AND 0x7F) (window buf start e)"

definition latin1Slice :: "bytes \<Rightarrow> nat \<Rightarrow> nat \<Rightarrow> units" where
  "latin1Slice buf start e = window buf start e"

text \<open>The last of an odd number of bytes is paired with \<open>undefined\<close>: \<open>fromCharCode(NaN)\<close> is 0.\<close>

fun ucs2_loop :: "nat list \<Rightarrow> units" where
  "ucs2_loop [] = []"
| "ucs2_loop [a] = [0]"
| "ucs2_loop (a # b # r) = (a + b * 256) mod 65536 # ucs2_loop r"

definition utf16leSlice :: "bytes \<Rightarrow> nat \<Rightarrow> nat \<Rightarrow> units" where
  "utf16leSlice buf start e = ucs2_loop (window buf start e)"

definition base64Slice :: "bytes \<Rightarrow> nat \<Rightarrow> nat \<Rightarrow> units" where
  "base64Slice buf start e = units_of (fromByteArray (if start = 0 \<and> e = length buf then buf else drop start (take e buf)))"

definition slice_as :: "encoding \<Rightarrow> bytes \<Rightarrow> nat \<Rightarrow> nat \<Rightarrow> units" where
  "slice_as c = (case c of Hex \<Rightarrow> hexSlice | Utf8 \<Rightarrow> utf8Slice | Ascii \<Rightarrow> asciiSlice | Latin1 \<Rightarrow> latin1Slice
     | B64 \<Rightarrow> base64Slice | Ucs2 \<Rightarrow> utf16leSlice)"

definition slowToString :: "bytes \<Rightarrow> arg \<Rightarrow> int option \<Rightarrow> int option \<Rightarrow> exn + units" where
  "slowToString buf encoding start0 end0 =
     (let len = int (length buf);
          start = (case start0 of None \<Rightarrow> 0 | Some s \<Rightarrow> if s < 0 then 0 else s);
          e = (case end0 of None \<Rightarrow> len | Some e \<Rightarrow> if e > len then len else e)
      in if start > len then Inr []
         else if e \<le> 0 then Inr []
         else if uint32 e \<le> uint32 start then Inr []
         else map_sum id (\<lambda>c. slice_as c buf (uint32 start) (uint32 e)) (chosen encoding))"

text \<open>\<open>toString(encoding, start, end)\<close>; without arguments the encoding is UTF-8.\<close>

definition toString :: "bytes \<Rightarrow> arg \<Rightarrow> int option \<Rightarrow> int option \<Rightarrow> exn + units" where
  "toString buf encoding start e = (if buf = [] then Inr [] else slowToString buf encoding start e)"

subsection \<open>What a write does\<close>

lemma blit_loop_eq:
  "i \<le> n \<Longrightarrow> n = min len (min (length src) (length dst - offset)) \<Longrightarrow> offset \<le> length dst
   \<Longrightarrow> blit_loop src dst offset len i = (take (offset + i) dst @ map word_of_nat (drop i (take n src)) @ drop (offset + n) dst, n)"
proof (induction src dst offset len i rule: blit_loop.induct)
  case (1 src dst offset len i)
  show ?case
  proof (cases "i < n")
    case True
    let ?d = "dst[i + offset := word_of_nat (src ! i)]"
    have b: "i < len" "\<not> (i + offset \<ge> length dst \<or> i \<ge> length src)" using True "1.prems" by auto
    have "blit_loop src ?d offset len (Suc i) = (take (offset + Suc i) ?d @ map word_of_nat (drop (Suc i) (take n src)) @ drop (offset + n) ?d, n)"
      using "1.IH" b True "1.prems" by simp
    moreover have "take (offset + Suc i) ?d = take (offset + i) dst @ [word_of_nat (src ! i)]"
      using b by (simp add: take_Suc_conv_app_nth add.commute)
    moreover have "drop (offset + n) ?d = drop (offset + n) dst" using True by simp
    moreover have "drop i (take n src) = src ! i # drop (Suc i) (take n src)"
      using b(2) True by (simp add: Cons_nth_drop_Suc [symmetric])
    ultimately show ?thesis using b by (simp add: blit_loop.simps [of src dst])
  next
    case False
    then have "i = n" using "1.prems"(1) by linarith
    moreover have "\<not> (n < len \<and> \<not> (n + offset \<ge> length dst \<or> n \<ge> length src))" using "1.prems" by auto
    ultimately show ?thesis unfolding blit_loop.simps [of src dst offset len i] by auto
  qed
qed

lemma blitBuffer_eq:
  assumes "offset \<le> length dst" and "n = min len (min (length src) (length dst - offset))"
  shows "blitBuffer src dst offset len = (take offset dst @ map word_of_nat (take n src) @ drop (offset + n) dst, n)"
  using blit_loop_eq [of 0 n len src dst offset] assms by (simp add: blitBuffer_def)

text \<open>What a write may change.\<close>

definition framed :: "bytes \<Rightarrow> nat \<Rightarrow> bytes \<times> nat \<Rightarrow> bool" where
  "framed buf offset r \<longleftrightarrow> (case r of (buf', n) \<Rightarrow> offset + n \<le> length buf \<and> length buf' = length buf
     \<and> take offset buf' = take offset buf \<and> drop (offset + n) buf' = drop (offset + n) buf)"

lemma framed_blit:
  assumes "offset \<le> length dst"
  shows "framed dst offset (blitBuffer src dst offset len) \<and> snd (blitBuffer src dst offset len) \<le> len"
  using assms unfolding blitBuffer_eq [OF assms refl] by (auto simp: framed_def min_def)

lemma hex_loop_framed:
  "i \<le> len \<Longrightarrow> offset + len \<le> length buf \<Longrightarrow>
   (case hex_loop buf s offset len i of (buf', n) \<Rightarrow> i \<le> n \<and> n \<le> len \<and> length buf' = length buf
     \<and> take (offset + i) buf' = take (offset + i) buf \<and> drop (offset + n) buf' = drop (offset + n) buf)"
proof (induction buf s offset len i rule: hex_loop.induct)
  case (1 buf s offset len i)
  show ?case
  proof (cases "i < len \<and> parse_int16 (take 2 (drop (i * 2) s)) \<noteq> None")
    case True
    then obtain p where p: "i < len" "parse_int16 (take 2 (drop (i * 2) s)) = Some p" by auto
    obtain b n where r: "hex_loop (buf[offset + i := word_of_int p]) s offset len (Suc i) = (b, n)" by fastforce
    have ih: "Suc i \<le> n" "n \<le> len" "length b = length buf" "take (offset + Suc i) b = take (offset + Suc i) (buf[offset + i := word_of_int p])"
      "drop (offset + n) b = drop (offset + n) (buf[offset + i := word_of_int p])"
      using "1.IH" [OF p] p(1) "1.prems" r by simp_all
    have "take (offset + i) b = take (offset + i) (take (offset + Suc i) b)" by (simp add: min_def)
    also have "\<dots> = take (offset + i) buf" using ih(4) by (simp add: min_def)
    finally show ?thesis using ih p r by (simp add: hex_loop.simps [of buf])
  qed (use "1.prems" in \<open>auto simp: hex_loop.simps [of buf]\<close>)
qed

lemma framed_hex:
  assumes "offset \<le> length buf"
  shows "framed buf offset (hexWrite buf s offset len) \<and> (len \<noteq> 0 \<longrightarrow> snd (hexWrite buf s offset len) \<le> len)"
proof -
  let ?r = "length buf - offset"
  let ?l = "if len = 0 then ?r else if len > ?r then ?r else len"
  let ?m = "if 2 * ?l > length s then (length s + 1) div 2 else ?l"
  have "?m \<le> ?l" by (cases "len = 0"; cases "len > ?r"; cases "2 * ?l > length s") auto
  moreover have l: "?l \<le> ?r" "len \<noteq> 0 \<longrightarrow> ?l \<le> len" by auto
  ultimately have "offset + ?m \<le> length buf" "len \<noteq> 0 \<longrightarrow> ?m \<le> len" using assms by linarith+
  then show ?thesis
    using hex_loop_framed [of 0 ?m offset buf s] unfolding hexWrite_def Let_def framed_def by (auto split: prod.splits)
qed

lemma framed_as:
  assumes "write_as e buf s offset len = Inr r" and "offset \<le> length buf"
  shows "framed buf offset r \<and> (e = Hex \<and> len = 0 \<or> snd r \<le> len)"
proof -
  have hex: ?thesis if "e = Hex" using that assms framed_hex [OF assms(2), of s len] by (auto simp: write_as_def)
  have blit: ?thesis if "r = blitBuffer src buf offset len" for src using that framed_blit [OF assms(2)] by simp
  show ?thesis
    using assms(1) hex blit by (cases e) (auto simp: write_as_def map_sum_def split: sum.splits)
qed

text \<open>
  C30: A write stays in bounds: whatever the text and the encoding, it leaves the length of the
  buffer, the bytes before its offset and those after the bytes it counts; it counts no more bytes
  than asked for, except that \<open>hex\<close> takes the length 0 for no length; and an offset past the end
  is an error.
\<close>

theorem write_within:
  "(\<forall>buf' n. bufWrite buf s (Num p) (Num l) (Txt e) = Inr (buf', n) \<longrightarrow>
      uint32 p + n \<le> length buf \<and> length buf' = length buf
      \<and> take (uint32 p) buf' = take (uint32 p) buf \<and> drop (uint32 p + n) buf' = drop (uint32 p + n) buf
      \<and> (n \<le> uint32 l \<or> encoding_of e = Some Hex \<and> uint32 l = 0))
    \<and> (uint32 p > length buf \<longrightarrow>
      bufWrite buf s (Num p) (Num l) (Txt e) = Inl (range_error ''Attempt to write outside buffer bounds''))"
proof -
  have "framed buf (uint32 p) (buf', n) \<and> (n \<le> uint32 l \<or> encoding_of e = Some Hex \<and> uint32 l = 0)"
    if w: "bufWrite buf s (Num p) (Num l) (Txt e) = Inr (buf', n)" for buf' n
  proof -
    let ?r = "length buf - uint32 p" and ?l = "uint32 l"
    let ?m = "if ?l > ?r then ?r else ?l"
    have p: "uint32 p \<le> length buf" using w by (auto simp: bufWrite_def write_args_def split: if_splits)
    obtain c where c: "chosen (Txt e) = Inr c" "write_as c buf s (uint32 p) ?m = Inr (buf', n)"
      using w p by (auto simp: bufWrite_def write_args_def Let_def split: sum.splits)
    have hex: "encoding_of e = Some Hex" if "c = Hex" using c(1) that by (auto simp: chosen_def split: if_splits option.splits)
    have f: "framed buf (uint32 p) (buf', n)" and n: "c = Hex \<and> ?m = 0 \<or> n \<le> ?m" using framed_as [OF c(2) p] by simp_all
    have "n \<le> ?r" using f p by (auto simp: framed_def)
    then show ?thesis using f n hex by (cases "?l > ?r") auto
  qed
  then have "uint32 p + n \<le> length buf \<and> length buf' = length buf
      \<and> take (uint32 p) buf' = take (uint32 p) buf \<and> drop (uint32 p + n) buf' = drop (uint32 p + n) buf
      \<and> (n \<le> uint32 l \<or> encoding_of e = Some Hex \<and> uint32 l = 0)"
    if "bufWrite buf s (Num p) (Num l) (Txt e) = Inr (buf', n)" for buf' n
    using that by (simp add: framed_def)
  moreover have "bufWrite buf s (Num p) (Num l) (Txt e) = Inl (range_error ''Attempt to write outside buffer bounds'')"
    if "uint32 p > length buf" using that by (simp add: bufWrite_def write_args_def)
  ultimately show ?thesis by blast
qed

theorem write_within_witness:
  "bufWrite [1, 2, 3] [0x61, 0x62] (Num 1) (Num 5) (Txt ''latin1'') = Inr ([1, 0x61, 0x62], 2)
    \<and> uint32 1 + 2 \<le> length [1, 2, 3 :: 8 word]
    \<and> bufWrite [1, 2, 3] [0x61] (Num 4) (Num 1) (Txt ''latin1'') = Inl (range_error ''Attempt to write outside buffer bounds'')"
proof -
  have "bufWrite [1, 2, 3] [0x61, 0x62] (Num 1) (Num 5) (Txt ''latin1'') = Inr ([1, 0x61, 0x62], 2)"
    by (simp add: bufWrite_def write_args_def chosen_def encoding_of_def lower_char_def write_as_def uint32_def asciiToBytes_def and255
        blitBuffer_eq [OF _ refl])
  moreover have "uint32 4 > length [1, 2, 3 :: 8 word]" by (simp add: uint32_def)
  ultimately show ?thesis
    using write_within [of "[1, 2, 3]" "[0x61, 0x62]" 1 5 "''latin1''"] write_within [of "[1, 2, 3]" "[0x61]" 4 1 "''latin1''"] by blast
qed

text \<open>The length 0 does not stop a write in \<open>hex\<close>.\<close>

lemma hex_ignores_zero_length: "bufWrite [1, 2, 3] (units_of ''0a0b'') (Num 0) (Num 0) (Txt ''hex'') = Inr ([10, 11, 3], 2)"
  by (simp add: bufWrite_def write_args_def chosen_def encoding_of_def lower_char_def write_as_def uint32_def hexWrite_def Let_def
      hex_loop.simps parse_int16_def hex_value_def is_space_unit_def units_of_def)

subsection \<open>A buffer of a text\<close>

lemma encode_point_Inr:
  "encode_point p units f = Inr zs \<longleftrightarrow> (\<exists>xs. utf8_bytes p = Some xs \<and>
     (if spent (spend (int (length xs)) units) then zs = [] else before xs (f (spend (int (length xs)) units)) = Inr zs))"
  by (auto simp: encode_point_def Let_def split: option.splits)

lemma limit_enough:
  "utf8_loop s None l = Inr bs \<Longrightarrow> int (length bs) \<le> u \<Longrightarrow> utf8_loop s (Some u) l = Inr bs"
proof (induction s arbitrary: l bs u)
  case (Cons c cs)
  have step: "before xs (utf8_loop cs (Some (v - int (length xs))) k) = Inr zs \<and> int (length xs) \<le> v"
    if "before xs (utf8_loop cs None k) = Inr zs" "int (length zs) \<le> v" for xs k zs v
    using that Cons.IH by (auto simp: before_Inr)
  have enc: "encode_point p (Some v) (\<lambda>u. utf8_loop cs u None) = Inr zs"
    if "encode_point p None (\<lambda>u. utf8_loop cs u None) = Inr zs" "int (length zs) \<le> v" for p v zs
    using that step by (fastforce simp: encode_point_Inr)
  have fffd: "before (replacement (Some (u - 3))) (f (Some (u - 3))) = Inr bs"
    if "before [0xEF, 0xBF, 0xBD] (f None) = Inr bs" "\<And>zs. f None = Inr zs \<Longrightarrow> int (length zs) \<le> u - 3 \<Longrightarrow> f (Some (u - 3)) = Inr zs" for f
    using that Cons.prems(2) by (auto simp: before_Inr replacement_def)
  note loop = fffd [of "\<lambda>u. utf8_loop cs u k" for k]
  show ?case
  proof (cases "0xD7FF < c \<and> c < 0xE000")
    case True
    then show ?thesis
      using Cons.prems loop enc Cons.IH by (cases l) (auto simp: Let_def split: if_splits)
  next
    case False
    then show ?thesis
      using Cons.prems enc fffd [of "\<lambda>u. encode_point c u (\<lambda>u. utf8_loop cs u None)"] by (cases l) (auto simp: Let_def)
  qed
qed simp

lemma write_fresh:
  assumes "encoding_of e = Some c" "e \<noteq> []"
  shows "bufWrite buf s (Txt e) Absent Absent = write_as c buf s 0 (length buf)"
  using assms by (simp add: bufWrite_def write_args_def chosen_def)

lemma fromString_as:
  assumes "encoding_of e = Some c" "e \<noteq> []" and "byteLength s (Txt e) = Inr n" "n \<le> 0x7fffffff"
    and "write_as c (replicate n 0) s 0 n = Inr (buf, n)"
  shows "fromString s (Txt e) = Inr buf"
  using assms by (simp add: fromString_def isEncoding_def createBuffer_def write_fresh)

lemma toString_as:
  assumes "encoding_of e = Some c" "e \<noteq> []" and "length buf \<le> 0x7fffffff" "buf \<noteq> []"
  shows "toString buf (Txt e) None None = Inr (slice_as c buf 0 (length buf))"
proof -
  have "uint32 (int (length buf)) = length buf" using assms(3) by (simp add: uint32_def)
  then show ?thesis
    using assms by (simp add: toString_def slowToString_def chosen_def) (simp add: uint32_def)
qed

lemma blit_all: "blitBuffer src (replicate (length src) 0) 0 (length src) = (map word_of_nat src, length src)"
  using blitBuffer_eq [of 0 "replicate (length src) 0" "length src" "length src" src] by simp

lemma utf8_bytes_length: "utf8_bytes p = Some xs \<Longrightarrow> length xs \<le> 4 \<and> (p < 0x10000 \<longrightarrow> length xs \<le> 3)"
  by (auto simp: utf8_bytes_def split: if_splits)

lemma utf8_length:
  "list_all (\<lambda>c. c < 65536) s \<Longrightarrow> utf8_loop s None l = Inr bs \<Longrightarrow> length bs \<le> 3 * length s + (if l = None then 0 else 3)"
proof (induction s arbitrary: l bs)
  case (Cons c cs)
  have c: "c < 65536" "list_all (\<lambda>c. c < 65536) cs" using Cons.prems by simp_all
  have ih: "length bs \<le> 3 * length cs + (if l = None then 0 else 3)" if "utf8_loop cs None l = Inr bs" for l bs
    using Cons.IH [OF c(2) that] .
  have enc: "length zs \<le> 3 * length cs + 4 \<and> (p < 0x10000 \<longrightarrow> length zs \<le> 3 * length cs + 3)"
    if "encode_point p None (\<lambda>u. utf8_loop cs u None) = Inr zs" for p zs
    using that utf8_bytes_length [of p] ih [of None] by (fastforce simp: before_Inr encode_point_Inr)
  show ?case
  proof (cases "0xD7FF < c \<and> c < 0xE000")
    case True
    then show ?thesis
      using Cons.prems(2) ih [of None] ih [of "Some c"] enc by (cases l) (fastforce simp: before_Inr Let_def split: if_splits)+
  next
    case False
    then show ?thesis
      using Cons.prems(2) c by (cases l; cases "0xD7FF < c") (auto simp: before_Inr Let_def dest: enc)
  qed
qed simp

lemma encoding_names:
  "encoding_of ''utf8'' = Some Utf8" "encoding_of ''hex'' = Some Hex" "encoding_of ''latin1'' = Some Latin1"
  "encoding_of ''base64'' = Some B64" "encoding_of ''ucs2'' = Some Ucs2"
  by (simp_all add: encoding_of_def lower_char_def)

lemma utf8_buffer:
  assumes "list_all (\<lambda>c. c < 65536) s" and "3 * length s \<le> 0x7fffffff"
  obtains bs where "utf8ToBytes s None = Inr bs" "fromString s (Txt ''utf8'') = Inr (map word_of_nat bs)" "length bs \<le> 0x7fffffff"
    "toString (map word_of_nat bs) (Txt ''utf8'') None None = Inr (scrub (cut_end s))"
proof -
  obtain bs where bs: "utf8ToBytes s None = Inr bs" "list_all (\<lambda>b. b < 256) bs"
    "utf8Slice (map word_of_nat bs) 0 (length bs) = scrub (cut_end s)" using assms(1) by (rule utf8_text)
  have u: "utf8_loop s None None = Inr bs" using bs(1) by (simp add: utf8ToBytes_def)
  then have l: "length bs \<le> 0x7fffffff" using utf8_length [OF assms(1) u] assms(2) by simp
  have "utf8ToBytes s (Some (int (length bs))) = Inr bs"
    using u limit_enough [OF u, of "int (length bs)"] by (auto simp: utf8ToBytes_def)
  then have w: "write_as Utf8 (replicate (length bs) 0) s 0 (length bs) = Inr (map word_of_nat bs, length bs)"
    by (simp add: write_as_def blit_all)
  have n: "byteLength s (Txt ''utf8'') = Inr (length bs)"
  proof (cases "s = []")
    case False
    then show ?thesis using bs(1) by (simp add: byteLength_def encoding_names)
  qed (use u in \<open>simp add: byteLength_def\<close>)
  have "toString (map word_of_nat bs) (Txt ''utf8'') None None = Inr (scrub (cut_end s))"
  proof (cases "bs = []")
    case True
    then show ?thesis using bs(3) utf8_points.simps [of "[]"] by (simp add: toString_def utf8Slice_def window_def decode_chunks)
  next
    case False
    then show ?thesis using toString_as [OF encoding_names(1), of "map word_of_nat bs"] l bs(3) by (simp add: slice_as_def)
  qed
  then show thesis using that bs(1) fromString_as [OF encoding_names(1) _ n l w] l by simp
qed

text \<open>
  C18: The text a UTF-8 Buffer is made from is what it reads back, with the replacement character
  for every surrogate that is not in a pair; but of two lead surrogates at the end, the last is
  lost.
\<close>

theorem utf8_roundtrip:
  assumes "list_all (\<lambda>c. c < 65536) s" and "3 * length s \<le> 0x7fffffff"
  shows "\<exists>buf. fromString s (Txt ''utf8'') = Inr buf \<and> toString buf (Txt ''utf8'') None None = Inr (scrub (cut_end s))"
proof -
  obtain bs where "fromString s (Txt ''utf8'') = Inr (map word_of_nat bs)"
    "toString (map word_of_nat bs) (Txt ''utf8'') None None = Inr (scrub (cut_end s))" using assms by (rule utf8_buffer)
  then show ?thesis by blast
qed

text \<open>A text with a pair, a lone surrogate and two lead surrogates at the end.\<close>

theorem utf8_roundtrip_witness:
  "\<exists>buf. fromString [0x48, 0xD83D, 0xDE00, 0xDC00, 0xD800, 0xD801] (Txt ''utf8'') = Inr buf
    \<and> toString buf (Txt ''utf8'') None None = Inr [0x48, 0xD83D, 0xDE00, 0xFFFD, 0xFFFD]"
proof -
  have "scrub (cut_end [0x48, 0xD83D, 0xDE00, 0xDC00, 0xD800, 0xD801]) = [0x48, 0xD83D, 0xDE00, 0xFFFD, 0xFFFD]"
    by (simp add: cut_end_def lead_def trail_def)
  then show ?thesis using utf8_roundtrip [of "[0x48, 0xD83D, 0xDE00, 0xDC00, 0xD800, 0xD801]"] by simp
qed

subsection \<open>A text of a buffer\<close>

definition digit_unit :: "nat \<Rightarrow> nat" where
  "digit_unit k = (if k < 10 then 48 + k else 87 + k)"

lemma digit_unit:
  assumes "k < 16"
  shows "hex_value (digit_unit k) = Some k" "\<not> is_space_unit (digit_unit k)" "digit_unit k \<notin> {43, 45, 120, 88}"
proof -
  have "48 \<le> digit_unit k \<and> digit_unit k \<le> 57 \<or> 97 \<le> digit_unit k \<and> digit_unit k \<le> 102"
    using assms by (auto simp: digit_unit_def)
  then show "\<not> is_space_unit (digit_unit k)" "digit_unit k \<notin> {43, 45, 120, 88}" by (auto simp: is_space_unit_def)
  show "hex_value (digit_unit k) = Some k" using assms by (auto simp: hex_value_def digit_unit_def)
qed

lemma hex_byte:
  assumes "n < 256"
  shows "length (toHex n) = 2 \<and> parse_int16 (toHex n) = Some (int n)"
proof -
  have ab: "n div 16 < 16" "n mod 16 < 16" using assms by auto
  have t: "toHex n = [digit_unit (n div 16), digit_unit (n mod 16)]"
    by (auto simp: toHex_def digit_unit_def Let_def)
  note d = digit_unit [OF ab(1)] digit_unit [OF ab(2)]
  have "int n = 16 * int (n div 16) + int (n mod 16)" by presburger
  then have "parse_int16 [digit_unit (n div 16), digit_unit (n mod 16)] = Some (int n)"
    using d by (simp add: parse_int16_def Let_def)
  then show ?thesis by (simp add: t)
qed

lemma hex_text:
  "list_all (\<lambda>n. n < 256) ns \<Longrightarrow> length (concat (map toHex ns)) = 2 * length ns
   \<and> (\<forall>i<length ns. take 2 (drop (i * 2) (concat (map toHex ns))) = toHex (ns ! i))"
proof (induction ns)
  case (Cons n ns)
  have n: "length (toHex n) = 2" using hex_byte [of n] Cons.prems by simp
  have "take 2 (drop (i * 2) (concat (map toHex (n # ns)))) = toHex ((n # ns) ! i)" if "i < Suc (length ns)" for i
    using that n Cons by (cases i) simp_all
  then show ?case using n Cons by simp
qed simp

lemma hex_loop_text:
  assumes "list_all (\<lambda>n. n < 256) ns"
  shows "length buf = length ns \<Longrightarrow> i \<le> length ns \<Longrightarrow>
    hex_loop buf (concat (map toHex ns)) 0 (length ns) i = (take i buf @ map word_of_nat (drop i ns), length ns)"
proof (induction "length ns - i" arbitrary: i buf)
  case 0
  then have "i = length ns" by simp
  then show ?case using "0.prems" by (simp add: hex_loop.simps [of buf])
next
  case (Suc k)
  then have i: "i < length ns" by simp
  have "parse_int16 (take 2 (drop (i * 2) (concat (map toHex ns)))) = Some (int (ns ! i))"
    using hex_text [OF assms] hex_byte [of "ns ! i"] assms i by (simp add: list_all_iff)
  then have "hex_loop buf (concat (map toHex ns)) 0 (length ns) i
      = hex_loop (buf[i := word_of_nat (ns ! i)]) (concat (map toHex ns)) 0 (length ns) (Suc i)"
    using i by (simp add: hex_loop.simps [of buf])
  also have "\<dots> = (take (Suc i) (buf[i := word_of_nat (ns ! i)]) @ map word_of_nat (drop (Suc i) ns), length ns)"
    using Suc i by simp
  also have "take (Suc i) (buf[i := word_of_nat (ns ! i)]) = take i buf @ [word_of_nat (ns ! i)]"
    using i Suc.prems by (simp add: take_Suc_conv_app_nth)
  finally show ?case using i by (simp add: Cons_nth_drop_Suc [symmetric])
qed

subsection \<open>Base 64 with and without padding\<close>

lemma valid64_facts: "valid64 c \<Longrightarrow> c \<noteq> 61 \<and> \<not> is_space_unit c"
  by (auto simp: valid64_def is_space_unit_def)

lemma pad4_eq: "(length u + p) mod 4 = 0 \<Longrightarrow> p < 4 \<Longrightarrow> pad4 u = u @ replicate p 61"
proof (induction p arbitrary: u)
  case 0
  then show ?case by (simp add: pad4.simps [of u])
next
  case (Suc p)
  have "length u mod 4 \<noteq> 0" using Suc.prems by presburger
  moreover have "pad4 (u @ [61]) = (u @ [61]) @ replicate p 61" using Suc.prems by (intro Suc.IH) simp_all
  ultimately show ?case by (simp add: pad4.simps [of u] replicate_append_same)
qed

lemma trim_none: "list_all (\<lambda>c. \<not> is_space_unit c) u \<Longrightarrow> trim_units u = u"
proof -
  have d: "list_all (\<lambda>c. \<not> is_space_unit c) u \<Longrightarrow> dropWhile is_space_unit u = u" for u by (cases u) auto
  assume "list_all (\<lambda>c. \<not> is_space_unit c) u"
  then show ?thesis using d [of u] d [of "rev u"] by (simp add: trim_units_def)
qed

lemma clean_eq:
  assumes "list_all valid64 u" and "u = [] \<or> 2 \<le> length u" and "(length u + p) mod 4 = 0" "p < 4"
  shows "base64clean (u @ replicate q 61) = u @ replicate p 61"
proof -
  have "takeWhile (\<lambda>c. c \<noteq> 61) (u @ replicate q 61) = u"
    using assms(1) valid64_facts by (cases q) (auto simp: list_all_iff takeWhile_append2)
  moreover have "trim_units u = u" using assms(1) valid64_facts by (intro trim_none) (auto simp: list_all_iff)
  moreover have "filter valid64 u = u" using assms(1) by (simp add: list_all_iff)
  moreover have "p = 0" if "u = []" using that assms(3,4) by simp
  ultimately show ?thesis using assms(2) pad4_eq [OF assms(3,4)] by (auto simp: base64clean_def Let_def)
qed

text \<open>The alphabet of the tokens: \<open>-\<close> and \<open>_\<close> in the place of \<open>+\<close> and \<open>/\<close>.\<close>

definition url_char :: "char \<Rightarrow> char" where
  "url_char c = (if c = CHR ''+'' then CHR ''-'' else if c = CHR ''/'' then CHR ''_'' else c)"

lemma rev0_url: "rev0 (url_char c) = rev0 c"
proof -
  have "rev0 (CHR ''+'') = rev0 (CHR ''-'')" "rev0 (CHR ''/'') = rev0 (CHR ''_'')" by code_simp+
  then show ?thesis by (simp add: url_char_def)
qed

lemma url_eq_sign: "url_char c = CHR ''='' \<longleftrightarrow> c = CHR ''=''"
  by (simp add: url_char_def)

lemma code_units: "list_all (\<lambda>c. valid64 (of_char c) \<and> valid64 (of_char (url_char c))) code64"
  by code_simp

lemma loop_url: "to_bytes_loop (map url_char s) = to_bytes_loop s"
  by (induction s rule: to_bytes_loop.induct) (simp_all add: rev0_url)

lemma toByteArray_url: "toByteArray (map url_char s) = toByteArray s"
proof -
  have "placeHoldersCount (map url_char s) = placeHoldersCount s"
  proof -
    have "length s \<ge> k \<and> map url_char s ! (length s - k) = CHR ''='' \<longleftrightarrow> length s \<ge> k \<and> s ! (length s - k) = CHR ''=''" if "k > 0" for k
      using that by (auto simp: url_eq_sign)
    note n = this [of 2, simplified] this [of 1, simplified]
    show ?thesis by (simp only: placeHoldersCount_def Let_def length_map n zero_less_numeral zero_less_one One_nat_def)
  qed
  moreover have "to_bytes_last p (map url_char g) = to_bytes_last p g" if "p > 0 \<longrightarrow> length g \<ge> 4" for p g
    using that nth_map [of 0 g url_char] by (cases "g = []") (auto simp: to_bytes_last_def rev0_url)
  moreover have "p > 0 \<longrightarrow> length (drop (length s - 4) s) \<ge> 4" if "placeHoldersCount s = Inr p" for p
    using that by (auto simp: placeHoldersCount_def Let_def split: if_splits)
  ultimately show ?thesis
    by (auto simp: toByteArray_def Let_def take_map drop_map loop_url to_bytes_last_def split: sum.splits)
qed

text \<open>The text of bytes without its padding.\<close>

definition unpadded :: "bytes \<Rightarrow> string" where
  "unpadded bs = takeWhile (\<lambda>c. c \<noteq> CHR ''='') (fromByteArray bs)"

lemma text64_shape:
  obtains p where "fromByteArray bs = unpadded bs @ replicate p (CHR ''='')" "p < 4" "set (unpadded bs) \<subseteq> set code64"
    "unpadded bs = [] \<or> 2 \<le> length (unpadded bs)" "(length (unpadded bs) + p) mod 4 = 0"
proof -
  obtain xs ys where bs: "bs = xs @ ys" and xs: "3 dvd length xs"
    and ys: "ys = [] \<or> (\<exists>a. ys = [a]) \<or> (\<exists>a b. ys = [a, b])" by (rule tails3)
  have r: "fromByteArray bs = ref64 xs @ ref64 ys" using ref64_append [OF xs] fromByteArray_ref [of bs] by (simp add: bs)
  have full: "set (ref64 xs) \<subseteq> set code64" "length (ref64 xs) mod 4 = 0" using full_groups [OF xs] by simp_all
  obtain t p where t: "ref64 ys = t @ replicate p (CHR ''='')" "set t \<subseteq> set code64" "p < 4" "t = [] \<or> 2 \<le> length t" "(length t + p) mod 4 = 0"
  proof -
    consider "ys = []" | a where "ys = [a]" | a b where "ys = [a, b]" using ys by blast
    then show thesis
    proof cases
      case 1
      then show thesis using that [of "[]" 0] by simp
    next
      case 2
      then show thesis
        using that [of "[lookup64 (unat a div 4), lookup64 (unat a mod 4 * 16)]" 2] tail_lt lookup64_inv(3) by (simp add: numeral_2_eq_2)
    next
      case 3
      then show thesis
        using that [of "[lookup64 (unat a div 4), lookup64 (unat a mod 4 * 16 + unat b div 16), lookup64 (unat b mod 16 * 4)]" 1]
          tail_lt lookup64_inv(3) by simp
    qed
  qed
  have "takeWhile (\<lambda>c. c \<noteq> CHR ''='') ((ref64 xs @ t) @ replicate p (CHR ''='')) = ref64 xs @ t"
    using full(1) t(2) eq_not_in_code by (subst takeWhile_append2) (auto simp: takeWhile_eq_Nil_iff)
  then have u: "unpadded bs = ref64 xs @ t" by (simp add: unpadded_def r t(1))
  show thesis
  proof (rule that)
    show "fromByteArray bs = unpadded bs @ replicate p (CHR ''='')" using r t(1) by (simp add: u)
    show "unpadded bs = [] \<or> 2 \<le> length (unpadded bs)"
      using t(4) full(2) by (cases "length (ref64 xs) < 4") (auto simp: u)
    show "(length (unpadded bs) + p) mod 4 = 0" using full(2) t(5) by (simp add: u) presburger
  qed (use t full in \<open>auto simp: u\<close>)
qed

lemma units_back: "map char_of (units_of s) = s"
  by (simp add: units_of_def)

text \<open>The bytes of a base 64 text, with the padding or without it, and of a token's text.\<close>

lemma base64_bytes:
  assumes "f = id \<or> f = url_char" and "q = 0 \<or> f = id \<and> unpadded bs @ replicate q (CHR ''='') = fromByteArray bs"
  shows "base64ToBytes (units_of (map f (unpadded bs) @ replicate q (CHR ''=''))) = Inr (map unat bs)"
proof -
  obtain p where p: "fromByteArray bs = unpadded bs @ replicate p (CHR ''='')" "p < 4" "set (unpadded bs) \<subseteq> set code64"
    "unpadded bs = [] \<or> 2 \<le> length (unpadded bs)" "(length (unpadded bs) + p) mod 4 = 0" by (rule text64_shape)
  let ?u = "units_of (map f (unpadded bs))"
  have "list_all valid64 ?u" using assms(1) p(3) code_units by (auto simp: list_all_iff units_of_def)
  moreover have "?u = [] \<or> 2 \<le> length ?u" "(length ?u + p) mod 4 = 0" using p(4,5) by (auto simp: units_of_def)
  ultimately have "base64clean (?u @ replicate q 61) = ?u @ replicate p 61" using p(2) by (rule clean_eq)
  moreover have "units_of (map f (unpadded bs) @ replicate q (CHR ''='')) = ?u @ replicate q 61" by (simp add: units_of_def)
  moreover have "map char_of (?u @ replicate p 61) = map f (fromByteArray bs)"
  proof -
    have "char_of (61 :: nat) = CHR ''=''" by code_simp
    then show ?thesis using assms(1) by (auto simp: units_of_def p(1) o_def url_char_def)
  qed
  moreover have "toByteArray (map f (fromByteArray bs)) = Inr bs"
    using assms(1) toByteArray_url toByteArray_roundtrip [of bs] by auto
  ultimately show ?thesis by (simp add: base64ToBytes_def)
qed

lemma base64_full: "base64ToBytes (units_of (fromByteArray bs)) = Inr (map unat bs)"
proof -
  obtain p where p: "fromByteArray bs = unpadded bs @ replicate p (CHR ''='')" by (rule text64_shape)
  show ?thesis using base64_bytes [of id p bs] by (simp add: p)
qed

lemma base64_url: "base64ToBytes (units_of (map url_char (unpadded bs))) = Inr (map unat bs)"
  using base64_bytes [of url_char 0 bs] by simp

subsection \<open>Bytes through texts\<close>

lemma bytes_back: "map word_of_nat (map unat (buf :: bytes)) = buf"
  by (simp add: o_def)

lemma bytes_small: "list_all (\<lambda>n. n < 256) (map unat (buf :: bytes))"
  using unat8 by (simp add: list_all_iff)

lemma window_whole: "window buf 0 (length buf) = map unat buf"
  by (simp add: window_def)

lemma ucs2_units: "even (length ns) \<Longrightarrow> list_all (\<lambda>n. n < 256) ns
   \<Longrightarrow> utf16leToBytes (ucs2_loop ns) (int (length ns)) = ns \<and> 2 * length (ucs2_loop ns) = length ns"
proof (induction ns rule: ucs2_loop.induct)
  case (3 a b r)
  have "(a + b * 256) mod 65536 = a + b * 256" "(a + b * 256) mod 256 = a" "(a + b * 256) div 256 = b"
    using "3.prems" split_radix [of a 256 b] by (simp_all add: add.commute)
  then show ?case using 3 by (simp add: drop_bit_eq_div)
qed simp_all

lemma from_written:
  assumes "encoding_of e = Some c" "e \<noteq> []" and "byteLength s (Txt e) = Inr (length buf)" "length buf \<le> 0x7fffffff"
    and "write_as c (replicate (length (map unat buf)) 0) s 0 (length (map unat buf)) = Inr (map word_of_nat (map unat buf), length (map unat buf))"
  shows "fromString s (Txt e) = Inr buf"
  using fromString_as [OF assms(1-4)] assms(5) bytes_back [of buf] by simp

lemma base64_empty: "base64ToBytes [] = Inr []"
  by (simp add: base64ToBytes_def base64clean_def trim_units_def toByteArray_def placeHoldersCount_def to_bytes_last_def)

lemma base64_buffer:
  assumes "base64ToBytes s = Inr (map unat buf)" and "length buf \<le> 0x7fffffff"
  shows "fromString s (Txt ''base64'') = Inr buf"
proof (rule from_written)
  show "byteLength s (Txt ''base64'') = Inr (length buf)"
    using assms(1) base64_empty by (cases "s = []") (auto simp: byteLength_def encoding_names)
  show "write_as B64 (replicate (length (map unat buf)) 0) s 0 (length (map unat buf)) = Inr (map word_of_nat (map unat buf), length (map unat buf))"
    using assms(1) blit_all [of "map unat buf"] by (simp add: write_as_def)
qed (use assms(2) encoding_names in simp_all)

text \<open>
  C29: The bytes of a Buffer survive a text: what \<open>toString\<close> gives in \<open>hex\<close>, \<open>base64\<close> or \<open>latin1\<close>,
  and in \<open>ucs2\<close> when the bytes are even in number, is what a Buffer of the same bytes is made from.
\<close>

theorem bytes_roundtrip:
  assumes "length buf \<le> 0x7fffffff" and "e \<in> {''hex'', ''base64'', ''latin1''} \<or> e = ''ucs2'' \<and> even (length buf)"
  shows "\<exists>s. toString buf (Txt e) None None = Inr s \<and> fromString s (Txt e) = Inr buf"
proof (cases "buf = []")
  case True
  then show ?thesis
    using assms(2) by (auto simp: toString_def fromString_def isEncoding_def encoding_names byteLength_def createBuffer_def write_fresh
        write_as_def blitBuffer_eq hexWrite_def hex_loop.simps base64_empty asciiToBytes_def)
next
  case False
  let ?ns = "map unat buf"
  have enc: "\<exists>c. encoding_of e = Some c" using assms(2) encoding_names by auto
  then obtain c where c: "encoding_of e = Some c" by blast
  have e: "e \<noteq> []" using assms(2) by auto
  have t: "toString buf (Txt e) None None = Inr (slice_as c buf 0 (length buf))" using toString_as [OF c e assms(1) False] .
  let ?s = "slice_as c buf 0 (length buf)"
  have "byteLength ?s (Txt e) = Inr (length buf)
    \<and> write_as c (replicate (length ?ns) 0) ?s 0 (length ?ns) = Inr (map word_of_nat ?ns, length ?ns)"
  proof -
    have n: "?ns \<noteq> []" "\<not> length buf = 0" using False by simp_all
    consider "e = ''hex''" "c = Hex" | "e = ''base64''" "c = B64" | "e = ''latin1''" "c = Latin1" | "e = ''ucs2''" "c = Ucs2" "even (length buf)"
      using assms(2) c encoding_names by auto
    then show ?thesis
    proof cases
      case 1
      have s: "?s = concat (map toHex ?ns)" using 1 False by (simp add: slice_as_def hexSlice_def window_whole)
      have l: "length ?s = 2 * length buf" using hex_text [OF bytes_small] s by simp
      have "hex_loop (replicate (length ?ns) 0) ?s 0 (length ?ns) 0 = (map word_of_nat ?ns, length ?ns)"
        using hex_loop_text [OF bytes_small, of "replicate (length ?ns) 0" buf 0] unfolding s by simp
      then show ?thesis using 1 l n c by (auto simp: byteLength_def write_as_def hexWrite_def Let_def)
    next
      case 2
      have s: "?s = units_of (fromByteArray buf)" using 2 by (simp add: slice_as_def base64Slice_def)
      have b: "base64ToBytes ?s = Inr ?ns" unfolding s by (rule base64_full)
      have "0 < (length buf + 2) div 3" using n(2) by (simp add: div_greater_zero_iff Suc_le_eq)
      then have "length ?s \<noteq> 0" by (simp add: s units_of_def fromByteArray_ref length_ref64)
      then show ?thesis using 2 b c blit_all [of ?ns] by (simp add: byteLength_def write_as_def)
    next
      case 3
      have s: "?s = ?ns" using 3 by (simp add: slice_as_def latin1Slice_def window_whole)
      have "asciiToBytes ?ns = ?ns"
        unfolding asciiToBytes_def by (rule map_idI) (use unat8 in \<open>auto simp: and255\<close>)
      then show ?thesis using 3 c n blit_all [of ?ns] unfolding s by (simp add: byteLength_def write_as_def)
    next
      case 4
      have s: "?s = ucs2_loop ?ns" using 4 by (simp add: slice_as_def utf16leSlice_def window_whole)
      have u: "utf16leToBytes ?s (int (length ?ns)) = ?ns" "2 * length ?s = length ?ns"
        using ucs2_units [of ?ns] bytes_small 4(3) unfolding s by simp_all
      then have "length ?s \<noteq> 0" using n by auto
      then show ?thesis using 4 c u blit_all [of ?ns] by (simp add: byteLength_def write_as_def)
    qed
  qed
  then show ?thesis using t from_written [OF c e _ assms(1)] by blast
qed

theorem bytes_roundtrip_witness:
  "\<exists>s. toString [0, 255, 0x61] (Txt ''hex'') None None = Inr s \<and> fromString s (Txt ''hex'') = Inr [0, 255, 0x61]"
  using bytes_roundtrip [of "[0, 255, 0x61]" "''hex''"] by simp

subsection \<open>The data of a token\<close>

text \<open>
  \<open>decodeBase64\<close> and \<open>encodeBase64\<close> of the client socket: without a Buffer they use \<open>atob\<close> and
  \<open>btoa\<close> where the page has them, and the \<open>base-64\<close> module otherwise, which rejects every code
  unit that is not in its alphabet.
\<close>

definition decodeBase64 :: "bool \<Rightarrow> (units \<Rightarrow> exn + units) option \<Rightarrow> units \<Rightarrow> exn + units" where
  "decodeBase64 no_buffer atob encodedString =
     (if no_buffer then
        (case atob of Some f \<Rightarrow> f encodedString
         | None \<Rightarrow> decode64 (map (\<lambda>c. if c < 256 then char_of c else CHR 0x00) encodedString))
      else (case fromString encodedString (Txt ''base64'') of Inl e \<Rightarrow> Inl e
         | Inr buffer \<Rightarrow> toString buffer (Txt ''utf8'') None None))"

definition encodeBase64 :: "bool \<Rightarrow> (units \<Rightarrow> exn + units) option \<Rightarrow> units \<Rightarrow> exn + units" where
  "encodeBase64 no_buffer btoa decodedString =
     (if no_buffer then
        (case btoa of Some f \<Rightarrow> f decodedString | None \<Rightarrow> map_sum id units_of (encode64 decodedString))
      else (case fromString decodedString (Txt ''utf8'') of Inl e \<Rightarrow> Inl e
         | Inr buffer \<Rightarrow> toString buffer (Txt ''base64'') None None))"

lemma paired_end: "scrub s = s \<Longrightarrow> s \<noteq> [] \<Longrightarrow> \<not> lead (last s)"
  by (induction s rule: scrub.induct) (auto simp: lead_def trail_def split: if_splits)

text \<open>
  C15: The client reads the data of every token: of a text in which all surrogates are in pairs,
  encoded the way tokens are, as UTF-8 in base 64 with \<open>-\<close> and \<open>_\<close> and without padding,
  \<open>decodeBase64\<close> gives the text, as it does of what \<open>encodeBase64\<close> makes of the text.
\<close>

theorem token_data_read:
  assumes "list_all (\<lambda>c. c < 65536) s" and "3 * length s \<le> 0x7fffffff" and "scrub s = s"
  shows "\<exists>bs t. utf8ToBytes s None = Inr bs
    \<and> decodeBase64 False atob (units_of (map url_char (unpadded (map word_of_nat bs)))) = Inr s
    \<and> encodeBase64 False btoa s = Inr t \<and> decodeBase64 False atob t = Inr s"
proof -
  obtain bs where bs: "utf8ToBytes s None = Inr bs" "fromString s (Txt ''utf8'') = Inr (map word_of_nat bs)" "length bs \<le> 0x7fffffff"
    "toString (map word_of_nat bs) (Txt ''utf8'') None None = Inr (scrub (cut_end s))" using assms(1,2) by (rule utf8_buffer)
  let ?b = "map word_of_nat bs :: bytes"
  have "cut_end s = s" using paired_end [OF assms(3)] by (cases "s = []") (auto simp: cut_end_def)
  then have t: "toString ?b (Txt ''utf8'') None None = Inr s" using bs(4) assms(3) by simp
  have d: "decodeBase64 False atob u = Inr s" if "base64ToBytes u = Inr (map unat ?b)" for u
    using base64_buffer [OF that] bs(3) t by (simp add: decodeBase64_def)
  have e: "\<exists>u. encodeBase64 False btoa s = Inr u \<and> base64ToBytes u = Inr (map unat ?b)"
  proof (cases "?b = []")
    case True
    then show ?thesis using bs(2) base64_empty by (simp add: encodeBase64_def toString_def)
  next
    case False
    have "toString ?b (Txt ''base64'') None None = Inr (units_of (fromByteArray ?b))"
      using toString_as [OF encoding_names(4) _ _ False] bs(3) by (simp add: slice_as_def base64Slice_def)
    then show ?thesis using bs(2) base64_full by (simp add: encodeBase64_def)
  qed
  then obtain u where "encodeBase64 False btoa s = Inr u" "base64ToBytes u = Inr (map unat ?b)" by blast
  then show ?thesis using bs(1) d base64_url by blast
qed

theorem token_data_read_witness:
  "\<exists>bs t. utf8ToBytes (units_of ''{}'') None = Inr bs
    \<and> decodeBase64 False None (units_of (map url_char (unpadded (map word_of_nat bs)))) = Inr (units_of ''{}'')
    \<and> encodeBase64 False None (units_of ''{}'') = Inr t \<and> decodeBase64 False None t = Inr (units_of ''{}'')"
  by (rule token_data_read) (simp_all add: units_of_def lead_def trail_def)

end
