(* ===== verification/Buf_Num.thy ===== *)
theory Buf_Num
  imports Buf_Codec
begin

text \<open>
  The integers of the Buffer (module 10 of \<open>socketcluster.js\<close>), read and written with a given
  length or a fixed size, in both byte orders, with and without a sign. An offset is
  taken modulo \<open>2^32\<close>; values are whole numbers. A length is at least one byte (with none the
  code reads a neighbour of the offset or nothing) and at most six, what a double holds exactly:
  the model computes in \<open>int\<close>. With \<open>noAssert\<close> the code skips its checks; the model is of the
  checked operations. The lemmas give the value of each loop in terms of the bytes of a number
  (\<open>bytes_of\<close>, \<open>le_val\<close>), and show the operations of a fixed size equal to the general ones.
\<close>

subsection \<open>Reading\<close>

text \<open>\<open>this[i]\<close>: the checks come first, so the index is in the buffer.\<close>

definition octet :: "bytes \<Rightarrow> nat \<Rightarrow> int" where
  "octet buf i = int (unat (buf ! i))"

text \<open>The offset is a whole number that is not negative by now, so the first check never fails.\<close>

definition checkOffset :: "nat \<Rightarrow> nat \<Rightarrow> nat \<Rightarrow> exn + unit" where
  "checkOffset offset ext len = (if offset + ext > len then Inl (range_error ''Trying to access beyond buffer length'') else Inr ())"

text \<open>What a reader makes of the checked offset.\<close>

definition reading :: "bytes \<Rightarrow> int \<Rightarrow> nat \<Rightarrow> (nat \<Rightarrow> int) \<Rightarrow> exn + int" where
  "reading buf offset ext f =
     (case checkOffset (uint32 offset) ext (length buf) of Inl e \<Rightarrow> Inl e | Inr _ \<Rightarrow> Inr (f (uint32 offset)))"

text \<open>
  \<open>while (++i < byteLen && (mul *= 0x100)) val += this[offset + i] * mul\<close>, from the value
  of \<open>i\<close> and the multiplier; the loop gives the value and the last multiplier.
\<close>

function le_loop :: "bytes \<Rightarrow> nat \<Rightarrow> nat \<Rightarrow> nat \<Rightarrow> int \<Rightarrow> int \<Rightarrow> int \<times> int" where
  "le_loop buf offset byteLen i mul val =
     (if Suc i < byteLen
      then le_loop buf offset byteLen (Suc i) (mul * 0x100) (val + octet buf (offset + Suc i) * (mul * 0x100))
      else (val, mul))"
  by pat_completeness auto
termination
  by (relation "measure (\<lambda>(buf, offset, n, i, mul, val). n - i)") auto

text \<open>\<open>while (i > 0 && (mul *= 0x100)) val += this[offset + --i] * mul\<close>\<close>

fun be_loop :: "bytes \<Rightarrow> nat \<Rightarrow> nat \<Rightarrow> int \<Rightarrow> int \<Rightarrow> int \<times> int" where
  "be_loop buf offset 0 mul val = (val, mul)"
| "be_loop buf offset (Suc i) mul val = be_loop buf offset i (mul * 0x100) (val + octet buf (offset + i) * (mul * 0x100))"

declare le_loop.simps [simp del]

definition readUIntLE :: "bytes \<Rightarrow> int \<Rightarrow> nat \<Rightarrow> exn + int" where
  "readUIntLE buf offset byteLen =
     reading buf offset byteLen (\<lambda>offset. fst (le_loop buf offset byteLen 0 1 (octet buf offset)))"

definition readUIntBE :: "bytes \<Rightarrow> int \<Rightarrow> nat \<Rightarrow> exn + int" where
  "readUIntBE buf offset byteLen =
     reading buf offset byteLen (\<lambda>offset. fst (be_loop buf offset (byteLen - 1) 1 (octet buf (offset + (byteLen - 1)))))"

text \<open>\<open>mul *= 0x80; if (val >= mul) val -= Math.pow(2, 8 * byteLen)\<close>\<close>

definition signed :: "nat \<Rightarrow> int \<times> int \<Rightarrow> int" where
  "signed byteLen r = (case r of (val, mul) \<Rightarrow> if val \<ge> mul * 0x80 then val - 2 ^ (8 * byteLen) else val)"

definition readIntLE :: "bytes \<Rightarrow> int \<Rightarrow> nat \<Rightarrow> exn + int" where
  "readIntLE buf offset byteLen =
     reading buf offset byteLen (\<lambda>offset. signed byteLen (le_loop buf offset byteLen 0 1 (octet buf offset)))"

definition readIntBE :: "bytes \<Rightarrow> int \<Rightarrow> nat \<Rightarrow> exn + int" where
  "readIntBE buf offset byteLen =
     reading buf offset byteLen (\<lambda>offset. signed byteLen (be_loop buf offset (byteLen - 1) 1 (octet buf (offset + (byteLen - 1)))))"

text \<open>The bitwise operators work on 32-bit integers with a sign.\<close>

definition int32 :: "int \<Rightarrow> int" where
  "int32 n = (if n mod 2 ^ 32 \<ge> 2 ^ 31 then n mod 2 ^ 32 - 2 ^ 32 else n mod 2 ^ 32)"

definition shl :: "int \<Rightarrow> nat \<Rightarrow> int" where
  "shl n k = int32 (push_bit k (int32 n))"

definition readUInt8 :: "bytes \<Rightarrow> int \<Rightarrow> exn + int" where
  "readUInt8 buf offset = reading buf offset 1 (\<lambda>p. octet buf p)"

definition readUInt16LE :: "bytes \<Rightarrow> int \<Rightarrow> exn + int" where
  "readUInt16LE buf offset = reading buf offset 2 (\<lambda>p. octet buf p OR shl (octet buf (p + 1)) 8)"

definition readUInt16BE :: "bytes \<Rightarrow> int \<Rightarrow> exn + int" where
  "readUInt16BE buf offset = reading buf offset 2 (\<lambda>p. shl (octet buf p) 8 OR octet buf (p + 1))"

definition readUInt32LE :: "bytes \<Rightarrow> int \<Rightarrow> exn + int" where
  "readUInt32LE buf offset = reading buf offset 4
     (\<lambda>p. (octet buf p OR shl (octet buf (p + 1)) 8 OR shl (octet buf (p + 2)) 16) + octet buf (p + 3) * 0x1000000)"

definition readUInt32BE :: "bytes \<Rightarrow> int \<Rightarrow> exn + int" where
  "readUInt32BE buf offset = reading buf offset 4
     (\<lambda>p. octet buf p * 0x1000000 + (shl (octet buf (p + 1)) 16 OR shl (octet buf (p + 2)) 8 OR octet buf (p + 3)))"

definition readInt8 :: "bytes \<Rightarrow> int \<Rightarrow> exn + int" where
  "readInt8 buf offset = reading buf offset 1
     (\<lambda>p. if octet buf p AND 0x80 = 0 then octet buf p else (0xff - octet buf p + 1) * -1)"

definition sign16 :: "int \<Rightarrow> int" where
  "sign16 val = (if val AND 0x8000 \<noteq> 0 then int32 (val OR 0xFFFF0000) else val)"

definition readInt16LE :: "bytes \<Rightarrow> int \<Rightarrow> exn + int" where
  "readInt16LE buf offset = reading buf offset 2 (\<lambda>p. sign16 (octet buf p OR shl (octet buf (p + 1)) 8))"

definition readInt16BE :: "bytes \<Rightarrow> int \<Rightarrow> exn + int" where
  "readInt16BE buf offset = reading buf offset 2 (\<lambda>p. sign16 (octet buf (p + 1) OR shl (octet buf p) 8))"

definition readInt32LE :: "bytes \<Rightarrow> int \<Rightarrow> exn + int" where
  "readInt32LE buf offset = reading buf offset 4
     (\<lambda>p. octet buf p OR shl (octet buf (p + 1)) 8 OR shl (octet buf (p + 2)) 16 OR shl (octet buf (p + 3)) 24)"

definition readInt32BE :: "bytes \<Rightarrow> int \<Rightarrow> exn + int" where
  "readInt32BE buf offset = reading buf offset 4
     (\<lambda>p. shl (octet buf p) 24 OR shl (octet buf (p + 1)) 16 OR shl (octet buf (p + 2)) 8 OR octet buf (p + 3))"

subsection \<open>Writing\<close>

definition checkInt :: "bytes \<Rightarrow> int \<Rightarrow> nat \<Rightarrow> nat \<Rightarrow> int \<Rightarrow> int \<Rightarrow> exn + unit" where
  "checkInt buf val offset ext mx mn =
     (if val > mx \<or> val < mn then Inl (range_error ''\"value\" argument is out of bounds'')
      else if offset + ext > length buf then Inl (range_error ''Index out of range'') else Inr ())"

definition writing :: "bytes \<Rightarrow> int \<Rightarrow> int \<Rightarrow> nat \<Rightarrow> int \<Rightarrow> int \<Rightarrow> (nat \<Rightarrow> bytes) \<Rightarrow> exn + bytes \<times> nat" where
  "writing buf val offset ext mx mn f =
     (case checkInt buf val (uint32 offset) ext mx mn of Inl e \<Rightarrow> Inl e | Inr _ \<Rightarrow> Inr (f (uint32 offset), uint32 offset + ext))"

text \<open>What is stored in the buffer is taken modulo 256; \<open>put\<close> does it.\<close>

definition put :: "bytes \<Rightarrow> nat \<Rightarrow> int \<Rightarrow> bytes" where
  "put buf i v = buf[i := word_of_int v]"

text \<open>
  \<open>(value / mul) & 0xFF\<close> and \<open>((value / mul) >> 0) - sub & 0xFF\<close>: the quotient of the exact
  division is cut off towards zero.
\<close>

definition quotient :: "int \<Rightarrow> int \<Rightarrow> int" where
  "quotient v m = (if v < 0 then - ((- v) div m) else v div m)"

function put_le :: "bytes \<Rightarrow> int \<Rightarrow> nat \<Rightarrow> nat \<Rightarrow> nat \<Rightarrow> int \<Rightarrow> bytes" where
  "put_le buf val offset byteLen i mul =
     (if Suc i < byteLen
      then put_le (put buf (offset + Suc i) (int32 (quotient val (mul * 0x100)) AND 0xFF)) val offset byteLen (Suc i) (mul * 0x100)
      else buf)"
  by pat_completeness auto
termination
  by (relation "measure (\<lambda>(buf, val, offset, n, i, mul). n - i)") auto

fun put_be :: "bytes \<Rightarrow> int \<Rightarrow> nat \<Rightarrow> nat \<Rightarrow> int \<Rightarrow> bytes" where
  "put_be buf val offset 0 mul = buf"
| "put_be buf val offset (Suc i) mul =
     put_be (put buf (offset + i) (int32 (quotient val (mul * 0x100)) AND 0xFF)) val offset i (mul * 0x100)"

declare put_le.simps [simp del]

definition writeUIntLE :: "bytes \<Rightarrow> int \<Rightarrow> int \<Rightarrow> nat \<Rightarrow> exn + bytes \<times> nat" where
  "writeUIntLE buf val offset byteLen =
     writing buf val offset byteLen (2 ^ (8 * byteLen) - 1) 0
       (\<lambda>p. put_le (put buf p (int32 val AND 0xFF)) val p byteLen 0 1)"

definition writeUIntBE :: "bytes \<Rightarrow> int \<Rightarrow> int \<Rightarrow> nat \<Rightarrow> exn + bytes \<times> nat" where
  "writeUIntBE buf val offset byteLen =
     writing buf val offset byteLen (2 ^ (8 * byteLen) - 1) 0
       (\<lambda>p. put_be (put buf (p + (byteLen - 1)) (int32 val AND 0xFF)) val p (byteLen - 1) 1)"

text \<open>With a sign, \<open>sub\<close> is 1 once a byte that is not zero has been written for a negative value.\<close>

definition borrow :: "int \<Rightarrow> int \<Rightarrow> int \<Rightarrow> int" where
  "borrow val sub prev = (if val < 0 \<and> sub = 0 \<and> prev \<noteq> 0 then 1 else sub)"

function put_int_le :: "bytes \<Rightarrow> int \<Rightarrow> nat \<Rightarrow> nat \<Rightarrow> nat \<Rightarrow> int \<Rightarrow> int \<Rightarrow> bytes" where
  "put_int_le buf val offset byteLen i mul sub =
     (if Suc i < byteLen then
        (let sub = borrow val sub (octet buf (offset + i))
         in put_int_le (put buf (offset + Suc i) ((int32 (quotient val (mul * 0x100)) - sub) AND 0xFF))
              val offset byteLen (Suc i) (mul * 0x100) sub)
      else buf)"
  by pat_completeness auto
termination
  by (relation "measure (\<lambda>(buf, val, offset, n, i, mul, sub). n - i)") auto

fun put_int_be :: "bytes \<Rightarrow> int \<Rightarrow> nat \<Rightarrow> nat \<Rightarrow> int \<Rightarrow> int \<Rightarrow> bytes" where
  "put_int_be buf val offset 0 mul sub = buf"
| "put_int_be buf val offset (Suc i) mul sub =
     (let sub = borrow val sub (octet buf (offset + Suc i))
      in put_int_be (put buf (offset + i) ((int32 (quotient val (mul * 0x100)) - sub) AND 0xFF)) val offset i (mul * 0x100) sub)"

declare put_int_le.simps [simp del]

definition writeIntLE :: "bytes \<Rightarrow> int \<Rightarrow> int \<Rightarrow> nat \<Rightarrow> exn + bytes \<times> nat" where
  "writeIntLE buf val offset byteLen =
     writing buf val offset byteLen (2 ^ (8 * byteLen - 1) - 1) (- (2 ^ (8 * byteLen - 1)))
       (\<lambda>p. put_int_le (put buf p (int32 val AND 0xFF)) val p byteLen 0 1 0)"

definition writeIntBE :: "bytes \<Rightarrow> int \<Rightarrow> int \<Rightarrow> nat \<Rightarrow> exn + bytes \<times> nat" where
  "writeIntBE buf val offset byteLen =
     writing buf val offset byteLen (2 ^ (8 * byteLen - 1) - 1) (- (2 ^ (8 * byteLen - 1)))
       (\<lambda>p. put_int_be (put buf (p + (byteLen - 1)) (int32 val AND 0xFF)) val p (byteLen - 1) 1 0)"

text \<open>
  \<open>value >>> k\<close>, and the writers of a fixed size. They set their bytes at different indices, in an
  order that makes no difference.
\<close>

definition shr :: "int \<Rightarrow> nat \<Rightarrow> int" where
  "shr v k = drop_bit k (v mod 2 ^ 32)"

definition writeUInt8 :: "bytes \<Rightarrow> int \<Rightarrow> int \<Rightarrow> exn + bytes \<times> nat" where
  "writeUInt8 buf val offset = writing buf val offset 1 0xff 0 (\<lambda>p. put buf p (int32 val AND 0xff))"

definition put16 :: "bytes \<Rightarrow> nat \<Rightarrow> nat \<Rightarrow> int \<Rightarrow> bytes" where
  "put16 buf lo hi val = put (put buf lo (int32 val AND 0xff)) hi (shr val 8)"

definition writeUInt16LE :: "bytes \<Rightarrow> int \<Rightarrow> int \<Rightarrow> exn + bytes \<times> nat" where
  "writeUInt16LE buf val offset = writing buf val offset 2 0xffff 0 (\<lambda>p. put16 buf p (p + 1) val)"

definition writeUInt16BE :: "bytes \<Rightarrow> int \<Rightarrow> int \<Rightarrow> exn + bytes \<times> nat" where
  "writeUInt16BE buf val offset = writing buf val offset 2 0xffff 0 (\<lambda>p. put16 buf (p + 1) p val)"

definition put32 :: "bytes \<Rightarrow> nat \<Rightarrow> nat \<Rightarrow> nat \<Rightarrow> nat \<Rightarrow> int \<Rightarrow> bytes" where
  "put32 buf a b c d val = put (put (put (put buf d (shr val 24)) c (shr val 16)) b (shr val 8)) a (int32 val AND 0xff)"

definition writeUInt32LE :: "bytes \<Rightarrow> int \<Rightarrow> int \<Rightarrow> exn + bytes \<times> nat" where
  "writeUInt32LE buf val offset = writing buf val offset 4 0xffffffff 0 (\<lambda>p. put32 buf p (p + 1) (p + 2) (p + 3) val)"

definition writeUInt32BE :: "bytes \<Rightarrow> int \<Rightarrow> int \<Rightarrow> exn + bytes \<times> nat" where
  "writeUInt32BE buf val offset = writing buf val offset 4 0xffffffff 0 (\<lambda>p. put32 buf (p + 3) (p + 2) (p + 1) p val)"

definition writeInt8 :: "bytes \<Rightarrow> int \<Rightarrow> int \<Rightarrow> exn + bytes \<times> nat" where
  "writeInt8 buf val offset = writing buf val offset 1 0x7f (-0x80)
     (\<lambda>p. put buf p (int32 (if val < 0 then 0xff + val + 1 else val) AND 0xff))"

definition writeInt16LE :: "bytes \<Rightarrow> int \<Rightarrow> int \<Rightarrow> exn + bytes \<times> nat" where
  "writeInt16LE buf val offset = writing buf val offset 2 0x7fff (-0x8000) (\<lambda>p. put16 buf p (p + 1) val)"

definition writeInt16BE :: "bytes \<Rightarrow> int \<Rightarrow> int \<Rightarrow> exn + bytes \<times> nat" where
  "writeInt16BE buf val offset = writing buf val offset 2 0x7fff (-0x8000) (\<lambda>p. put16 buf (p + 1) p val)"

definition writeInt32LE :: "bytes \<Rightarrow> int \<Rightarrow> int \<Rightarrow> exn + bytes \<times> nat" where
  "writeInt32LE buf val offset = writing buf val offset 4 0x7fffffff (-0x80000000) (\<lambda>p. put32 buf p (p + 1) (p + 2) (p + 3) val)"

definition writeInt32BE :: "bytes \<Rightarrow> int \<Rightarrow> int \<Rightarrow> exn + bytes \<times> nat" where
  "writeInt32BE buf val offset = writing buf val offset 4 0x7fffffff (-0x80000000)
     (\<lambda>p. put32 buf (p + 3) (p + 2) (p + 1) p (if val < 0 then 0xffffffff + val + 1 else val))"

subsection \<open>Bytes of a number\<close>

primrec bytes_of :: "nat \<Rightarrow> int \<Rightarrow> bytes" where
  "bytes_of 0 v = []"
| "bytes_of (Suc n) v = word_of_int v # bytes_of n (v div 256)"

fun le_val :: "bytes \<Rightarrow> int" where
  "le_val [] = 0"
| "le_val (b # bs) = int (unat b) + 256 * le_val bs"

lemma length_bytes_of [simp]: "length (bytes_of n v) = n"
  by (induction n arbitrary: v) simp_all

lemma unat_word_of_int8: "int (unat (word_of_int v :: 8 word)) = v mod 256"
proof -
  have "int (unat (word_of_int v :: 8 word)) = uint (word_of_int v :: 8 word)" by simp
  also have "\<dots> = v mod 256" unfolding uint_word_of_int by (simp add: take_bit_eq_mod)
  finally show ?thesis .
qed

lemma le_val_bytes_of: "le_val (bytes_of n v) = v mod 256 ^ n"
proof (induction n arbitrary: v)
  case (Suc n)
  have "v mod (256 * 256 ^ n) = 256 * (v div 256 mod 256 ^ n) + v mod 256" by (rule zmod_zmult2_eq) simp
  then show ?case using Suc unat_word_of_int8 [of v] by simp
qed simp

lemma le_val_range: "0 \<le> le_val bs \<and> le_val bs < 256 ^ length bs"
proof (induction bs)
  case (Cons b bs)
  have "uint b < 256" "0 \<le> uint b" using unsigned_less [of b, where 'a = int] by simp_all
  then show ?case using Cons by auto
qed simp

lemma bytes_of_append: "bytes_of (m + n) v = bytes_of m v @ bytes_of n (v div 256 ^ m)"
proof (induction m arbitrary: v)
  case (Suc m)
  have "v div 256 div 256 ^ m = v div (256 * 256 ^ m)" by (rule zdiv_zmult2_eq [symmetric]) simp
  then show ?case using Suc by simp
qed simp

subsection \<open>The loops\<close>

definition part :: "bytes \<Rightarrow> nat \<Rightarrow> nat \<Rightarrow> bytes" where
  "part buf p n = take n (drop p buf)"

lemma part_Cons: "p < length buf \<Longrightarrow> part buf p (Suc n) = buf ! p # part buf (Suc p) n"
  by (simp add: part_def Cons_nth_drop_Suc [symmetric])

lemma part_snoc: "p + n < length buf \<Longrightarrow> part buf p (Suc n) = part buf p n @ [buf ! (p + n)]"
  by (simp add: part_def take_Suc_conv_app_nth)

lemma le_loop_eq:
  "i < n \<Longrightarrow> p + n \<le> length buf \<Longrightarrow>
   le_loop buf p n i mul v = (v + mul * 256 * le_val (part buf (p + Suc i) (n - Suc i)), mul * 256 ^ (n - Suc i))"
proof (induction buf p n i mul v rule: le_loop.induct)
  case (1 buf p n i mul v)
  show ?case
  proof (cases "Suc i < n")
    case True
    define k where "k = n - Suc (Suc i)"
    have k: "n - Suc i = Suc k" "n - Suc (Suc i) = k" using True by (simp_all add: k_def)
    have "part buf (p + Suc i) (Suc k) = buf ! (p + Suc i) # part buf (p + Suc (Suc i)) k"
      using part_Cons [of "p + Suc i" buf k] True "1.prems" by simp
    then show ?thesis using "1.IH" True "1.prems"(2)
      by (simp add: le_loop.simps [of buf p n i] k octet_def algebra_simps)
  next
    case False
    then have "n - Suc i = 0" using "1.prems" by simp
    then show ?thesis using False by (simp add: le_loop.simps [of buf p n i] part_def)
  qed
qed

lemma be_loop_eq:
  "p + i \<le> length buf \<Longrightarrow> be_loop buf p i mul v = (v + mul * 256 * le_val (rev (part buf p i)), mul * 256 ^ i)"
proof (induction i arbitrary: mul v)
  case (Suc i)
  have "rev (part buf p (Suc i)) = buf ! (p + i) # rev (part buf p i)" using part_snoc [of p i buf] Suc.prems by simp
  then show ?case using Suc by (simp add: octet_def algebra_simps)
qed (simp add: part_def)

subsection \<open>What the writers leave\<close>

lemma int32_mod: "int32 q mod 256 = q mod 256"
proof -
  have d: "(256 :: int) dvd 2 ^ 32" by simp
  have "q mod 2 ^ 32 mod 256 = q mod 256" using d by (rule mod_mod_cancel)
  moreover have "(q mod 2 ^ 32 - 2 ^ 32) mod 256 = q mod 2 ^ 32 mod 256" using d by (simp add: mod_diff_eq [symmetric] dvd_imp_mod_0)
  ultimately show ?thesis by (simp add: int32_def)
qed

lemma and_byte: "(v :: int) AND 0xFF = v mod 256"
  using take_bit_eq_mask [of 8 v] by (simp add: take_bit_eq_mod mask_eq_exp_minus_1)

lemma word_mod: "a mod 256 = b mod 256 \<Longrightarrow> (word_of_int a :: 8 word) = word_of_int b"
  using word_of_int_eq_iff [of a b, where 'a = 8] by (simp add: take_bit_eq_mod)

lemma put_length [simp]: "length (put buf i v) = length buf"
  by (simp add: put_def)

lemma put_mod: "a mod 256 = b mod 256 \<Longrightarrow> put buf i a = put buf i b"
  unfolding put_def by (drule word_mod) simp

lemma put_int32: "put buf i (int32 q AND 0xFF) = put buf i q" "put buf i ((int32 q - sub) AND 0xFF) = put buf i (q - sub)"
proof -
  show "put buf i (int32 q AND 0xFF) = put buf i q"
    by (rule put_mod) (simp add: and_byte int32_mod)
  have "(int32 q - sub) mod 256 = (int32 q mod 256 - sub) mod 256" by (rule mod_diff_left_eq [symmetric])
  also have "\<dots> = (q mod 256 - sub) mod 256" by (simp only: int32_mod)
  also have "\<dots> = (q - sub) mod 256" by (rule mod_diff_left_eq)
  finally show "put buf i ((int32 q - sub) AND 0xFF) = put buf i (q - sub)"
    by (intro put_mod) (simp only: and_byte mod_mod_trivial)
qed

lemma octet_put: "i < length buf \<Longrightarrow> octet (put buf i v) i = v mod 256"
  using unat_word_of_int8 [of v] by (simp add: octet_def put_def)

lemma octet_other: "i \<noteq> j \<Longrightarrow> octet (put buf i v) j = octet buf j"
  by (simp add: octet_def put_def)

lemma take_put: "n \<le> i \<Longrightarrow> take n (put buf i v) = take n buf"
  by (simp add: put_def)

lemma drop_put: "i < n \<Longrightarrow> drop n (put buf i v) = drop n buf"
  by (simp add: put_def)

lemma take_Suc_put: "i < length buf \<Longrightarrow> take (Suc i) (put buf i v) = take i buf @ [word_of_int v]"
  by (simp add: put_def take_Suc_conv_app_nth)

lemma drop_at_put: "i < length buf \<Longrightarrow> drop i (put buf i v) = word_of_int v # drop (Suc i) buf"
  by (simp add: put_def Cons_nth_drop_Suc [symmetric] drop_update_swap)

text \<open>The quotient and the borrow make the digit of the two's complement.\<close>

lemma quotient_borrow:
  assumes "m > 0"
  shows "quotient v m - of_bool (v < 0 \<and> v mod m \<noteq> 0) = v div m"
proof (cases "v < 0")
  case True
  have "v mod m = 0 \<longleftrightarrow> (- v) mod m = 0" by (metis minus_equation_iff mod_0 mod_minus_eq neg_0_equal_iff_equal)
  then show ?thesis using True zdiv_zminus1_eq_if [of m "- v"] assms by (simp add: quotient_def)
qed (simp add: quotient_def)

lemma borrow_eq:
  assumes "m > 0" and "prev = v div m mod 256"
  shows "borrow v (of_bool (v < 0 \<and> v mod m \<noteq> 0)) prev = of_bool (v < 0 \<and> v mod (m * 256) \<noteq> 0)"
proof -
  have "v mod (m * 256) = m * (v div m mod 256) + v mod m" by (rule zmod_zmult2_eq) simp
  moreover have "0 \<le> v mod m" "0 \<le> v div m mod 256" using assms(1) by simp_all
  ultimately have "v mod (m * 256) = 0 \<longleftrightarrow> v div m mod 256 = 0 \<and> v mod m = 0"
    using assms(1) by (smt (verit) mult_eq_0_iff mult_nonneg_nonneg)
  then show ?thesis using assms(2) by (auto simp: borrow_def)
qed

lemma put_int_le_eq:
  "i < n \<Longrightarrow> p + n \<le> length buf \<Longrightarrow> mul > 0 \<Longrightarrow> octet buf (p + i) = v div mul mod 256 \<Longrightarrow> sub = of_bool (v < 0 \<and> v mod mul \<noteq> 0)
   \<Longrightarrow> put_int_le buf v p n i mul sub = take (p + Suc i) buf @ bytes_of (n - Suc i) (v div (mul * 256)) @ drop (p + n) buf"
proof (induction buf v p n i mul sub rule: put_int_le.induct)
  case (1 buf v p n i mul sub)
  show ?case
  proof (cases "Suc i < n")
    case True
    let ?m = "mul * 256"
    let ?sub = "borrow v sub (octet buf (p + i))"
    have sub: "?sub = of_bool (v < 0 \<and> v mod ?m \<noteq> 0)" using borrow_eq [OF "1.prems"(3,4)] "1.prems"(5) by simp
    have q: "quotient v ?m - ?sub = v div ?m" using quotient_borrow [of ?m v] "1.prems"(3) sub by simp
    let ?b = "put buf (p + Suc i) (v div ?m)"
    have step: "put_int_le buf v p n i mul sub = put_int_le ?b v p n (Suc i) ?m ?sub"
      using True q by (simp add: put_int_le.simps [of buf] Let_def put_int32)
    have "put_int_le ?b v p n (Suc i) ?m ?sub = take (p + Suc (Suc i)) ?b @ bytes_of (n - Suc (Suc i)) (v div (?m * 256)) @ drop (p + n) ?b"
      using "1.IH" [OF True refl] True "1.prems" q sub by (simp add: put_int32 octet_put)
    moreover have "take (p + Suc (Suc i)) ?b = take (p + Suc i) buf @ [word_of_int (v div ?m)]"
      using take_Suc_put [of "p + Suc i" buf] True "1.prems"(2) by simp
    moreover have "drop (p + n) ?b = drop (p + n) buf" using True by (simp add: drop_put)
    moreover have "n - Suc i = Suc (n - Suc (Suc i))" using True by simp
    moreover have "v div ?m div 256 = v div (?m * 256)" by (rule zdiv_zmult2_eq [symmetric]) simp
    ultimately show ?thesis using step by simp
  next
    case False
    then have "n = Suc i" using "1.prems" by simp
    then show ?thesis by (simp add: put_int_le.simps [of buf])
  qed
qed

lemma put_int_be_eq:
  "p + Suc i \<le> length buf \<Longrightarrow> mul > 0 \<Longrightarrow> octet buf (p + i) = v div mul mod 256 \<Longrightarrow> sub = of_bool (v < 0 \<and> v mod mul \<noteq> 0)
   \<Longrightarrow> put_int_be buf v p i mul sub = take p buf @ rev (bytes_of i (v div (mul * 256))) @ drop (p + i) buf"
proof (induction i arbitrary: buf mul sub)
  case (Suc i)
  let ?m = "mul * 256"
  let ?sub = "borrow v sub (octet buf (p + Suc i))"
  let ?b = "put buf (p + i) (v div ?m)"
  have sub: "?sub = of_bool (v < 0 \<and> v mod ?m \<noteq> 0)" using borrow_eq [OF Suc.prems(2,3)] Suc.prems(4) by simp
  have q: "quotient v ?m - ?sub = v div ?m" using quotient_borrow [of ?m v] Suc.prems(2) sub by simp
  have "put_int_be buf v p (Suc i) mul sub = put_int_be ?b v p i ?m ?sub"
    using q by (simp add: Let_def put_int32)
  also have "\<dots> = take p ?b @ rev (bytes_of i (v div (?m * 256))) @ drop (p + i) ?b"
    using Suc.prems sub by (intro Suc.IH) (simp_all add: octet_put)
  also have "drop (p + i) ?b = word_of_int (v div ?m) # drop (p + Suc i) buf" using drop_at_put [of "p + i" buf] Suc.prems(1) by simp
  also have "take p ?b = take p buf" by (simp add: take_put)
  finally have "put_int_be buf v p (Suc i) mul sub = take p buf @ rev (bytes_of i (v div (?m * 256))) @ word_of_int (v div ?m) # drop (p + Suc i) buf" .
  moreover have "v div ?m div 256 = v div (?m * 256)" by (rule zdiv_zmult2_eq [symmetric]) simp
  ultimately show ?case by (simp only: bytes_of.simps rev.simps append_assoc append_Cons append_Nil)
qed simp

lemma unsigned_loops:
  "v \<ge> 0 \<Longrightarrow> put_le buf v p n i mul = put_int_le buf v p n i mul 0"
  "v \<ge> 0 \<Longrightarrow> put_be buf v p i mul = put_int_be buf v p i mul 0"
proof -
  show "v \<ge> 0 \<Longrightarrow> put_le buf v p n i mul = put_int_le buf v p n i mul 0"
    by (induction buf v p n i mul rule: put_le.induct)
      (simp add: put_le.simps put_int_le.simps [where sub = 0] borrow_def)
  show "v \<ge> 0 \<Longrightarrow> put_be buf v p i mul = put_int_be buf v p i mul 0"
    by (induction i arbitrary: buf mul) (simp_all add: borrow_def Let_def)
qed

definition spliced :: "bytes \<Rightarrow> nat \<Rightarrow> bytes \<Rightarrow> bytes" where
  "spliced buf p bs = take p buf @ bs @ drop (p + length bs) buf"

lemma put_le_all:
  assumes "1 \<le> n" and "p + n \<le> length buf"
  shows "put_int_le (put buf p (int32 v AND 0xFF)) v p n 0 1 0 = spliced buf p (bytes_of n v)"
proof -
  obtain k where k: "n = Suc k" using assms(1) by (cases n) auto
  have "put_int_le (put buf p v) v p n 0 1 0 = take (p + Suc 0) (put buf p v) @ bytes_of (n - Suc 0) (v div (1 * 256)) @ drop (p + n) (put buf p v)"
    using assms by (intro put_int_le_eq) (simp_all add: octet_put)
  then show ?thesis
    using take_Suc_put [of p buf v] assms by (simp add: put_int32 k spliced_def drop_put)
qed

lemma put_be_all:
  assumes "1 \<le> n" and "p + n \<le> length buf"
  shows "put_int_be (put buf (p + (n - 1)) (int32 v AND 0xFF)) v p (n - 1) 1 0 = spliced buf p (rev (bytes_of n v))"
proof -
  obtain k where k: "n = Suc k" using assms(1) by (cases n) auto
  let ?b = "put buf (p + k) v"
  have "put_int_be ?b v p k 1 0 = take p ?b @ rev (bytes_of k (v div (1 * 256))) @ drop (p + k) ?b"
    using assms k by (intro put_int_be_eq) (simp_all add: octet_put)
  then show ?thesis
    using drop_at_put [of "p + k" buf v] assms by (simp add: put_int32 k spliced_def take_put)
qed

lemma part_spliced: "p \<le> length buf \<Longrightarrow> n = length bs \<Longrightarrow> part (spliced buf p bs) p n = bs"
  by (simp add: part_def spliced_def)

lemma spliced_framed: "p + length bs \<le> length buf \<Longrightarrow> n = length bs \<Longrightarrow> framed buf p (spliced buf p bs, n)"
  by (simp add: framed_def spliced_def)

lemma read_le: "1 \<le> n \<Longrightarrow> p + n \<le> length buf \<Longrightarrow> le_loop buf p n 0 1 (octet buf p) = (le_val (part buf p n), 256 ^ (n - 1))"
  using le_loop_eq [of 0 n p buf 1 "octet buf p"] part_Cons [of p buf "n - 1"] by (cases n) (simp_all add: octet_def)

lemma read_be:
  "1 \<le> n \<Longrightarrow> p + n \<le> length buf
   \<Longrightarrow> be_loop buf p (n - 1) 1 (octet buf (p + (n - 1))) = (le_val (rev (part buf p n)), 256 ^ (n - 1))"
  using be_loop_eq [of p "n - 1" buf 1] part_snoc [of p "n - 1" buf] by (cases n) (simp_all add: octet_def)

lemma pow256: "(2 :: int) ^ (8 * n) = 256 ^ n"
  by (simp add: power_mult)

lemma signed_value:
  assumes "1 \<le> n" and "- (2 ^ (8 * n - 1)) \<le> v" "v < 2 ^ (8 * n - 1)"
  shows "signed n (v mod 256 ^ n, 256 ^ (n - 1)) = v"
proof -
  obtain k where k: "n = Suc k" using assms(1) by (cases n) auto
  have h: "(2 :: int) ^ (8 * n - 1) = 128 * 256 ^ k" unfolding k using pow256 [of k] by (simp add: power_add)
  have m: "(256 :: int) ^ n = 2 * (128 * 256 ^ k)" by (simp add: k)
  have "v mod 256 ^ n = (if v < 0 then v + 256 ^ n else v)"
    using assms(2,3) unfolding h m by (auto simp: mod_pos_pos_trivial intro: mod_pos_pos_trivial [THEN trans [OF mod_add_self2 [symmetric]]])
  then show ?thesis using assms(2,3) h m unfolding signed_def pow256 by (auto simp: k)
qed

lemma rev_bytes: "rev (part (spliced buf p (rev (bytes_of n v))) p n) = bytes_of n v" if "p \<le> length buf"
  using that by (simp add: part_spliced)

subsection \<open>The operations of a fixed size\<close>

lemma octet_range: "0 \<le> octet buf i" "octet buf i < 256"
  using unsigned_less [of "buf ! i", where 'a = int] by (simp_all add: octet_def)

lemma or_int: "0 \<le> b \<Longrightarrow> b < 2 ^ k \<Longrightarrow> push_bit k a OR b = push_bit k a + (b :: int)"
proof (rule disjunctive_add [symmetric])
  fix n assume "0 \<le> b" "b < 2 ^ k"
  then have "take_bit k b = b" by (simp add: take_bit_int_eq_self)
  then show "\<not> bit (push_bit k a) n \<or> \<not> bit b n" by (metis bit_push_bit_iff_int bit_take_bit_iff linorder_not_le)
qed

lemma shl_octet:
  "shl (octet buf i) 8 = push_bit 8 (octet buf i)" "shl (octet buf i) 16 = push_bit 16 (octet buf i)"
  "shl (octet buf i) 24 = push_bit 24 (if octet buf i \<ge> 128 then octet buf i - 256 else octet buf i)"
proof -
  have s: "int32 (octet buf i) = octet buf i" using octet_range [of buf i] by (simp add: int32_def)
  show "shl (octet buf i) 8 = push_bit 8 (octet buf i)" "shl (octet buf i) 16 = push_bit 16 (octet buf i)"
    "shl (octet buf i) 24 = push_bit 24 (if octet buf i \<ge> 128 then octet buf i - 256 else octet buf i)"
    using octet_range [of buf i] by (auto simp: shl_def s int32_def push_bit_eq_mult)
qed

lemma or2: "0 \<le> b \<Longrightarrow> b < 256 \<Longrightarrow> push_bit 8 a OR b = 256 * a + (b :: int)"
  using or_int [of b 8 a] by (simp add: push_bit_eq_mult)

lemma or3:
  assumes "0 \<le> b" "b < 256" "0 \<le> c" "c < (256 :: int)"
  shows "push_bit 16 a OR push_bit 8 b OR c = 65536 * a + 256 * b + c"
  using or_int [of "256 * b + c" 16 a] assms unfolding or2 [OF assms(3,4)] by (simp add: push_bit_eq_mult)

lemma or4:
  assumes "0 \<le> b" "b < 256" "0 \<le> c" "c < 256" "0 \<le> d" "d < (256 :: int)"
  shows "push_bit 24 a OR push_bit 16 b OR push_bit 8 c OR d = 16777216 * a + 65536 * b + 256 * c + d"
  using or_int [of "65536 * b + 256 * c + d" 24 a] assms unfolding or3 [OF assms(3-6)] by (simp add: push_bit_eq_mult)

lemma or2': "0 \<le> b \<Longrightarrow> b < 256 \<Longrightarrow> b OR push_bit 8 a = 256 * a + (b :: int)"
  using or2 [of b a] by (simp add: or.commute)

lemma or3':
  assumes "0 \<le> b" "b < 256" "0 \<le> c" "c < (256 :: int)"
  shows "c OR push_bit 8 b OR push_bit 16 a = 65536 * a + 256 * b + c"
  using or3 [OF assms, of a] by (simp only: or.commute or.left_commute)

lemma or4':
  assumes "0 \<le> b" "b < 256" "0 \<le> c" "c < 256" "0 \<le> d" "d < (256 :: int)"
  shows "d OR push_bit 8 c OR push_bit 16 b OR push_bit 24 a = 16777216 * a + 65536 * b + 256 * c + d"
  using or4 [OF assms, of a] by (simp only: or.commute or.left_commute)

lemma and_push_int: "y AND push_bit k m = push_bit k (drop_bit k y AND (m :: int))"
  by (rule bit_eqI) (auto simp: bit_simps)

lemma sign16_eq: "0 \<le> v \<Longrightarrow> v < 65536 \<Longrightarrow> sign16 v = (if v \<ge> 32768 then v - 65536 else v)"
proof -
  assume v: "0 \<le> v" "v < 65536"
  have "v AND push_bit 15 1 = push_bit 15 (drop_bit 15 v AND 1)" by (rule and_push_int)
  then have b: "v AND 0x8000 \<noteq> 0 \<longleftrightarrow> v \<ge> 32768"
    using v by (auto simp: push_bit_eq_mult drop_bit_eq_div and_one_eq)
  have "v OR 0xFFFF0000 = 0xFFFF0000 + v" using or_int [of v 16 65535] v by (simp add: push_bit_eq_mult or.commute)
  then show ?thesis using v b by (auto simp: sign16_def int32_def)
qed

lemma sign16_octets:
  "sign16 (256 * octet buf i + octet buf j)
   = (if 256 * octet buf i + octet buf j \<ge> 32768 then 256 * octet buf i + octet buf j - 65536 else 256 * octet buf i + octet buf j)"
  using octet_range [of buf i] octet_range [of buf j] by (intro sign16_eq) simp_all

lemma reading_cong: "(\<And>p. p + n \<le> length buf \<Longrightarrow> f p = g p) \<Longrightarrow> reading buf off n f = reading buf off n g"
  by (simp add: reading_def checkOffset_def)

lemma loop_values:
  "le_loop buf p (Suc 0) 0 1 v = (v, 1)" "le_loop buf p 2 0 1 v = (v + octet buf (p + 1) * 256, 256)"
  "le_loop buf p 4 0 1 v = (v + octet buf (p + 1) * 256 + octet buf (p + 2) * 65536 + octet buf (p + 3) * 16777216, 16777216)"
  "be_loop buf p 0 1 v = (v, 1)" "be_loop buf p (Suc 0) 1 v = (v + octet buf p * 256, 256)"
  "be_loop buf p 3 1 v = (v + octet buf (p + 2) * 256 + octet buf (p + 1) * 65536 + octet buf p * 16777216, 16777216)"
  by (simp_all add: le_loop.simps numeral_2_eq_2 numeral_3_eq_3)

lemma top_octet:
  "2147483648 \<le> octet buf a + octet buf b * 256 + octet buf c * 65536 + octet buf d * 16777216 \<longleftrightarrow> 128 \<le> octet buf d"
  using octet_range [of buf a] octet_range [of buf b] octet_range [of buf c] octet_range [of buf d] by auto

lemma readers_agree:
  "readUInt8 buf off = readUIntLE buf off 1" "readUInt8 buf off = readUIntBE buf off 1"
  "readUInt16LE buf off = readUIntLE buf off 2" "readUInt16BE buf off = readUIntBE buf off 2"
  "readUInt32LE buf off = readUIntLE buf off 4" "readUInt32BE buf off = readUIntBE buf off 4"
  "readInt8 buf off = readIntLE buf off 1" "readInt8 buf off = readIntBE buf off 1"
  "readInt16LE buf off = readIntLE buf off 2" "readInt16BE buf off = readIntBE buf off 2"
  "readInt32LE buf off = readIntLE buf off 4" "readInt32BE buf off = readIntBE buf off 4"
proof -
  note r = octet_range
  have t: "octet buf p AND 0x80 = 0 \<longleftrightarrow> octet buf p < 128" for p
  proof -
    have "octet buf p AND push_bit 7 1 = push_bit 7 (drop_bit 7 (octet buf p) AND 1)" by (rule and_push_int)
    moreover have "drop_bit 7 (octet buf p) = (if octet buf p < 128 then 0 else 1)"
      using r [of buf p] by (auto simp: drop_bit_eq_div div_pos_pos_trivial)
    ultimately show ?thesis by (simp add: push_bit_eq_mult)
  qed
  show "readUInt8 buf off = readUIntLE buf off 1"
    unfolding readUInt8_def readUIntLE_def by (rule reading_cong) (use r in \<open>simp add: loop_values shl_octet  signed_def\<close>)
  show "readUInt8 buf off = readUIntBE buf off 1"
    unfolding readUInt8_def readUIntBE_def by (rule reading_cong) (use r in \<open>simp add: loop_values shl_octet  signed_def\<close>)
  show "readUInt16LE buf off = readUIntLE buf off 2"
    unfolding readUInt16LE_def readUIntLE_def by (rule reading_cong) (use r in \<open>simp add: loop_values shl_octet or2 or2' signed_def\<close>)
  show "readUInt16BE buf off = readUIntBE buf off 2"
    unfolding readUInt16BE_def readUIntBE_def by (rule reading_cong) (use r in \<open>simp add: loop_values shl_octet or2 or2' signed_def\<close>)
  show "readUInt32LE buf off = readUIntLE buf off 4"
    unfolding readUInt32LE_def readUIntLE_def by (rule reading_cong) (use r in \<open>simp add: loop_values shl_octet or3 or3' signed_def\<close>)
  show "readUInt32BE buf off = readUIntBE buf off 4"
    unfolding readUInt32BE_def readUIntBE_def by (rule reading_cong) (use r in \<open>simp add: loop_values shl_octet or3 or3' signed_def\<close>)
  show "readInt8 buf off = readIntLE buf off 1"
    unfolding readInt8_def readIntLE_def by (rule reading_cong) (use r in \<open>simp add: loop_values shl_octet  t signed_def\<close>)
  show "readInt8 buf off = readIntBE buf off 1"
    unfolding readInt8_def readIntBE_def by (rule reading_cong) (use r in \<open>simp add: loop_values shl_octet  t signed_def\<close>)
  show "readInt16LE buf off = readIntLE buf off 2"
    unfolding readInt16LE_def readIntLE_def by (rule reading_cong) (use r in \<open>simp add: loop_values shl_octet or2 or2' sign16_octets signed_def\<close>)
  show "readInt16BE buf off = readIntBE buf off 2"
    unfolding readInt16BE_def readIntBE_def by (rule reading_cong) (use r in \<open>simp add: loop_values shl_octet or2 or2' sign16_octets signed_def\<close>)
  show "readInt32LE buf off = readIntLE buf off 4"
    unfolding readInt32LE_def readIntLE_def by (rule reading_cong) (use r in \<open>simp add: loop_values shl_octet or4 or4' signed_def top_octet\<close>)
  show "readInt32BE buf off = readIntBE buf off 4"
    unfolding readInt32BE_def readIntBE_def by (rule reading_cong) (use r in \<open>simp add: loop_values shl_octet or4 or4' signed_def top_octet\<close>)
qed

lemma shr_byte: "k \<le> 24 \<Longrightarrow> put buf i (shr v k) = put buf i (v div 2 ^ k)"
proof (rule put_mod)
  assume k: "k \<le> 24"
  have "take_bit 8 (drop_bit k (take_bit 32 v)) = take_bit 8 (drop_bit k v)"
    using k by (intro bit_eqI) (auto simp: bit_simps)
  then show "shr v k mod 256 = v div 2 ^ k mod 256" by (simp add: shr_def take_bit_eq_mod drop_bit_eq_div)
qed

lemma decompose2:
  assumes "p + 2 \<le> length buf"
  obtains xs x y ys where "buf = xs @ [x, y] @ ys" "length xs = p"
proof (rule that)
  show "buf = take p buf @ [buf ! p, buf ! Suc p] @ drop (Suc (Suc p)) buf"
    using assms by (simp add: Cons_nth_drop_Suc)
qed (use assms in simp)

lemma decompose4:
  assumes "p + 4 \<le> length buf"
  obtains xs a b c d ys where "buf = xs @ [a, b, c, d] @ ys" "length xs = p"
proof (rule that)
  show "buf = take p buf @ [buf ! p, buf ! Suc p, buf ! Suc (Suc p), buf ! Suc (Suc (Suc p))] @ drop (Suc (Suc (Suc (Suc p)))) buf"
    using assms by (simp add: Cons_nth_drop_Suc)
qed (use assms in simp)

lemma bytes_of_24:
  "bytes_of 2 v = [word_of_int v, word_of_int (v div 256)]"
  "bytes_of 4 v = [word_of_int v, word_of_int (v div 256), word_of_int (v div 65536), word_of_int (v div 16777216)]"
proof -
  have d: "v div 65536 = v div 256 div 256" "v div 16777216 = v div 256 div 256 div 256" by (simp_all flip: zdiv_zmult2_eq)
  show "bytes_of 2 v = [word_of_int v, word_of_int (v div 256)]" by (simp add: numeral_2_eq_2)
  show "bytes_of 4 v = [word_of_int v, word_of_int (v div 256), word_of_int (v div 65536), word_of_int (v div 16777216)]"
    unfolding d by (simp add: numeral_eq_Suc)
qed

lemma put16_eq:
  assumes "p + 2 \<le> length buf"
  shows "put16 buf p (p + 1) v = spliced buf p (bytes_of 2 v)" "put16 buf (p + 1) p v = spliced buf p (rev (bytes_of 2 v))"
proof -
  obtain xs x y ys where b: "buf = xs @ [x, y] @ ys" "length xs = p" using assms by (rule decompose2)
  show "put16 buf p (p + 1) v = spliced buf p (bytes_of 2 v)" "put16 buf (p + 1) p v = spliced buf p (rev (bytes_of 2 v))"
    using b(2) by (simp_all add: put16_def shr_byte put_int32) (simp_all add: b(1) put_def spliced_def bytes_of_24 list_update_append)
qed

lemma put32_eq:
  assumes "p + 4 \<le> length buf"
  shows "put32 buf p (p + 1) (p + 2) (p + 3) v = spliced buf p (bytes_of 4 v)"
    and "put32 buf (p + 3) (p + 2) (p + 1) p v = spliced buf p (rev (bytes_of 4 v))"
proof -
  obtain xs x y z w ys where b: "buf = xs @ [x, y, z, w] @ ys" "length xs = p" using assms by (rule decompose4)
  show "put32 buf p (p + 1) (p + 2) (p + 3) v = spliced buf p (bytes_of 4 v)"
    "put32 buf (p + 3) (p + 2) (p + 1) p v = spliced buf p (rev (bytes_of 4 v))"
    using b(2) by (simp_all add: put32_def shr_byte put_int32) (simp_all add: b(1) put_def spliced_def bytes_of_24 list_update_append numeral_2_eq_2 numeral_3_eq_3)
qed

lemma writing_cong:
  "(\<And>p. mn \<le> v \<Longrightarrow> v \<le> mx \<Longrightarrow> p + n \<le> length buf \<Longrightarrow> f p = g p)
   \<Longrightarrow> writing buf v off n mx mn f = writing buf v off n mx mn g"
  by (simp add: writing_def checkInt_def)

text \<open>What the writers of any size write, with and without a sign.\<close>

lemma writers_spliced:
  assumes "1 \<le> n"
  shows "writeUIntLE buf v off n = writing buf v off n (2 ^ (8 * n) - 1) 0 (\<lambda>p. spliced buf p (bytes_of n v))"
    and "writeUIntBE buf v off n = writing buf v off n (2 ^ (8 * n) - 1) 0 (\<lambda>p. spliced buf p (rev (bytes_of n v)))"
    and "writeIntLE buf v off n = writing buf v off n (2 ^ (8 * n - 1) - 1) (- (2 ^ (8 * n - 1))) (\<lambda>p. spliced buf p (bytes_of n v))"
    and "writeIntBE buf v off n = writing buf v off n (2 ^ (8 * n - 1) - 1) (- (2 ^ (8 * n - 1))) (\<lambda>p. spliced buf p (rev (bytes_of n v)))"
  unfolding writeUIntLE_def writeUIntBE_def writeIntLE_def writeIntBE_def
  by (rule writing_cong, simp only: unsigned_loops put_le_all [OF assms] put_be_all [OF assms])+

lemma put8_eq: "p + 1 \<le> length buf \<Longrightarrow> a mod 256 = v mod 256 \<Longrightarrow> put buf p (int32 a AND 0xff) = spliced buf p (bytes_of 1 v)"
  using word_mod [of a v] by (simp add: put_int32) (simp add: put_def spliced_def upd_conv_take_nth_drop)

lemma put32_mod:
  assumes "a mod 2 ^ 32 = v mod 2 ^ 32"
  shows "put32 buf i j k l a = put32 buf i j k l v"
proof -
  have "int32 a = int32 v" "shr a n = shr v n" for n using assms by (simp_all add: int32_def shr_def)
  then show ?thesis by (simp add: put32_def)
qed

lemma writers_agree:
  "writeUInt8 buf v off = writeUIntLE buf v off 1" "writeUInt8 buf v off = writeUIntBE buf v off 1"
  "writeUInt16LE buf v off = writeUIntLE buf v off 2" "writeUInt16BE buf v off = writeUIntBE buf v off 2"
  "writeUInt32LE buf v off = writeUIntLE buf v off 4" "writeUInt32BE buf v off = writeUIntBE buf v off 4"
  "writeInt8 buf v off = writeIntLE buf v off 1" "writeInt8 buf v off = writeIntBE buf v off 1"
  "writeInt16LE buf v off = writeIntLE buf v off 2" "writeInt16BE buf v off = writeIntBE buf v off 2"
  "writeInt32LE buf v off = writeIntLE buf v off 4" "writeInt32BE buf v off = writeIntBE buf v off 4"
proof -
  have put8: "put buf p (int32 v AND 0xff) = spliced buf p (bytes_of 1 v)"
    "put buf p (int32 (if v < 0 then 0xff + v + 1 else v) AND 0xff) = spliced buf p (bytes_of 1 v)" if "p + 1 \<le> length buf" for p
    by (rule put8_eq [OF that], simp)+
  have wrap: "put32 buf i j k l (if v < 0 then 0xffffffff + v + 1 else v) = put32 buf i j k l v" for i j k l
    by (rule put32_mod) simp
  note spliced_eq = writers_spliced [of 2, simplified] writers_spliced [of 4, simplified]
  show "writeUInt8 buf v off = writeUIntLE buf v off 1" "writeUInt8 buf v off = writeUIntBE buf v off 1"
    unfolding writeUInt8_def One_nat_def by (simp_all add: writers_spliced [of 1, simplified] put8 [simplified] cong: writing_cong)
  show "writeInt8 buf v off = writeIntLE buf v off 1" "writeInt8 buf v off = writeIntBE buf v off 1"
    unfolding writeInt8_def One_nat_def by (simp_all add: writers_spliced [of 1, simplified] put8 [simplified] cong: writing_cong)
  show "writeUInt16LE buf v off = writeUIntLE buf v off 2" "writeUInt16BE buf v off = writeUIntBE buf v off 2"
    "writeInt16LE buf v off = writeIntLE buf v off 2" "writeInt16BE buf v off = writeIntBE buf v off 2"
    unfolding writeUInt16LE_def writeUInt16BE_def writeInt16LE_def writeInt16BE_def
    by (simp_all add: spliced_eq put16_eq [simplified] cong: writing_cong)
  show "writeUInt32LE buf v off = writeUIntLE buf v off 4" "writeUInt32BE buf v off = writeUIntBE buf v off 4"
    "writeInt32LE buf v off = writeIntLE buf v off 4" "writeInt32BE buf v off = writeIntBE buf v off 4"
    unfolding writeUInt32LE_def writeUInt32BE_def writeInt32LE_def writeInt32BE_def wrap
    by (simp_all add: spliced_eq put32_eq [simplified] cong: writing_cong)
qed

text \<open>
  C26: Integers of one to six bytes survive the Buffer in both byte orders: a value in range is
  written if there is room, nothing but its bytes is changed, and reading there gives the value,
  with its sign where there is one. A value out of range is an error. (A double holds six bytes
  exactly.)
\<close>

theorem integers_roundtrip:
  assumes "1 \<le> n" and "n \<le> 6"
  shows "(0 \<le> v \<and> v < 2 ^ (8 * n) \<and> uint32 off + n \<le> length buf \<longrightarrow>
      (\<exists>b. writeUIntLE buf v off n = Inr (b, uint32 off + n) \<and> readUIntLE b off n = Inr v \<and> framed buf (uint32 off) (b, n))
      \<and> (\<exists>b. writeUIntBE buf v off n = Inr (b, uint32 off + n) \<and> readUIntBE b off n = Inr v \<and> framed buf (uint32 off) (b, n)))
    \<and> (- (2 ^ (8 * n - 1)) \<le> v \<and> v < 2 ^ (8 * n - 1) \<and> uint32 off + n \<le> length buf \<longrightarrow>
      (\<exists>b. writeIntLE buf v off n = Inr (b, uint32 off + n) \<and> readIntLE b off n = Inr v \<and> framed buf (uint32 off) (b, n))
      \<and> (\<exists>b. writeIntBE buf v off n = Inr (b, uint32 off + n) \<and> readIntBE b off n = Inr v \<and> framed buf (uint32 off) (b, n)))
    \<and> (v < 0 \<or> 2 ^ (8 * n) \<le> v \<longrightarrow> writeUIntLE buf v off n = Inl (range_error ''\"value\" argument is out of bounds'')
      \<and> writeUIntBE buf v off n = Inl (range_error ''\"value\" argument is out of bounds''))"
proof (intro conjI impI)
  let ?p = "uint32 off"
  let ?le = "spliced buf ?p (bytes_of n v)" and ?be = "spliced buf ?p (rev (bytes_of n v))"
  have parts: "part ?le ?p n = bytes_of n v" "rev (part ?be ?p n) = bytes_of n v" "length ?le = length buf" "length ?be = length buf"
    "framed buf ?p (?le, n)" "framed buf ?p (?be, n)" if "?p + n \<le> length buf"
    using that by (simp_all add: part_spliced rev_bytes spliced_framed) (simp_all add: spliced_def)
  show "\<exists>b. writeUIntLE buf v off n = Inr (b, ?p + n) \<and> readUIntLE b off n = Inr v \<and> framed buf ?p (b, n)"
    if a: "0 \<le> v \<and> v < 2 ^ (8 * n) \<and> ?p + n \<le> length buf"
    using a parts assms(1) put_le_all [of n ?p buf v] read_le [of n ?p ?le] le_val_bytes_of [of n v]
    by (simp add: writeUIntLE_def readUIntLE_def writing_def checkInt_def reading_def checkOffset_def unsigned_loops pow256)
  show "\<exists>b. writeUIntBE buf v off n = Inr (b, ?p + n) \<and> readUIntBE b off n = Inr v \<and> framed buf ?p (b, n)"
    if a: "0 \<le> v \<and> v < 2 ^ (8 * n) \<and> ?p + n \<le> length buf"
    using a parts assms(1) put_be_all [of n ?p buf v] read_be [of n ?p ?be] le_val_bytes_of [of n v]
    by (simp add: writeUIntBE_def readUIntBE_def writing_def checkInt_def reading_def checkOffset_def unsigned_loops pow256)
  show "\<exists>b. writeIntLE buf v off n = Inr (b, ?p + n) \<and> readIntLE b off n = Inr v \<and> framed buf ?p (b, n)"
    if a: "- (2 ^ (8 * n - 1)) \<le> v \<and> v < 2 ^ (8 * n - 1) \<and> ?p + n \<le> length buf"
    using a parts assms(1) put_le_all [of n ?p buf v] read_le [of n ?p ?le] le_val_bytes_of [of n v] signed_value [of n v]
    by (simp add: writeIntLE_def readIntLE_def writing_def checkInt_def reading_def checkOffset_def)
  show "\<exists>b. writeIntBE buf v off n = Inr (b, ?p + n) \<and> readIntBE b off n = Inr v \<and> framed buf ?p (b, n)"
    if a: "- (2 ^ (8 * n - 1)) \<le> v \<and> v < 2 ^ (8 * n - 1) \<and> ?p + n \<le> length buf"
    using a parts assms(1) put_be_all [of n ?p buf v] read_be [of n ?p ?be] le_val_bytes_of [of n v] signed_value [of n v]
    by (simp add: writeIntBE_def readIntBE_def writing_def checkInt_def reading_def checkOffset_def)
qed (auto simp: writeUIntLE_def writeUIntBE_def writing_def checkInt_def)

theorem integers_roundtrip_witness:
  "writeIntBE [0, 0, 0, 0] (- 300) 1 3 = Inr ([0, 255, 254, 212], 4) \<and> readIntBE [0, 255, 254, 212] 1 3 = Inr (- 300)"
proof -
  have u: "uint32 1 = 1" by (simp add: uint32_def)
  obtain b where b: "writeIntBE [0, 0, 0, 0] (- 300) 1 3 = Inr (b, 4)" "readIntBE b 1 3 = Inr (- 300)"
    using integers_roundtrip [of 3 "- 300" 1 "[0, 0, 0, 0]"] u by auto
  moreover have "writeIntBE [0, 0, 0, 0] (- 300) 1 3 = Inr ([0, 255, 254, 212], 4)" by code_simp
  ultimately show ?thesis by simp
qed

text \<open>
  C31: The operations of a fixed size, written out with shifts, are the general ones: each reads
  and writes what \<open>readUIntLE\<close>, \<open>readIntBE\<close> and the like do with one, two or four bytes, with the
  same errors.
\<close>

theorem fixed_sizes_agree:
  "readUInt8 buf off = readUIntLE buf off 1 \<and> readUInt16LE buf off = readUIntLE buf off 2
   \<and> readUInt16BE buf off = readUIntBE buf off 2 \<and> readUInt32LE buf off = readUIntLE buf off 4
   \<and> readUInt32BE buf off = readUIntBE buf off 4 \<and> readInt8 buf off = readIntLE buf off 1
   \<and> readInt16LE buf off = readIntLE buf off 2 \<and> readInt16BE buf off = readIntBE buf off 2
   \<and> readInt32LE buf off = readIntLE buf off 4 \<and> readInt32BE buf off = readIntBE buf off 4
   \<and> writeUInt8 buf v off = writeUIntLE buf v off 1 \<and> writeUInt16LE buf v off = writeUIntLE buf v off 2
   \<and> writeUInt16BE buf v off = writeUIntBE buf v off 2 \<and> writeUInt32LE buf v off = writeUIntLE buf v off 4
   \<and> writeUInt32BE buf v off = writeUIntBE buf v off 4 \<and> writeInt8 buf v off = writeIntLE buf v off 1
   \<and> writeInt16LE buf v off = writeIntLE buf v off 2 \<and> writeInt16BE buf v off = writeIntBE buf v off 2
   \<and> writeInt32LE buf v off = writeIntLE buf v off 4 \<and> writeInt32BE buf v off = writeIntBE buf v off 4"
  by (intro conjI; fact readers_agree writers_agree)

end
