(* ===== verification/Buf_Ops.thy ===== *)
theory Buf_Ops
  imports Buf_Num
begin

text \<open>
  Buffers as sequences of bytes (module 10 of \<open>socketcluster.js\<close>): how they are made, compared,
  sliced, copied, joined, filled, swapped and shown. Positions and sizes are whole
  numbers or absent; a text given for one is not a numeral, so that it reads as \<open>NaN\<close>. A slice
  shares the memory of its buffer: the model says which bytes it shows.
\<close>

subsection \<open>Filling\<close>

text \<open>What a buffer is filled with (a buffer with memory of its own); \<open>Nothing\<close> is any value that is not truthy, except texts and 0.\<close>

datatype filler = FillText units | FillNum int | FillBuf bytes | Nothing

definition less_arg :: "arg \<Rightarrow> arg \<Rightarrow> bool" where
  "less_arg a b = (case (a, b) of (Num m, Num n) \<Rightarrow> m < n | _ \<Rightarrow> False)"

definition the_default :: "int \<Rightarrow> int option \<Rightarrow> int" where
  "the_default d x = (case x of None \<Rightarrow> d | Some v \<Rightarrow> v)"

definition at_most_arg :: "arg \<Rightarrow> arg \<Rightarrow> bool" where
  "at_most_arg a b = (case (a, b) of (Num m, Num n) \<Rightarrow> m \<le> n | _ \<Rightarrow> False)"

definition uint32_arg :: "arg \<Rightarrow> nat" where
  "uint32_arg a = (case a of Num n \<Rightarrow> uint32 n | _ \<Rightarrow> 0)"

text \<open>The arguments for a text: \<open>start\<close> or \<open>end\<close> may be the encoding instead.\<close>

definition fill_args :: "nat \<Rightarrow> arg \<Rightarrow> arg \<Rightarrow> arg \<Rightarrow> arg \<times> arg \<times> arg" where
  "fill_args len start e encoding =
     (case start of Txt s \<Rightarrow> (Num 0, Num (int len), Txt s)
      | _ \<Rightarrow> (case e of Txt s \<Rightarrow> (start, Num (int len), Txt s) | _ \<Rightarrow> (start, e, encoding)))"

definition fill_encoding :: "arg \<Rightarrow> exn + unit" where
  "fill_encoding encoding =
     (case encoding of Num _ \<Rightarrow> Inl (type_error ''encoding must be a string'')
      | Txt e \<Rightarrow> if isEncoding e then Inr () else Inl (unknown_encoding e) | Absent \<Rightarrow> Inr ())"

text \<open>A text of one code unit is a number if one byte holds it.\<close>

definition fast_fill :: "units \<Rightarrow> arg \<Rightarrow> filler" where
  "fast_fill s encoding =
     (case s of [c] \<Rightarrow> if encoding = Txt ''utf8'' \<and> c < 128 \<or> encoding = Txt ''latin1'' then FillNum (int c) else FillText s
      | _ \<Rightarrow> FillText s)"

text \<open>\<open>for (i = start; i < end; ++i) this[i] = ...\<close>; past the end of the buffer nothing is stored.\<close>

definition put_range :: "bytes \<Rightarrow> nat \<Rightarrow> nat \<Rightarrow> (nat \<Rightarrow> int) \<Rightarrow> bytes" where
  "put_range buf start e f = fold (\<lambda>i b. put b i (f i)) [start..<e] buf"

text \<open>The error for a value without bytes quotes the value; the quotation is left out.\<close>

definition fill_bytes :: "bytes \<Rightarrow> bytes \<Rightarrow> nat \<Rightarrow> nat \<Rightarrow> exn + bytes" where
  "fill_bytes buf bs start e =
     (if bs = [] then Inl (type_error ''The value is invalid for argument \"value\"'')
      else Inr (put_range buf start e (\<lambda>i. octet bs ((i - start) mod length bs))))"

definition fill_checked :: "bytes \<Rightarrow> filler \<Rightarrow> arg \<Rightarrow> arg \<Rightarrow> arg \<Rightarrow> exn + bytes" where
  "fill_checked buf val start e encoding =
     (let len = Num (int (length buf)) in
      if less_arg start (Num 0) \<or> less_arg len start \<or> less_arg len e then Inl (range_error ''Out of range index'')
      else if at_most_arg e start then Inr buf
      else
        let i = uint32_arg start; n = (if e = Absent then length buf else uint32_arg e)
        in (case val of
              FillNum v \<Rightarrow> Inr (put_range buf i n (\<lambda>_. v))
            | Nothing \<Rightarrow> Inr (put_range buf i n (\<lambda>_. 0))
            | FillBuf bs \<Rightarrow> fill_bytes buf bs i n
            | FillText s \<Rightarrow> if s = [] then Inr (put_range buf i n (\<lambda>_. 0))
                else (case fromString s encoding of Inl x \<Rightarrow> Inl x | Inr bs \<Rightarrow> fill_bytes buf bs i n)))"

definition fill :: "bytes \<Rightarrow> filler \<Rightarrow> arg \<Rightarrow> arg \<Rightarrow> arg \<Rightarrow> exn + bytes" where
  "fill buf val start e encoding =
     (case val of
        FillText s \<Rightarrow> (case fill_args (length buf) start e encoding of (start, e, encoding) \<Rightarrow>
          case fill_encoding encoding of Inl x \<Rightarrow> Inl x
          | Inr _ \<Rightarrow> fill_checked buf (fast_fill s encoding) start e encoding)
      | FillNum v \<Rightarrow> fill_checked buf (FillNum (int32 v AND 255)) start e encoding
      | _ \<Rightarrow> fill_checked buf val start e encoding)"

subsection \<open>Making buffers\<close>

definition assertSize :: "arg \<Rightarrow> exn + int" where
  "assertSize sz = (case sz of
     Num n \<Rightarrow> if n < 0 then Inl (range_error ''\"size\" argument must not be negative'') else Inr n
   | _ \<Rightarrow> Inl (type_error ''\"size\" argument must be of type number''))"

definition alloc :: "arg \<Rightarrow> filler option \<Rightarrow> arg \<Rightarrow> exn + bytes" where
  "alloc sz filler encoding =
     (case assertSize sz of Inl e \<Rightarrow> Inl e
      | Inr n \<Rightarrow> (case createBuffer (nat n) of Inl e \<Rightarrow> Inl e
        | Inr buf \<Rightarrow> if n \<le> 0 then Inr buf
            else (case filler of None \<Rightarrow> Inr buf
              | Some v \<Rightarrow> fill buf v (case encoding of Txt e \<Rightarrow> Txt e | _ \<Rightarrow> Absent) Absent Absent)))"

definition too_large :: exn where
  "too_large = range_error ''Attempt to allocate Buffer larger than maximum size: 0x7fffffff bytes''"

definition checked :: "int \<Rightarrow> exn + nat" where
  "checked len = (if len \<ge> 0x7fffffff then Inl too_large else Inr (nat len))"

definition allocUnsafe :: "arg \<Rightarrow> exn + bytes" where
  "allocUnsafe sz = (case assertSize sz of Inl e \<Rightarrow> Inl e
     | Inr n \<Rightarrow> if n < 0 then createBuffer 0 else (case checked n of Inl e \<Rightarrow> Inl e | Inr m \<Rightarrow> createBuffer m))"

definition fromArrayLike :: "int list \<Rightarrow> exn + bytes" where
  "fromArrayLike xs = (case checked (int (length xs)) of Inl e \<Rightarrow> Inl e
     | Inr n \<Rightarrow> (case createBuffer n of Inl e \<Rightarrow> Inl e
       | Inr buf \<Rightarrow> Inr (fold (\<lambda>i b. put b i (int32 (xs ! i) AND 255)) [0..<n] buf)))"

text \<open>
  What a buffer is made from: an \<open>ArrayBuffer\<close>, a buffer or another typed array of bytes (the
  language's constructor copies it whole), an array, the object of a parsed \<open>toJSON\<close>, or a value
  of none of these kinds.
\<close>

datatype source = FromNum int | FromText units | FromMemory bytes | FromBytes bytes | FromArray "int list" | FromData "int list" | FromOther

definition uint8_window :: "bytes \<Rightarrow> int \<Rightarrow> int option \<Rightarrow> exn + bytes" where
  "uint8_window mem off len =
     (let n = (case len of None \<Rightarrow> int (length mem) - off | Some l \<Rightarrow> l) in
      if off < 0 \<or> n < 0 \<or> off + n > int (length mem) then Inl (range_error ''Invalid typed array length'')
      else Inr (take (nat n) (drop (nat off) mem)))"

definition or_zero :: "arg \<Rightarrow> int" where
  "or_zero a = (case a of Num n \<Rightarrow> n | _ \<Rightarrow> 0)"

definition fromArrayBuffer :: "bool \<Rightarrow> bytes \<Rightarrow> arg \<Rightarrow> arg \<Rightarrow> exn + bytes" where
  "fromArrayBuffer memory xs byteOffset len =
     (let n = Num (int (length xs)) in
      if less_arg byteOffset (Num 0) \<or> less_arg n byteOffset then Inl (range_error ''\"offset\" is outside of buffer bounds'')
      else if (case byteOffset of Num b \<Rightarrow> int (length xs) < b + or_zero len | _ \<Rightarrow> False)
        then Inl (range_error ''\"length\" is outside of buffer bounds'')
      else if \<not> memory \<or> byteOffset = Absent \<and> len = Absent then Inr xs
      else uint8_window xs (or_zero byteOffset) (if len = Absent then None else Some (or_zero len)))"

definition from_value :: "source \<Rightarrow> arg \<Rightarrow> arg \<Rightarrow> exn + bytes" where
  "from_value v encodingOrOffset len =
     (case v of
        FromNum _ \<Rightarrow> Inl (type_error ''\"value\" argument must not be a number'')
      | FromMemory xs \<Rightarrow> fromArrayBuffer True xs encodingOrOffset len
      | FromBytes xs \<Rightarrow> fromArrayBuffer False xs encodingOrOffset len
      | FromText s \<Rightarrow> fromString s encodingOrOffset
      | FromArray xs \<Rightarrow> fromArrayLike xs
      | FromData xs \<Rightarrow> fromArrayLike xs
      | FromOther \<Rightarrow> Inl (type_error
          ''The first argument must be one of type string, Buffer, ArrayBuffer, Array, or Array-like Object.''))"

definition newBuffer :: "source \<Rightarrow> arg \<Rightarrow> arg \<Rightarrow> exn + bytes" where
  "newBuffer v encodingOrOffset len =
     (case v of
        FromNum n \<Rightarrow> (case encodingOrOffset of
            Txt _ \<Rightarrow> Inl (Thrown (JStr ''If encoding is specified then the first argument must be a string''))
          | _ \<Rightarrow> allocUnsafe (Num n))
      | _ \<Rightarrow> from_value v encodingOrOffset len)"

subsection \<open>Comparing\<close>

text \<open>
  The bytes of the first difference, or else the lengths. (The code returns 0 at once when both
  are the same object.)
\<close>

fun first_difference :: "bytes \<Rightarrow> bytes \<Rightarrow> int \<times> int \<Rightarrow> int \<times> int" where
  "first_difference (a # as) (b # bs) xy =
     (if a \<noteq> b then (int (unat a), int (unat b)) else first_difference as bs xy)"
| "first_difference _ _ xy = xy"

definition three_way :: "int \<times> int \<Rightarrow> int" where
  "three_way xy = (if fst xy < snd xy then - 1 else if snd xy < fst xy then 1 else 0)"

definition compare_bytes :: "bytes \<Rightarrow> bytes \<Rightarrow> int" where
  "compare_bytes a b = three_way (first_difference a b (int (length a), int (length b)))"

definition equals :: "bytes \<Rightarrow> bytes \<Rightarrow> bool" where
  "equals a b = (compare_bytes a b = 0)"

text \<open>\<open>~~start\<close>, and the two ends of a slice within the buffer.\<close>

definition slice_bounds :: "nat \<Rightarrow> arg \<Rightarrow> arg \<Rightarrow> nat \<times> nat" where
  "slice_bounds n start e =
     (let len = int n;
          inside = (\<lambda>i. if i < 0 then (if i + len < 0 then 0 else i + len) else if i > len then len else i);
          s = inside (int32 (or_zero start));
          e = inside (if e = Absent then len else int32 (or_zero e))
      in (nat s, nat (if e < s then s else e)))"

definition slice :: "bytes \<Rightarrow> arg \<Rightarrow> arg \<Rightarrow> bytes" where
  "slice buf start e = (case slice_bounds (length buf) start e of (s, e) \<Rightarrow> part buf s (e - s))"

text \<open>
  \<open>compare\<close> of a part of the target with a part of the buffer, where these are two objects. (Given
  one object twice the code returns 0 here, whatever the parts.)
\<close>

definition compare_parts :: "bytes \<Rightarrow> bytes \<Rightarrow> int option \<Rightarrow> int option \<Rightarrow> int option \<Rightarrow> int option \<Rightarrow> exn + int" where
  "compare_parts this target start0 end0 thisStart0 thisEnd0 =
     (let start = the_default 0 start0; e = the_default (int (length target)) end0;
          thisStart = the_default 0 thisStart0; thisEnd = the_default (int (length this)) thisEnd0
      in if start < 0 \<or> e > int (length target) \<or> thisStart < 0 \<or> thisEnd > int (length this)
           then Inl (range_error ''out of range index'')
         else if thisStart \<ge> thisEnd \<and> start \<ge> e then Inr 0
         else if thisStart \<ge> thisEnd then Inr (- 1)
         else if start \<ge> e then Inr 1
         else Inr (three_way (first_difference (slice this (Num thisStart) (Num thisEnd)) (slice target (Num start) (Num e))
                (thisEnd - thisStart, e - start))))"

subsection \<open>Copying and joining\<close>

text \<open>The part of the target and of the source that a copy is about; \<open>None\<close> if there is nothing to copy.\<close>

definition copy_range :: "nat \<Rightarrow> nat \<Rightarrow> int option \<Rightarrow> int option \<Rightarrow> int option \<Rightarrow> exn + (int \<times> int \<times> int) option" where
  "copy_range n m targetStart start0 end0 =
     (let start = the_default 0 start0;
          e = the_default (int n) end0;
          dst = the_default 0 targetStart;
          dst = (if dst \<ge> int m then int m else dst);
          e = (if e > 0 \<and> e < start then start else e)
      in if e = start \<or> m = 0 \<or> n = 0 then Inr None
         else if dst < 0 then Inl (range_error ''targetStart out of bounds'')
         else if start < 0 \<or> start \<ge> int n then Inl (range_error ''Index out of range'')
         else if e < 0 then Inl (range_error ''sourceEnd out of bounds'')
         else let e = (if e > int n then int n else e)
           in Inr (Some (dst, start, if int m - dst < e - start then int m - dst + start else e)))"

text \<open>\<open>for (i = len - 1; i >= 0; --i) target[i + targetStart] = this[i + start]\<close> in one buffer\<close>

fun copy_down :: "bytes \<Rightarrow> nat \<Rightarrow> nat \<Rightarrow> nat \<Rightarrow> bytes" where
  "copy_down buf dst start 0 = buf"
| "copy_down buf dst start (Suc i) = copy_down (put buf (i + dst) (octet buf (i + start))) dst start i"

text \<open>
  The language's \<open>copyWithin\<close> and \<open>set\<close> store the bytes as they were before. \<open>same\<close> tells whether the
  target is the buffer itself, \<open>native\<close> whether the engine has \<open>copyWithin\<close>. The result is the
  target and the number of bytes.
\<close>

definition copy :: "bool \<Rightarrow> bool \<Rightarrow> bytes \<Rightarrow> bytes \<Rightarrow> int option \<Rightarrow> int option \<Rightarrow> int option \<Rightarrow> exn + bytes \<times> int" where
  "copy native same this target targetStart start e =
     (case copy_range (length this) (length target) targetStart start e of
        Inl x \<Rightarrow> Inl x
      | Inr None \<Rightarrow> Inr (target, 0)
      | Inr (Some (dst, start, e)) \<Rightarrow>
          let n = nat (e - start) in
          Inr (if same \<and> native then spliced target (nat dst) (part this (nat start) n)
               else if same \<and> start < dst \<and> dst < e then copy_down target (nat dst) (nat start) n
               else spliced target (nat dst) (part this (nat start) n), e - start))"

text \<open>The list may hold what is no buffer and has no length (\<open>None\<close>).\<close>

fun concat_loop :: "bool \<Rightarrow> bytes \<Rightarrow> nat \<Rightarrow> bytes option list \<Rightarrow> exn + bytes" where
  "concat_loop native buffer pos [] = Inr buffer"
| "concat_loop native buffer pos (None # xs) = Inl (type_error ''\"list\" argument must be an Array of Buffers'')"
| "concat_loop native buffer pos (Some b # xs) =
     (case from_value (FromBytes b) Absent Absent of Inl e \<Rightarrow> Inl e
      | Inr b \<Rightarrow> (case copy native False b buffer (Some (int pos)) None None of Inl e \<Rightarrow> Inl e
        | Inr (buffer, _) \<Rightarrow> concat_loop native buffer (pos + length b) xs))"

definition sum_length :: "bytes option list \<Rightarrow> nat" where
  "sum_length xs = (if None \<in> set xs then 0 else sum_list (map (\<lambda>x. case x of None \<Rightarrow> 0 | Some b \<Rightarrow> length b) xs))"

definition concat_buffers :: "bool \<Rightarrow> bytes option list \<Rightarrow> arg \<Rightarrow> exn + bytes" where
  "concat_buffers native xs len =
     (if xs = [] then alloc (Num 0) None Absent
      else (case allocUnsafe (if len = Absent then Num (int (sum_length xs)) else len) of Inl e \<Rightarrow> Inl e
        | Inr buffer \<Rightarrow> concat_loop native buffer 0 xs))"

subsection \<open>Swapping\<close>

definition swap_at :: "bytes \<Rightarrow> nat \<Rightarrow> nat \<Rightarrow> bytes" where
  "swap_at b n m = b[n := b ! m, m := b ! n]"

text \<open>\<open>for (i = 0; i < len; i += w)\<close> with the swaps of one round, at least one byte a round\<close>

function swap_loop :: "nat \<Rightarrow> (nat \<times> nat) list \<Rightarrow> bytes \<Rightarrow> nat \<Rightarrow> nat \<Rightarrow> bytes" where
  "swap_loop w pairs b len i =
     (if i < len then swap_loop w pairs (fold (\<lambda>(x, y) b. swap_at b (i + x) (i + y)) pairs b) len (i + max 1 w) else b)"
  by pat_completeness auto
termination
  by (relation "measure (\<lambda>(w, pairs, b, len, i). len - i)") auto

declare swap_loop.simps [simp del]

definition swap16 :: "bytes \<Rightarrow> exn + bytes" where
  "swap16 b = (if length b mod 2 \<noteq> 0 then Inl (range_error ''Buffer size must be a multiple of 16-bits'')
     else Inr (swap_loop 2 [(0, 1)] b (length b) 0))"

definition swap32 :: "bytes \<Rightarrow> exn + bytes" where
  "swap32 b = (if length b mod 4 \<noteq> 0 then Inl (range_error ''Buffer size must be a multiple of 32-bits'')
     else Inr (swap_loop 4 [(0, 3), (1, 2)] b (length b) 0))"

definition swap64 :: "bytes \<Rightarrow> exn + bytes" where
  "swap64 b = (if length b mod 8 \<noteq> 0 then Inl (range_error ''Buffer size must be a multiple of 64-bits'')
     else Inr (swap_loop 8 [(0, 7), (1, 6), (2, 5), (3, 4)] b (length b) 0))"

subsection \<open>Showing\<close>

definition toJSON :: "bytes \<Rightarrow> js" where
  "toJSON b = JObj [(''type'', JStr ''Buffer''), (''data'', JArr (map (\<lambda>x. JNum (Fin (of_nat (unat x)))) b))]"

text \<open>\<open>match(/.{2}/g).join(' ')\<close>\<close>

fun spaced :: "units \<Rightarrow> units" where
  "spaced (a # b # c # d # r) = [a, b, 32] @ spaced (c # d # r)"
| "spaced (a # b # r) = [a, b]"
| "spaced _ = []"

definition inspect :: "bytes \<Rightarrow> nat \<Rightarrow> exn + units" where
  "inspect buf mx =
     (case (if length buf > 0 then map_sum id spaced (toString buf (Txt ''hex'') (Some 0) (Some (int mx))) else Inr []) of
        Inl e \<Rightarrow> Inl e
      | Inr s \<Rightarrow> Inr (units_of ''<Buffer '' @ s @ (if length buf > mx then units_of '' ... '' else []) @ units_of ''>''))"

subsection \<open>The order\<close>

lemma three_way_byte: "three_way (int (unat x), int (unat y)) = (if x < y then - 1 else if x = y then 0 else 1)" for x y :: "8 word"
  by (auto simp: three_way_def word_less_alt word_uint_eq_iff)

lemma three_way_order:
  "three_way (first_difference a b (int (length a) + k, int (length b) + k)) = (if ord_class.lexordp a b then - 1 else if a = b then 0 else 1)"
proof (induction a arbitrary: b k)
  case Nil
  then show ?case by (cases b) (simp_all add: three_way_def)
next
  case (Cons x xs)
  show ?case
  proof (cases b)
    case (Cons y ys)
    have k: "int (length (z # zs)) + k = int (length zs) + (k + 1)" for z and zs :: bytes by simp
    show ?thesis
    proof (cases "x = y")
      case True
      then show ?thesis using Cons.IH [of ys "k + 1"] unfolding Cons k by simp
    next
      case False
      then show ?thesis unfolding Cons by (simp only: first_difference.simps if_True not_False_eq_True three_way_byte) auto
    qed
  qed (simp add: three_way_def)
qed

text \<open>
  \<open>compare\<close> orders buffers as the lexicographic order does: byte by byte, a beginning before
  what goes on. It says 0, and \<open>equals\<close> true, for the same bytes only, and changes its sign
  with the order of its arguments.
\<close>

theorem compare_lexicographic:
  "compare_bytes a b = (if ord_class.lexordp a b then - 1 else if a = b then 0 else 1)
   \<and> equals a b = (a = b) \<and> compare_bytes b a = - compare_bytes a b"
proof -
  have c: "compare_bytes a b = (if ord_class.lexordp a b then - 1 else if a = b then 0 else 1)" for a b
    using three_way_order [of a b 0] by (simp add: compare_bytes_def)
  show ?thesis using lexordp_linear [of a b] lexordp_irreflexive' [of b] lexordp_antisym [of a b]
    by (auto simp: c equals_def)
qed

subsection \<open>Copies\<close>

lemma part_length [simp]: "length (part buf p n) = min n (length buf - p)"
  by (simp add: part_def)

lemma part_add: "part buf p (m + n) = part buf p m @ part buf (p + m) n"
  by (simp add: part_def take_add add.commute)

lemma copy_range_bounds:
  "copy_range n m targetStart start0 end0 = Inr (Some (dst, start, e))
   \<Longrightarrow> 0 \<le> dst \<and> dst \<le> int m \<and> 0 \<le> start \<and> start < int n \<and> e \<le> int n \<and> e - start \<le> int m - dst"
  by (auto simp: copy_range_def Let_def split: if_splits)

lemma copy_down_snapshot:
  "start < dst \<Longrightarrow> dst + n \<le> length buf \<Longrightarrow> copy_down buf dst start n = spliced buf dst (part buf start n)"
proof (induction n arbitrary: buf)
  case 0
  then show ?case by (simp add: spliced_def part_def)
next
  case (Suc n)
  let ?b = "put buf (n + dst) (octet buf (n + start))"
  have "part ?b start n = part buf start n" using Suc.prems by (simp add: put_def part_def drop_update_swap)
  moreover have "drop (dst + n) ?b = buf ! (start + n) # drop (Suc (dst + n)) buf"
    using drop_at_put [of "n + dst" buf] Suc.prems by (simp add: octet_def add.commute)
  moreover have "take dst ?b = take dst buf" by (simp add: take_put)
  moreover have "part buf start (Suc n) = part buf start n @ [buf ! (start + n)]" using Suc.prems by (intro part_snoc) simp
  moreover have "copy_down ?b dst start n = spliced ?b dst (part ?b start n)" using Suc.prems by (intro Suc.IH) simp_all
  ultimately show ?case using Suc.prems by (simp add: spliced_def add.commute)
qed

text \<open>
  C36: Copying a part of a buffer onto another part of it gives what copying it from a second
  buffer of the same bytes gives, overlapping or not, with the engine's \<open>copyWithin\<close> or without.
\<close>

theorem overlapping_copy:
  "copy native True buf buf targetStart start e = copy native' False buf buf targetStart start e"
proof -
  have "copy_down buf (nat dst) (nat s) (nat (e - s)) = spliced buf (nat dst) (part buf (nat s) (nat (e - s)))"
    if "copy_range (length buf) (length buf) targetStart start e0 = Inr (Some (dst, s, e))" "s < dst" for dst s e e0
    using copy_range_bounds [OF that(1)] that(2) by (intro copy_down_snapshot) linarith+
  then show ?thesis by (auto simp: copy_def Let_def split: sum.split option.split)
qed

subsection \<open>Joining\<close>

lemma copy_at:
  "\<exists>k. copy native False b buffer (Some (int pos)) None None = Inr (spliced buffer (min pos (length buffer)) (take (length buffer - pos) b), k)"
proof (cases "buffer = [] \<or> b = []")
  case True
  then show ?thesis by (auto simp: copy_def copy_range_def the_default_def Let_def spliced_def)
next
  case False
  have n: "nat (int (length buffer) - int pos) = length buffer - pos" by arith
  from False show ?thesis
    by (cases "int (length buffer) \<le> int pos")
      (auto simp: copy_def copy_range_def the_default_def Let_def spliced_def part_def not_le n min_def split: if_splits)
qed

lemma concat_loop_joins:
  "concat_loop native (take m (done @ replicate m 0)) (length done) (map Some bs) = Inr (take m (done @ concat bs @ replicate m 0))"
proof (induction bs arbitrary: "done")
  case (Cons b bs)
  let ?buffer = "take m (done @ replicate m 0)"
  obtain k where k: "copy native False b ?buffer (Some (int (length done))) None None
      = Inr (spliced ?buffer (min (length done) m) (take (m - length done) b), k)"
    using copy_at [of native b ?buffer "length done"] by (auto simp: min_def)
  have "spliced ?buffer (min (length done) m) (take (m - length done) b) = take m ((done @ b) @ replicate m 0)"
    by (cases "m \<le> length done") (auto simp: spliced_def min_def take_Cons' not_le intro!: nth_equalityI simp: nth_append)
  then show ?case using Cons.IH [of "done @ b"] k by (simp add: from_value_def fromArrayBuffer_def less_arg_def)
qed simp

text \<open>
  \<open>concat\<close> joins its buffers in order, into one of their joint length or of the length asked
  for, cut off or filled up with zeros; without buffers the length is not looked at. What does not
  fit a buffer is an error.
\<close>

theorem concat_joins:
  "concat_buffers native (map Some bs) Absent = (if length (concat bs) < 0x7fffffff then Inr (concat bs) else Inl too_large)
   \<and> concat_buffers native (map Some bs) (Num (int n))
     = (if bs = [] then Inr [] else if n < 0x7fffffff then Inr (take n (concat bs @ replicate n 0)) else Inl too_large)"
proof -
  have new: "allocUnsafe (Num (int m)) = (if m < 0x7fffffff then Inr (replicate m 0) else Inl too_large)" for m
    by (auto simp: allocUnsafe_def assertSize_def checked_def createBuffer_def)
  have loop: "concat_loop native (replicate m 0) 0 (map Some bs) = Inr (take m (concat bs @ replicate m 0))" for m
    using concat_loop_joins [of native m "[]" bs] by simp
  have all: "sum_length (map Some bs) = length (concat bs)" by (simp add: sum_length_def length_concat comp_def image_iff)
  show ?thesis unfolding concat_buffers_def all by (simp add: new loop) (auto simp: alloc_def assertSize_def createBuffer_def)
qed

subsection \<open>Swaps\<close>

lemma decompose8:
  assumes "p + 8 \<le> length buf"
  obtains xs a b c d e f g h ys where "buf = xs @ [a, b, c, d, e, f, g, h] @ ys" "length xs = p"
proof -
  have "p + 4 \<le> length buf" using assms by simp
  then obtain xs a b c d r where r: "buf = xs @ [a, b, c, d] @ r" "length xs = p" by (rule decompose4)
  then have "0 + 4 \<le> length r" using assms by simp
  then obtain zs e f g h ys where "r = zs @ [e, f, g, h] @ ys" "length zs = 0" by (rule decompose4)
  then show thesis using that r by simp
qed

text \<open>One round turns the bytes of its group round.\<close>

definition turned :: "nat \<Rightarrow> nat \<Rightarrow> bytes \<Rightarrow> bytes" where
  "turned w i b = take i b @ rev (part b i w) @ drop (i + w) b"

lemma swap_round:
  "i + 2 \<le> length b \<Longrightarrow> fold (\<lambda>(x, y) b. swap_at b (i + x) (i + y)) [(0, 1)] b = turned 2 i b"
  "i + 4 \<le> length b \<Longrightarrow> fold (\<lambda>(x, y) b. swap_at b (i + x) (i + y)) [(0, 3), (1, 2)] b = turned 4 i b"
  "i + 8 \<le> length b \<Longrightarrow> fold (\<lambda>(x, y) b. swap_at b (i + x) (i + y)) [(0, 7), (1, 6), (2, 5), (3, 4)] b = turned 8 i b"
proof -
  note defs = swap_at_def turned_def part_def list_update_append nth_append
  show "fold (\<lambda>(x, y) b. swap_at b (i + x) (i + y)) [(0, 1)] b = turned 2 i b" if room: "i + 2 \<le> length b"
  proof -
    obtain xs p q ys where b: "b = xs @ [p, q] @ ys" "length xs = i" using room by (rule decompose2)
    show ?thesis using b(2) [symmetric] by (simp add: b(1) defs)
  qed
  show "fold (\<lambda>(x, y) b. swap_at b (i + x) (i + y)) [(0, 3), (1, 2)] b = turned 4 i b" if room: "i + 4 \<le> length b"
  proof -
    obtain xs p q r s ys where b: "b = xs @ [p, q, r, s] @ ys" "length xs = i" using room by (rule decompose4)
    show ?thesis using b(2) [symmetric] by (simp add: b(1) defs)
  qed
  show "fold (\<lambda>(x, y) b. swap_at b (i + x) (i + y)) [(0, 7), (1, 6), (2, 5), (3, 4)] b = turned 8 i b" if room: "i + 8 \<le> length b"
  proof -
    obtain xs p q r s p' q' r' s' ys where b: "b = xs @ [p, q, r, s, p', q', r', s'] @ ys" "length xs = i" using room by (rule decompose8)
    show ?thesis using b(2) [symmetric] by (simp add: b(1) defs)
  qed
qed

lemma turned_facts:
  assumes "i + w \<le> length b"
  shows "length (turned w i b) = length b" and "take i (turned w i b) = take i b"
    and "part (turned w i b) i w = rev (part b i w)"
    and "i + w \<le> k \<Longrightarrow> part (turned w i b) k w = part b k w"
proof -
  have l: "length (part b i w) = w" using assms by simp
  show "length (turned w i b) = length b" "take i (turned w i b) = take i b" "part (turned w i b) i w = rev (part b i w)"
    using assms l by (simp_all add: turned_def part_def)
  have "drop k (turned w i b) = drop k b" if "i + w \<le> k" using that assms l by (simp add: turned_def)
  then show "i + w \<le> k \<Longrightarrow> part (turned w i b) k w = part b k w" by (simp add: part_def)
qed

lemma swap_loop_turns:
  assumes round: "\<And>i b. i + w \<le> length b \<Longrightarrow> fold (\<lambda>(x, y) b. swap_at b (i + x) (i + y)) pairs b = turned w i b"
    and "0 < w" and "w dvd i" and "w dvd length b"
  shows "length (swap_loop w pairs b (length b) i) = length b
    \<and> take i (swap_loop w pairs b (length b) i) = take i b
    \<and> (\<forall>k. w dvd k \<longrightarrow> i \<le> k \<longrightarrow> part (swap_loop w pairs b (length b) i) k w = rev (part b k w))"
  using assms(3,4)
proof (induction "length b - i" arbitrary: b i rule: less_induct)
  case less
  show ?case
  proof (cases "i < length b")
    case True
    have "w dvd length b - i" using less.prems by (rule dvd_diff_nat [rotated])
    then have room: "i + w \<le> length b" using True dvd_imp_le [of w "length b - i"] by simp
    note t = turned_facts [OF room]
    let ?r = "swap_loop w pairs (turned w i b) (length b) (i + w)"
    have step: "swap_loop w pairs b (length b) i = ?r"
      using True assms(2) by (subst swap_loop.simps) (simp add: round [OF room] max_def)
    have ih: "length ?r = length b" "take (i + w) ?r = take (i + w) (turned w i b)"
      "\<And>k. w dvd k \<Longrightarrow> i + w \<le> k \<Longrightarrow> part ?r k w = rev (part (turned w i b) k w)"
      using less.hyps [of "turned w i b" "i + w"] less.prems True assms(2) by (simp_all add: t(1))
    have "part ?r k w = rev (part b k w)" if k: "w dvd k" "i \<le> k" for k
    proof (cases "i + w \<le> k")
      case True
      then show ?thesis using ih(3) [OF k(1)] t(4) by simp
    next
      case False
      have "w dvd k - i" using k(1) less.prems(1) by (rule dvd_diff_nat)
      then have "k = i" using False k(2) dvd_imp_le [of w "k - i"] by (cases "k - i") auto
      moreover have "part ?r i w = part (turned w i b) i w"
        using arg_cong [OF ih(2), of "drop i"] by (simp add: part_def drop_take)
      ultimately show ?thesis using t(3) by simp
    qed
    moreover have "take i ?r = take i b" using arg_cong [OF ih(2), of "take i"] t(2) by (simp add: min_def)
    ultimately show ?thesis using step ih(1) by simp
  next
    case False
    then show ?thesis by (simp add: swap_loop.simps part_def)
  qed
qed

text \<open>
  What the swaps do: the bytes of every group of two, four or eight are turned round, so that a
  number of that size written in one byte order is read in the other. Other lengths are errors.
\<close>

lemma swaps_turn_groups:
  "2 dvd length b \<Longrightarrow> \<exists>r. swap16 b = Inr r \<and> length r = length b \<and> (\<forall>k. 2 dvd k \<longrightarrow> part r k 2 = rev (part b k 2))"
  "4 dvd length b \<Longrightarrow> \<exists>r. swap32 b = Inr r \<and> length r = length b \<and> (\<forall>k. 4 dvd k \<longrightarrow> part r k 4 = rev (part b k 4))"
  "8 dvd length b \<Longrightarrow> \<exists>r. swap64 b = Inr r \<and> length r = length b \<and> (\<forall>k. 8 dvd k \<longrightarrow> part r k 8 = rev (part b k 8))"
  using swap_loop_turns [OF swap_round(1), of 0 b] swap_loop_turns [OF swap_round(2), of 0 b] swap_loop_turns [OF swap_round(3), of 0 b]
  by (simp_all add: swap16_def swap32_def swap64_def dvd_eq_mod_eq_0)

subsection \<open>Filled ranges\<close>

lemma put_range_eq:
  "start \<le> e \<Longrightarrow> e \<le> length buf \<Longrightarrow>
   put_range buf start e f = take start buf @ map (\<lambda>i. word_of_int (f i)) [start..<e] @ drop e buf"
proof (induction e rule: dec_induct)
  case base
  then show ?case by (simp add: put_range_def)
next
  case (step n)
  have "put_range buf start (Suc n) f = put (put_range buf start n f) n (f n)" using step.hyps(1) by (simp add: put_range_def)
  moreover have "drop n buf = buf ! n # drop (Suc n) buf" using step.prems by (simp add: Cons_nth_drop_Suc)
  ultimately show ?case using step by (simp add: put_def list_update_append)
qed

lemma put_range_past:
  assumes "length buf \<le> e" and "start \<le> length buf"
  shows "put_range buf start e f = put_range buf start (length buf) f"
  using assms(1)
proof (induction e rule: dec_induct)
  case (step n)
  have "length (put_range buf start n f) = length buf" using step assms(2) by (simp add: put_range_eq)
  moreover have "put_range buf start (Suc n) f = put (put_range buf start n f) n (f n)" using step.hyps assms(2) by (simp add: put_range_def)
  ultimately show ?case using step by (simp add: put_def list_update_beyond)
qed simp

text \<open>
  A fill repeats its bytes from \<open>start\<close> to \<open>end\<close> and leaves the others. A negative end without a
  start is taken modulo \<open>2^32\<close>, so that everything is filled.
\<close>

lemma fill_repeats:
  assumes "bs \<noteq> []" and "s \<le> e" and "e \<le> length buf" and "length buf < 2 ^ 32"
  shows "fill buf (FillBuf bs) (Num (int s)) (Num (int e)) encoding
    = Inr (take s buf @ map (\<lambda>i. bs ! ((i - s) mod length bs)) [s..<e] @ drop e buf)"
proof (cases "s = e")
  case True
  then show ?thesis using assms by (simp add: fill_def fill_checked_def less_arg_def at_most_arg_def)
next
  case False
  have "word_of_int (octet bs i) = bs ! i" for i by (simp add: octet_def)
  then show ?thesis using False assms put_range_eq [OF assms(2,3)]
    by (simp add: fill_def fill_checked_def less_arg_def at_most_arg_def fill_bytes_def uint32_arg_def uint32_def)
qed

lemma negative_end_fills_all:
  assumes "length buf < 2 ^ 31"
  shows "fill buf (FillNum 7) Absent (Num (- 1)) Absent = Inr (replicate (length buf) 7)"
proof -
  have "put_range buf 0 4294967295 (\<lambda>_. 7) = replicate (length buf) 7"
    using put_range_past [of buf 4294967295 0 "\<lambda>_. 7"] assms put_range_eq [of 0 "length buf" buf] by (simp add: map_replicate_const)
  then show ?thesis by (simp add: fill_def fill_checked_def less_arg_def at_most_arg_def uint32_arg_def uint32_def int32_def)
qed

text \<open>With the end 0 before the start a copy copies nothing and returns a negative number.\<close>

lemma copy_counts_below_zero: "copy native False [1, 2, 3] [0, 0] (Some 0) (Some 2) (Some 0) = Inr ([0, 0], - 2)"
  by (simp add: copy_def copy_range_def the_default_def spliced_def part_def)

end
