(* ===== verification/Buf_Search.thy ===== *)
theory Buf_Search
  imports Buf_Ops
begin

text \<open>
  Searching in buffers (module 10 of \<open>socketcluster.js\<close>): \<open>indexOf\<close>, \<open>lastIndexOf\<close> and \<open>includes\<close>,
  down to the loops of \<open>arrayIndexOf\<close>. Offsets are whole numbers, absent, or texts that are no
  numerals. The lemmas show what the loops find: the least and the greatest of the positions at
  which a sequence of bytes occurs.
\<close>

subsection \<open>Searching\<close>

text \<open>
  \<open>arrayIndexOf\<close>. With one of the names of UCS-2 as the encoding, two bytes are read at a time
  (\<open>wide\<close>). The indices of the code are then halves; here a position counts bytes, so that
  \<open>i\<close> is the position divided by \<open>w\<close>, and a position moves by \<open>w\<close>. A byte past the end is \<open>None\<close>.
\<close>

definition wide :: "arg \<Rightarrow> bool" where
  "wide encoding = (case encoding of Txt e \<Rightarrow> encoding_of e = Some Ucs2 | _ \<Rightarrow> False)"

definition read_unit :: "nat \<Rightarrow> bytes \<Rightarrow> nat \<Rightarrow> exn + int option" where
  "read_unit w buf p = (if w = 1 then Inr (if p < length buf then Some (octet buf p) else None)
     else map_sum id Some (readUInt16BE buf (int p)))"

text \<open>\<open>read(arr, i) === read(val, j)\<close>\<close>

definition same_unit :: "nat \<Rightarrow> bytes \<Rightarrow> bytes \<Rightarrow> nat \<Rightarrow> nat \<Rightarrow> exn + bool" where
  "same_unit w arr val p q =
     (case read_unit w arr p of Inl e \<Rightarrow> Inl e
      | Inr x \<Rightarrow> (case read_unit w val q of Inl e \<Rightarrow> Inl e | Inr y \<Rightarrow> Inr (x = y)))"

text \<open>The loop forwards. A mismatch after a beginning goes back to behind the first unit of it.\<close>

function find_forward :: "nat \<Rightarrow> bytes \<Rightarrow> bytes \<Rightarrow> nat \<Rightarrow> nat option \<Rightarrow> exn + rat" where
  "find_forward w arr val p found =
     (if p < length arr then
        (case same_unit w arr val p (case found of None \<Rightarrow> 0 | Some f \<Rightarrow> p - f) of
           Inl e \<Rightarrow> Inl e
         | Inr True \<Rightarrow>
             (let f = (case found of None \<Rightarrow> p | Some f \<Rightarrow> f)
              in if p - f + w = length val then Inr (of_nat f) else find_forward w arr val (p + max 1 w) (Some f))
         | Inr False \<Rightarrow> find_forward w arr val ((case found of None \<Rightarrow> p | Some f \<Rightarrow> f) + max 1 w) None)
      else Inr (- 1))"
  by pat_completeness auto
termination
  by (relation "measures [\<lambda>(w, arr, val, p, found). length arr - (case found of None \<Rightarrow> p | Some f \<Rightarrow> min f p),
       \<lambda>(w, arr, val, p, found). length arr - p]")
    (auto split: option.splits)

declare find_forward.simps [simp del]

text \<open>The inner loop of the search backwards: are all units from \<open>j\<close> on the same?\<close>

function matches_from :: "nat \<Rightarrow> bytes \<Rightarrow> bytes \<Rightarrow> nat \<Rightarrow> nat \<Rightarrow> exn + bool" where
  "matches_from w arr val p j =
     (if j < length val then
        (case same_unit w arr val (p + j) j of Inl e \<Rightarrow> Inl e
         | Inr False \<Rightarrow> Inr False | Inr True \<Rightarrow> matches_from w arr val p (j + max 1 w))
      else Inr True)"
  by pat_completeness auto
termination
  by (relation "measure (\<lambda>(w, arr, val, p, j). length val - j)") auto

declare matches_from.simps [simp del]

text \<open>The loop backwards. It returns the index \<open>i\<close>, not the position.\<close>

function find_backward :: "nat \<Rightarrow> bytes \<Rightarrow> bytes \<Rightarrow> int \<Rightarrow> exn + rat" where
  "find_backward w arr val p =
     (if p \<ge> 0 then
        (case matches_from w arr val (nat p) 0 of Inl e \<Rightarrow> Inl e
         | Inr True \<Rightarrow> Inr (of_int p / of_nat w)
         | Inr False \<Rightarrow> find_backward w arr val (p - int (max 1 w)))
      else Inr (- 1))"
  by pat_completeness auto
termination
  by (relation "measure (\<lambda>(w, arr, val, p). nat (p + 1))") auto

declare find_backward.simps [simp del]

definition arrayIndexOf :: "bytes \<Rightarrow> bytes \<Rightarrow> nat \<Rightarrow> arg \<Rightarrow> bool \<Rightarrow> exn + rat" where
  "arrayIndexOf arr val byteOffset encoding dir =
     (if wide encoding \<and> (length arr < 2 \<or> length val < 2) then Inr (- 1)
      else let w = (if wide encoding then 2 else 1) in
        if dir then find_forward w arr val byteOffset None
        else find_backward w arr val
          (if byteOffset + length val > length arr then int (length arr) - int (length val) else int byteOffset))"

text \<open>The language's \<open>indexOf\<close> and \<open>lastIndexOf\<close> of an array of bytes.\<close>

definition native_index :: "bytes \<Rightarrow> int \<Rightarrow> nat \<Rightarrow> bool \<Rightarrow> rat" where
  "native_index buf v off dir =
     (case (if dir then find (\<lambda>i. octet buf i = v) [off..<length buf]
            else find (\<lambda>i. octet buf i = v) (rev [0..<min (off + 1) (length buf)])) of
        None \<Rightarrow> - 1 | Some i \<Rightarrow> of_nat i)"

datatype needle = NeedleText units | NeedleBuf bytes | NeedleNum int | NeedleOther

text \<open>The offset: absent means the whole buffer, a negative one counts from the end.\<close>

definition search_offset :: "nat \<Rightarrow> arg \<Rightarrow> bool \<Rightarrow> nat option" where
  "search_offset n byteOffset dir =
     (let len = int n;
          b = (case byteOffset of
                 Txt _ \<Rightarrow> 0
               | Num b \<Rightarrow> if b > 0x7fffffff then 0x7fffffff else if b < - 0x80000000 then - 0x80000000 else b
               | Absent \<Rightarrow> if dir then 0 else len - 1);
          b = (if b < 0 then len + b else b)
      in if b \<ge> len then (if dir then None else Some (n - 1))
         else if b < 0 then (if dir then Some 0 else None)
         else Some (nat b))"

definition bidirectionalIndexOf :: "bool \<Rightarrow> bytes \<Rightarrow> needle \<Rightarrow> arg \<Rightarrow> arg \<Rightarrow> bool \<Rightarrow> exn + rat" where
  "bidirectionalIndexOf native buf val byteOffset encoding0 dir =
     (let encoding = (case byteOffset of Txt e \<Rightarrow> Txt e | _ \<Rightarrow> encoding0);
          search = (\<lambda>off val. if val = [] then Inr (- 1) else arrayIndexOf buf val off encoding dir)
      in if buf = [] then Inr (- 1)
         else case search_offset (length buf) byteOffset dir of None \<Rightarrow> Inr (- 1)
         | Some off \<Rightarrow> (case val of
             NeedleText s \<Rightarrow> (case fromString s encoding of Inl e \<Rightarrow> Inl e | Inr bs \<Rightarrow> search off bs)
           | NeedleBuf bs \<Rightarrow> search off bs
           | NeedleNum n \<Rightarrow> (let v = int32 n AND 0xFF in
               if native then Inr (native_index buf v off dir) else arrayIndexOf buf [word_of_int v] off encoding dir)
           | NeedleOther \<Rightarrow> Inl (type_error ''val must be string, number or Buffer'')))"

definition indexOf :: "bool \<Rightarrow> bytes \<Rightarrow> needle \<Rightarrow> arg \<Rightarrow> arg \<Rightarrow> exn + rat" where
  "indexOf native buf val byteOffset encoding = bidirectionalIndexOf native buf val byteOffset encoding True"

definition lastIndexOf :: "bool \<Rightarrow> bytes \<Rightarrow> needle \<Rightarrow> arg \<Rightarrow> arg \<Rightarrow> exn + rat" where
  "lastIndexOf native buf val byteOffset encoding = bidirectionalIndexOf native buf val byteOffset encoding False"

definition includes_value :: "bool \<Rightarrow> bytes \<Rightarrow> needle \<Rightarrow> arg \<Rightarrow> arg \<Rightarrow> exn + bool" where
  "includes_value native buf val byteOffset encoding = map_sum id (\<lambda>i. i \<noteq> - 1) (indexOf native buf val byteOffset encoding)"

subsection \<open>What a search finds\<close>

definition occurs_at :: "bytes \<Rightarrow> bytes \<Rightarrow> nat \<Rightarrow> bool" where
  "occurs_at buf val p \<longleftrightarrow> part buf p (length val) = val"

lemma occurs_at_room: "occurs_at buf val p \<Longrightarrow> val \<noteq> [] \<Longrightarrow> p + length val \<le> length buf"
proof -
  assume a: "occurs_at buf val p" "val \<noteq> []"
  have "min (length val) (length buf - p) = length val" using arg_cong [OF a(1) [unfolded occurs_at_def], of length] by simp
  then show ?thesis using a(2) by (cases "length buf - p = 0") auto
qed

lemma part_1: "p < length buf \<Longrightarrow> part buf p 1 = [buf ! p]"
  using part_Cons [of p buf 0] by (simp add: part_def)

lemma part_2: "p + 2 \<le> length buf \<Longrightarrow> part buf p 2 = [buf ! p, buf ! (p + 1)]"
  using part_Cons [of p buf 1] part_1 [of "Suc p" buf] by (simp add: numeral_2_eq_2)

lemma octet_eq: "octet a i = octet b j \<longleftrightarrow> a ! i = b ! j"
  unfolding octet_def of_nat_eq_iff by (rule word_unat_eq_iff [symmetric])

lemma two_digits:
  assumes "0 \<le> b" "b < 256" "0 \<le> d" "d < 256"
  shows "256 * a + b = 256 * c + d \<longleftrightarrow> a = c \<and> b = (d :: int)"
proof
  assume e: "256 * a + b = 256 * c + d"
  have "(256 * a + b) mod 256 = b" "(256 * c + d) mod 256 = d" using assms by simp_all
  then show "a = c \<and> b = d" using e by simp
qed simp

lemma uint32_nat: "p < 2 ^ 32 \<Longrightarrow> uint32 (int p) = p"
  by (simp add: uint32_def)

lemma same_unit_eq:
  assumes "w = 1 \<or> w = 2" and "p + w \<le> length arr" and "q + w \<le> length val" and "length arr < 2 ^ 31" and "length val < 2 ^ 31"
  shows "same_unit w arr val p q = Inr (part arr p w = part val q w)"
proof (cases "w = 1")
  case True
  then show ?thesis using assms part_1 [of p arr] part_1 [of q val]
    by (simp add: same_unit_def read_unit_def octet_eq)
next
  case False
  then have w: "w = 2" using assms(1) by simp
  have r: "read_unit 2 b i = Inr (Some (256 * octet b i + octet b (i + 1)))" if "i + 2 \<le> length b" "length b < 2 ^ 31" for b i
    using that octet_range [of b] by (simp add: read_unit_def readUInt16BE_def reading_def checkOffset_def uint32_nat shl_octet or2)
  show ?thesis using assms w part_2 [of p arr] part_2 [of q val]
    by (simp add: same_unit_def r two_digits octet_range octet_eq)
qed

text \<open>An index that is the least, or the greatest, of a set of positions; -1 if there is none.\<close>

definition least_of :: "nat set \<Rightarrow> rat \<Rightarrow> bool" where
  "least_of A r \<longleftrightarrow> A = {} \<and> r = - 1 \<or> (\<exists>p\<in>A. r = of_nat p \<and> (\<forall>q\<in>A. p \<le> q))"

definition greatest_of :: "nat set \<Rightarrow> rat \<Rightarrow> bool" where
  "greatest_of A r \<longleftrightarrow> A = {} \<and> r = - 1 \<or> (\<exists>p\<in>A. r = of_nat p \<and> (\<forall>q\<in>A. q \<le> p))"

definition stops :: "nat \<Rightarrow> bytes \<Rightarrow> bytes \<Rightarrow> nat \<Rightarrow> nat set" where
  "stops w arr val s = {p. occurs_at arr val p \<and> (\<exists>k. p = s + k * w)}"

lemma stops_step: "\<not> occurs_at arr val s \<Longrightarrow> stops w arr val s = stops w arr val (s + w)"
proof -
  assume n: "\<not> occurs_at arr val s"
  have "(\<exists>k. p = s + k * w) \<longleftrightarrow> (\<exists>k. p = s + w + k * w)" if "occurs_at arr val p" for p
  proof
    assume "\<exists>k. p = s + k * w"
    then obtain k where k: "p = s + k * w" by blast
    then have "k \<noteq> 0" using n that by (metis add.right_neutral mult_zero_left)
    then show "\<exists>k. p = s + w + k * w" using k by (intro exI [of _ "k - 1"]) (cases k; simp)
  next
    assume "\<exists>k. p = s + w + k * w"
    then obtain k where "p = s + w + k * w" by blast
    then show "\<exists>k. p = s + k * w" by (intro exI [of _ "Suc k"]) simp
  qed
  then show ?thesis by (auto simp: stops_def)
qed

lemma stops_none: "val \<noteq> [] \<Longrightarrow> length arr < s + length val \<Longrightarrow> least_of (stops w arr val s) (- 1)"
  using occurs_at_room [of arr val] by (fastforce simp: stops_def least_of_def)

lemma stops_here: "occurs_at arr val s \<Longrightarrow> least_of (stops w arr val s) (of_nat s)"
  unfolding stops_def least_of_def by (intro disjI2 bexI [of _ s]) (auto intro: exI [of _ 0])

text \<open>
  The loop: nothing is found yet, or the bytes from \<open>f\<close> to \<open>p\<close> are the beginning of \<open>val\<close>.
\<close>

lemma find_forward_first:
  assumes "w = 1 \<or> w = 2" and "val \<noteq> []" and "w dvd length val" and "length arr < 2 ^ 31" and "length val < 2 ^ 31"
    and "p \<le> length arr" and "w dvd (length arr - p)"
    and "case found of None \<Rightarrow> True
      | Some f \<Rightarrow> f < p \<and> w dvd p - f \<and> p - f < length val \<and> part arr f (p - f) = take (p - f) val"
  shows "\<exists>r. find_forward w arr val p found = Inr r \<and> least_of (stops w arr val (case found of None \<Rightarrow> p | Some f \<Rightarrow> f)) r"
  using assms
proof (induction w arr val p found rule: find_forward.induct)
  case (1 w arr val p found)
  define f where "f = (case found of None \<Rightarrow> p | Some f \<Rightarrow> f)"
  have w: "max 1 w = w" "0 < w" using "1.prems"(1) by auto
  have f: "f \<le> p" "w dvd p - f" "p - f < length val" "part arr f (p - f) = take (p - f) val"
    using "1.prems"(2,8) by (auto simp: f_def part_def split: option.splits)
  have q: "(case found of None \<Rightarrow> 0 | Some f \<Rightarrow> p - f) = p - f" by (simp add: f_def split: option.splits)
  show ?case
  proof (cases "p < length arr")
    case False
    then have "find_forward w arr val p found = Inr (- 1)" by (subst find_forward.simps) simp
    moreover have "least_of (stops w arr val f) (- 1)" using stops_none [of val arr f w] "1.prems"(2,6) f False by simp
    ultimately show ?thesis by (simp add: f_def)
  next
    case True
    have "w dvd length val - (p - f)" using "1.prems"(3) f(2) by (rule dvd_diff_nat)
    then have "w \<le> length val - (p - f)" "w \<le> length arr - p"
      using dvd_imp_le "1.prems"(7) f(3) True zero_less_diff by blast+
    then have room: "p + w \<le> length arr" "p - f + w \<le> length val" using True f(3) by linarith+
    have u: "same_unit w arr val p (p - f) = Inr (part arr p w = part val (p - f) w)"
      using same_unit_eq [OF "1.prems"(1) room "1.prems"(4,5)] .
    have grow: "part arr f (p - f + w) = part arr f (p - f) @ part arr p w"
      "take (p - f + w) val = take (p - f) val @ part val (p - f) w"
      using part_add [of arr f "p - f" w] f(1) by (simp, simp only: part_def take_add)
    have step: "find_forward w arr val p found
      = (if part arr p w = part val (p - f) w
         then if p - f + w = length val then Inr (of_nat f) else find_forward w arr val (p + w) (Some f)
         else find_forward w arr val (f + w) None)"
      using True u q w(1) by (subst find_forward.simps) (simp add: f_def Let_def split: bool.splits)
    show ?thesis
    proof (cases "part arr p w = part val (p - f) w")
      case m: True
      show ?thesis
      proof (cases "p - f + w = length val")
        case True
        then have "occurs_at arr val f" using grow m f(4) by (simp add: occurs_at_def)
        then show ?thesis using step m True stops_here by (auto simp: f_def)
      next
        case more: False
        have same: "same_unit w arr val p (case found of None \<Rightarrow> 0 | Some f \<Rightarrow> p - f) = Inr True" using u q m by simp
        have "w dvd length arr - (p + w)" using "1.prems"(7) by (metis diff_diff_left dvd_diff_nat dvd_refl)
        moreover have "w dvd p - f + w" using f(2) by simp
        then have "w dvd p + w - f" using f(1) by simp
        ultimately have "\<exists>r. find_forward w arr val (p + w) (Some f) = Inr r \<and> least_of (stops w arr val f) r"
          using "1.IH"(1) [OF True same refl f_def more] "1.prems"(1-5) w room f m more grow
          by simp
        then show ?thesis using step m more by (simp add: f_def)
      qed
    next
      case m: False
      then have differ: "same_unit w arr val p (case found of None \<Rightarrow> 0 | Some f \<Rightarrow> p - f) = Inr False" using u q by simp
      have "\<not> occurs_at arr val f"
      proof
        assume "occurs_at arr val f"
        then have "part arr f (p - f + w) = take (p - f + w) val"
          using room(2) by (metis occurs_at_def part_def take_take min.absorb1)
        then show False using grow f(4) m by simp
      qed
      moreover have "f + w \<le> length arr" "w dvd length arr - (f + w)"
      proof -
        show "f + w \<le> length arr" using f(1) room(1) by simp
        have "length arr - (f + w) = (length arr - p) + (p - f) - w" using f(1) True by simp
        then show "w dvd length arr - (f + w)" using "1.prems"(7) f(2) by (metis dvd_add dvd_diff_nat dvd_refl)
      qed
      ultimately have "\<exists>r. find_forward w arr val (f + w) None = Inr r \<and> least_of (stops w arr val (f + w)) r"
        using "1.IH"(2) [OF True differ refl] "1.prems"(1-5) w by (simp add: f_def)
      then show ?thesis using step m stops_step \<open>\<not> occurs_at arr val f\<close> by (auto simp: f_def)
    qed
  qed
qed

text \<open>Backwards, from a position at which \<open>val\<close> still fits.\<close>

lemma matches_from_eq:
  assumes "w = 1 \<or> w = 2" and "w dvd length val - j" and "j \<le> length val" and "p + length val \<le> length arr"
    and "length arr < 2 ^ 31"
  shows "matches_from w arr val p j = Inr (part arr (p + j) (length val - j) = drop j val)"
  using assms
proof (induction w arr val p j rule: matches_from.induct)
  case (1 w arr val p j)
  have w: "max 1 w = w" "0 < w" using "1.prems"(1) by auto
  show ?case
  proof (cases "j < length val")
    case True
    have "w \<le> length val - j" using dvd_imp_le "1.prems"(2) True zero_less_diff by blast
    then have room: "j + w \<le> length val" "p + j + w \<le> length arr" using True "1.prems"(4) by linarith+
    have u: "same_unit w arr val (p + j) j = Inr (part arr (p + j) w = part val j w)"
      using "1.prems"(4,5) by (intro same_unit_eq [OF "1.prems"(1) room(2,1)]) simp_all
    have split: "part arr (p + j) (length val - j) = part arr (p + j) w @ part arr (p + (j + w)) (length val - (j + w))"
      "drop j val = part val j w @ drop (j + w) val"
      using part_add [of arr "p + j" w "length val - (j + w)"] room(1)
      by (simp_all add: add.assoc part_def) (metis add.commute append_take_drop_id drop_drop)
    have len: "length (part arr (p + j) w) = length (part val j w)" using room by simp
    have d: "w dvd length val - (j + w)" using "1.prems"(2) by (metis diff_diff_left dvd_diff_nat dvd_refl)
    show ?thesis
    proof (cases "part arr (p + j) w = part val j w")
      case same: True
      then have "same_unit w arr val (p + j) j = Inr True" using u by simp
      then have "matches_from w arr val p (j + w) = Inr (part arr (p + (j + w)) (length val - (j + w)) = drop (j + w) val)"
        using "1.IH" [OF True _ refl] "1.prems" w d room(1) by simp
      then show ?thesis using True u same split w by (simp add: matches_from.simps [of w arr val p j])
    next
      case False
      then show ?thesis using True u split len by (simp add: matches_from.simps [of w arr val p j])
    qed
  next
    case False
    then have "j = length val" using "1.prems"(3) by simp
    then show ?thesis by (subst matches_from.simps) (simp add: part_def)
  qed
qed

definition up_to :: "bytes \<Rightarrow> bytes \<Rightarrow> int \<Rightarrow> nat set" where
  "up_to arr val s = {p. occurs_at arr val p \<and> int p \<le> s}"

definition onwards :: "bytes \<Rightarrow> bytes \<Rightarrow> int \<Rightarrow> nat set" where
  "onwards arr val s = {p. occurs_at arr val p \<and> s \<le> int p}"

lemma up_to_step: "\<not> occurs_at arr val (nat s) \<Longrightarrow> up_to arr val s = up_to arr val (s - 1)"
proof -
  assume n: "\<not> occurs_at arr val (nat s)"
  have "int q \<le> s \<longleftrightarrow> int q \<le> s - 1" if "occurs_at arr val q" for q using that n by (cases "int q = s") auto
  then show ?thesis by (auto simp: up_to_def)
qed

lemma find_backward_last:
  assumes "s + int (length val) \<le> int (length arr)" and "length arr < 2 ^ 31"
  shows "\<exists>r. find_backward 1 arr val s = Inr r \<and> greatest_of (up_to arr val s) r"
  using assms(1)
proof (induction "nat (s + 1)" arbitrary: s)
  case 0
  then show ?case by (simp add: find_backward.simps greatest_of_def up_to_def)
next
  case (Suc n)
  then have s: "s \<ge> 0" "n = nat (s - 1 + 1)" by auto
  have m: "matches_from 1 arr val (nat s) 0 = Inr (occurs_at arr val (nat s))"
    using matches_from_eq [of 1 val 0 "nat s" arr] Suc.prems assms(2) s(1) by (simp add: occurs_at_def)
  show ?case
  proof (cases "occurs_at arr val (nat s)")
    case True
    then have "find_backward 1 arr val s = Inr (of_nat (nat s))" using m s(1) by (subst find_backward.simps) simp
    moreover have "greatest_of (up_to arr val s) (of_nat (nat s))"
      using True s(1) unfolding greatest_of_def up_to_def by (intro disjI2 bexI [of _ "nat s"]) auto
    ultimately show ?thesis by blast
  next
    case False
    obtain r where r: "find_backward 1 arr val (s - 1) = Inr r" "greatest_of (up_to arr val (s - 1)) r"
      using Suc.hyps(1) [OF s(2)] Suc.prems by auto
    have "find_backward 1 arr val s = find_backward 1 arr val (s - 1)" using m False s(1) by (subst find_backward.simps) simp
    then show ?thesis using r up_to_step [OF False] by simp
  qed
qed

lemma stops_onwards: "stops 1 arr val s = onwards arr val (int s)"
  by (auto simp: stops_def onwards_def le_iff_add)

lemma nowhere:
  assumes "val \<noteq> []"
  shows "int (length arr) < s + int (length val) \<Longrightarrow> onwards arr val s = {}" and "s < 0 \<Longrightarrow> up_to arr val s = {}"
  using occurs_at_room [OF _ assms, of arr] by (fastforce simp: onwards_def up_to_def)+

lemma up_to_beyond: "val \<noteq> [] \<Longrightarrow> int (length arr) - int (length val) \<le> s \<Longrightarrow> up_to arr val s = up_to arr val (int (length arr) - int (length val))"
  using occurs_at_room [of arr val] by (force simp: up_to_def)

lemma onwards_all: "s \<le> 0 \<Longrightarrow> onwards arr val s = onwards arr val 0"
  by (auto simp: onwards_def)

text \<open>
  C33: \<open>indexOf\<close> gives the first position, from the offset on, at which a sequence of bytes,
  which is not empty, occurs, and \<open>lastIndexOf\<close> the last one up to it; both give -1 if there is none. A negative
  offset counts from the end. This holds for every encoding but UCS-2 and in all engines.
\<close>

theorem search_finds_first_and_last:
  assumes "val \<noteq> []" and "\<not> wide encoding" and "length buf < 2 ^ 31" and "length val < 2 ^ 31"
  shows "(\<exists>r. indexOf native buf (NeedleBuf val) (Num off) encoding = Inr r
          \<and> least_of (onwards buf val (if off < 0 then int (length buf) + off else off)) r)
       \<and> (\<exists>r. lastIndexOf native buf (NeedleBuf val) (Num off) encoding = Inr r
          \<and> greatest_of (up_to buf val (if off < 0 then int (length buf) + off else off)) r)"
proof -
  define s where "s = (if off < 0 then int (length buf) + off else off)"
  note defs = indexOf_def lastIndexOf_def bidirectionalIndexOf_def arrayIndexOf_def assms(1,2)
  show ?thesis
  proof (cases "buf = []")
    case True
    have "\<not> occurs_at [] val p" for p using occurs_at_room [OF _ assms(1), of "[]" p] assms(1) by auto
    then show ?thesis using True by (simp add: defs least_of_def greatest_of_def onwards_def up_to_def)
  next
    case False
    have fwd: "search_offset (length buf) (Num off) True = (if s \<ge> int (length buf) then None else Some (nat s))"
      using assms(3) False by (auto simp: search_offset_def s_def Let_def)
    have bwd: "search_offset (length buf) (Num off) False
      = (if s < 0 then None else Some (if s \<ge> int (length buf) then length buf - 1 else nat s))"
      using assms(3) False by (auto simp: search_offset_def s_def Let_def)
    have "\<exists>r. indexOf native buf (NeedleBuf val) (Num off) encoding = Inr r \<and> least_of (onwards buf val s) r"
    proof (cases "s \<ge> int (length buf)")
      case True
      then show ?thesis using nowhere(1) [OF assms(1), of buf s] assms(1) False fwd by (cases val) (simp_all add: defs least_of_def)
    next
      case inside: False
      then have "nat s \<le> length buf" by linarith
      then obtain r where r: "find_forward 1 buf val (nat s) None = Inr r" "least_of (stops 1 buf val (nat s)) r"
        using find_forward_first [of 1 val buf "nat s" None] assms by auto
      have "least_of (onwards buf val s) r" using r(2) onwards_all [of s] by (cases "s < 0") (simp_all add: stops_onwards [simplified])
      then show ?thesis using r(1) fwd inside False by (simp add: defs)
    qed
    moreover have "\<exists>r. lastIndexOf native buf (NeedleBuf val) (Num off) encoding = Inr r \<and> greatest_of (up_to buf val s) r"
    proof (cases "s < 0")
      case True
      then show ?thesis using nowhere(2) [OF assms(1), of s buf] bwd False by (simp add: defs greatest_of_def)
    next
      case inside: False
      define b where "b = (if s \<ge> int (length buf) then length buf - 1 else nat s)"
      define t where "t = (if b + length val > length buf then int (length buf) - int (length val) else int b)"
      have "t + int (length val) \<le> int (length buf)" by (simp add: t_def)
      then obtain r where r: "find_backward 1 buf val t = Inr r" "greatest_of (up_to buf val t) r"
        using find_backward_last [of t val buf] assms(3) by blast
      have "1 \<le> length buf" "1 \<le> length val" using False assms(1) by (simp_all add: Suc_leI)
      then have "t = s \<or> t = int (length buf) - int (length val) \<and> t \<le> s"
        using inside unfolding t_def b_def by (simp split: if_splits) linarith
      then have "greatest_of (up_to buf val s) r" using up_to_beyond [OF assms(1), of buf s] r(2) by auto
      moreover have "search_offset (length buf) (Num off) False = Some b" using bwd inside by (simp add: b_def)
      then have "lastIndexOf native buf (NeedleBuf val) (Num off) encoding = find_backward 1 buf val t"
        using False by (simp add: defs t_def Let_def)
      ultimately show ?thesis using r(1) by simp
    qed
    ultimately show ?thesis by (simp add: s_def)
  qed
qed

theorem search_finds_first_and_last_witness:
  "\<exists>r. indexOf True [1, 2, 1, 2, 1] (NeedleBuf [1, 2]) (Num 1) Absent = Inr r
      \<and> least_of (onwards [1, 2, 1, 2, 1] [1, 2] 1) r"
  using search_finds_first_and_last [of "[1, 2]" Absent "[1, 2, 1, 2, 1]" True 1] by (simp add: wide_def)

text \<open>
  In UCS-2 the search forwards goes by two bytes. From an even offset in a buffer and for a
  sequence of even length it is right as well.
\<close>

lemma search_by_units:
  assumes "even (length val)" and "val \<noteq> []" and "even (length arr)" and "even p" and "p \<le> length arr"
    and "length arr < 2 ^ 31" and "length val < 2 ^ 31"
  shows "\<exists>r. find_forward 2 arr val p None = Inr r \<and> least_of (stops 2 arr val p) r"
  using find_forward_first [of 2 val arr p None] assms by simp

text \<open>
  Otherwise it reads beyond the end: an error of the integer reader. The search backwards gives
  half of the position; and an encoding in place of the offset makes it start at 0.
\<close>

lemmas search_defs = lastIndexOf_def indexOf_def bidirectionalIndexOf_def search_offset_def arrayIndexOf_def wide_def encoding_of_def lower_char_def
  same_unit_def read_unit_def octet_def readUInt16BE_def reading_def checkOffset_def uint32_def shl_def int32_def push_bit_eq_mult
lemma search_by_units_fails:
  "indexOf True [97, 0, 98] (NeedleBuf [98, 0]) Absent (Txt ''ucs2'') = Inl (range_error ''Trying to access beyond buffer length'')"
  "lastIndexOf True [97, 0, 98, 0] (NeedleBuf [98, 0]) Absent (Txt ''ucs2'') = Inr 1"
  "lastIndexOf True [97, 98, 97] (NeedleBuf [98]) (Txt ''latin1'') Absent = Inr (- 1)"
  by (simp_all add: search_defs find_forward.simps find_backward.simps matches_from.simps)

end
