(* ===== verification/Sc_Channel.thy ===== *)
theory Sc_Channel
  imports Sc_Traffic
begin

text \<open>
  The methods of a channel object (\<open>SCChannel\<close>, module 19 of \<open>socketcluster.js\<close>). Apart from
  \<open>setOptions\<close> and \<open>getState\<close> they forward to the client by the channel's name. An object
  whose channel was destroyed therefore acts on the channel that has its name now, and shows
  the state of neither.
\<close>

definition with_name :: "nat \<Rightarrow> (string \<Rightarrow> ('a world, 'r) act) \<Rightarrow> ('a world, 'r) act" where
  "with_name i f = look (\<lambda>w. ch_name (chans w i)) f"

definition getState :: "nat \<Rightarrow> 'a world \<Rightarrow> chan_state" where
  "getState i w = ch_state (chans w i)"

definition ch_subscribe :: "'a env \<Rightarrow> nat \<Rightarrow> js \<Rightarrow> ('a world, unit) act" where
  "ch_subscribe E i options = with_name i (\<lambda>n. bnd (subscribe E n options) (\<lambda>_. skip))"

definition ch_unsubscribe :: "'a env \<Rightarrow> nat \<Rightarrow> ('a world, unit) act" where
  "ch_unsubscribe E i = with_name i (unsubscribe E)"

definition ch_isSubscribed :: "nat \<Rightarrow> bool \<Rightarrow> 'a world \<Rightarrow> bool" where
  "ch_isSubscribed i includePending w = isSubscribed (ch_name (chans w i)) includePending w"

definition ch_publish :: "'a env \<Rightarrow> nat \<Rightarrow> js \<Rightarrow> nat option \<Rightarrow> ('a world, unit) act" where
  "ch_publish E i data u = with_name i (\<lambda>n. publish E n data u)"

definition ch_watch :: "nat \<Rightarrow> nat \<Rightarrow> ('a world, unit) act" where
  "ch_watch i f = with_name i (\<lambda>n. watch n f)"

definition ch_unwatch :: "nat \<Rightarrow> nat option \<Rightarrow> ('a world, unit) act" where
  "ch_unwatch i f = with_name i (\<lambda>n. unwatch n f)"

definition ch_watchers :: "nat \<Rightarrow> 'a world \<Rightarrow> fnref list" where
  "ch_watchers i w = watchers (ch_name (chans w i)) w"

definition ch_destroy :: "'a env \<Rightarrow> nat \<Rightarrow> ('a world, unit) act" where
  "ch_destroy E i = with_name i (destroyChannel E)"

text \<open>They keep every invariant of the client that does not depend on the watchers.\<close>

lemma ch_watch_adds: "\<exists>v. ch_watch i f w = (Done (), v) \<and> ch_watchers i v = ch_watchers i w @ [Fn f]"
  by (simp add: ch_watch_def with_name_def watch_def ch_watchers_def watchers_def act_eval)

text \<open>
  Watching and unwatching go by the name: the objects \<open>i\<close> and \<open>j\<close> of one name, one of them
  destroyed, share their watchers.
\<close>

lemma same_name_same_watchers:
  "ch_name (chans w i) = ch_name (chans w j) \<Longrightarrow> ch_watchers i w = ch_watchers j w
     \<and> ch_unwatch i f w = ch_unwatch j f w \<and> ch_isSubscribed i p w = ch_isSubscribed j p w"
  by (simp add: ch_watchers_def ch_unwatch_def with_name_def look_def ch_isSubscribed_def)

text \<open>
  Subscribing again through an object that was destroyed makes a new channel object, which is the
  one that becomes pending; the old object stays unsubscribed for ever.
\<close>

lemma stale_object_subscribes_new:
  assumes "map_of (c_channels w) (ch_name (chans w i)) = None" and "c_state w \<noteq> OPEN" and "i < n_chans w"
  shows "\<exists>v. ch_subscribe E i JUndef w = (Done (), v) \<and> map_of (c_channels v) (ch_name (chans w i)) = Some (n_chans w)
    \<and> getState (n_chans w) v = PENDING \<and> getState i v = getState i w \<and> ch_isSubscribed i True v"
proof -
  have "i \<noteq> n_chans w" using assms(3) by simp
  then show ?thesis using assms(1,2)
    by (simp add: ch_subscribe_def with_name_def subscribe_def add_channel_def trySubscribe_def getState_def ch_isSubscribed_def
        isSubscribed_def new_channel_def setOptions_def upd_chan_def act_eval bnd_def)
qed

end
