(* ===== verification/Spec2Isabelle.thy ===== *)
theory Spec2Isabelle
  imports Worker Linked_List Base64 Sc_Lost Sc_Flaws Factory_Runs Page_Server Server_Config Decycle Formatter Buf_Search Sc_Channel
begin

text \<open>
  The NodeJS-Helper extension of Live Helper Chat: the socket server that carries presence,
  typing and "there is something new" between visitors and operators, and the scripts that talk
  to it from the visitor's site, the chat window and the operator's page.

  \<^bold>\<open>The program and its parts.\<close>
  A page asks the site for a signed hash (or finds it in the page), connects with the
  SocketCluster client, logs in with the hash and subscribes to a channel. The server's worker
  turns the hash into a token with the channels the socket may use, checks every subscription
  against it, and announces visitors on the channel of their installation. What is published on
  a channel reaches its watchers on the other pages. The sources are under \<open>src/nodejshelper\<close>:

  \<^item> \<open>serversc/lhc/worker.js\<close> (the login, subscription and disconnection handlers): theory
    \<open>Worker\<close>; a handler returns the calls it makes on the library, in order, and the exception
    that leaves it.
  \<^item> \<open>serversc/lhc/server.js\<close>, \<open>broker.js\<close>, \<open>dockerwait.js\<close> (options, boot, broker): theory
    \<open>Server_Config\<close>.
  \<^item> \<open>design/nodejshelpertheme/js/customjs.js\<close>, \<open>customjs-widget.js\<close>, \<open>customjs-admin.js\<close>: theories
    \<open>Page_Site\<close>, \<open>Page_Widget\<close> and \<open>Page_Admin\<close>, on what they share, \<open>Page\<close>. \<open>Page_Server\<close>
    puts the scripts and the worker together.
  \<^item> \<open>design/nodejshelpertheme/js/socketcluster.js\<close>, the client library, by its modules: the
    factory (3) is \<open>Factory\<close> and \<open>Factory_Runs\<close>; the default authentication engine (2)
    \<open>Auth_Engine\<close>; the responses (4), the client socket (5) and its channels (19) \<open>Sc_Client\<close> and
    \<open>Sc_Channel\<close>; the transport (6) \<open>Sc_Transport\<close>; \<open>base-64\<close> and \<open>base64-js\<close> (8, 9) \<open>Base64\<close>; the Buffer (10)
    \<open>Buf_Text\<close>, \<open>Buf_Codec\<close>, \<open>Buf_Num\<close>, \<open>Buf_Ops\<close> and \<open>Buf_Search\<close>; the event emitter (12) \<open>Emitter\<close>; the linked list of
    the emit buffer (14, 15) \<open>Linked_List\<close>; the query strings (16 to 18) \<open>Querystring\<close>;
    \<open>decycle\<close> (20) \<open>Decycle\<close>; the errors (21) \<open>Sc_Errors\<close>; the packet formatter (22)
    \<open>Formatter\<close>, on the language's \<open>JSON\<close> in \<open>Json\<close>; the identifiers (23 to 27) \<open>Uuid\<close>.

  \<^bold>\<open>How the model is made.\<close>
  \<open>Prelude\<close> has the values of the language and what the program uses of its standard library;
  \<open>Act\<close> the effects: an action transforms a state and returns, throws, or does not return
  (\<open>Stuck\<close>). \<open>Client_State\<close> has the state of a client, its transports and channels: objects
  that are shared by reference live in stores and are named by their index, so a transport or
  channel that has been replaced can still be reached by those who hold it. What the client's
  listeners do is a parameter, an action on the program's own data and the library itself;
  \<open>nest E n\<close> says which states such listeners can lead to, nested up to depth \<open>n\<close>.
  \<open>Sc_Run\<close> makes the client a transition system (inductive \<open>step\<close>s of the program, the WebSocket
  and the timers, and the states they reach). The page scripts are programs on this system:
  their state is the program data of a client's world, calls on objects of the page
  (\<open>lh_inst\<close>, \<open>lhinst\<close>, \<open>ee\<close>, the document) are recorded as effects, and what they read of
  the page is a parameter. The Worker's digest and random hash, the WebSocket, the clock, the
  random generator of the browser, \<open>minimist\<close>, the printer of numbers that are not integers and
  the hot-reboot and broker libraries are parameters as well.

  \<^bold>\<open>What is shown.\<close>
  \<^item> Login and presence (\<open>Worker\<close>, \<open>Page_Server\<close>): what a token that is stored was signed with, that
    hashes in the format the site issues are accepted, that joining and leaving are announced
    on the same channel, that the login packets of the pages pass, that typing reaches the other
    side; and the packets that make the handler throw.
  \<^item> The connection (\<open>Sc_Inv\<close>, \<open>Sc_Close\<close>, \<open>Sc_Lost\<close>): in every reachable state, whatever
    the listeners do, at most one transport reports to the client and has the state the client
    shows; a lost connection fails every waiting call exactly once, puts the channels
    back to pending and schedules a reconnection, with bounds on its delay.
  \<^item> The traffic (\<open>Sc_Traffic\<close>): buffered events are sent in order with consecutive call
    identifiers, subscriptions are asked for once and settled by their answer, pending channels
    are asked for again by priority, publications reach the watchers once, responses are sent
    once. \<open>Sc_Flaws\<close> has runs in which the client does not do what it means to.
  \<^item> The factory (\<open>Factory\<close>, \<open>Factory_Runs\<close>): sharing by multiplex id, and the invariant of the
    client for every client of a factory.
  \<^item> The pages (\<open>Page_Site\<close>, \<open>Page_Widget\<close>, \<open>Page_Admin\<close>): the client's invariant under their
    listeners, that intervals do not outlive their channel, who is asked and watched and how often.
  \<^item> The data (\<open>Base64\<close>, \<open>Querystring\<close>, \<open>Uuid\<close>, \<open>Decycle\<close>, \<open>Json\<close>, \<open>Formatter\<close>, \<open>Buf_Text\<close>,
    \<open>Buf_Codec\<close>, \<open>Buf_Num\<close>, \<open>Buf_Ops\<close>, \<open>Buf_Search\<close>, \<open>Sc_Errors\<close>): round trips, equivalence
    with reference definitions, what searches find, bounds and termination.

  \<^bold>\<open>Interfaces.\<close>
  \<open>removable_queue\<close> is what the emit buffer promises the client (interpreted on the linked list in
  its heap), \<open>registry\<close> what an event emitter promises, \<open>token_store\<close> what the client relies on of
  the authentication engine (interpreted on local storage and on the engine's own object).
  \<open>core_invariant\<close> and \<open>watch_invariant\<close> carry an invariant through every operation of the client
  from the few steps that change it; they are interpreted on the two invariants of the connection.
  \<open>script_invariant\<close> extends them to page scripts and is interpreted on each of the three.

  \<^bold>\<open>Fuel and bounds.\<close>
  Loops that may not end have fuel: \<open>loop_fuel\<close> in the client, where running out is \<open>Stuck\<close>
  and the theorems say how many rounds are enough; the depth of the listeners' nesting is any number.
  \<open>decycle\<close> has as much fuel as there are objects, plus one; the JSON parser twice the length of
  the text plus two (\<open>parse_fuel_enough\<close>). Both are shown to be enough. All other functions end
  by structural recursion or a measure. Characters are below 256 except in the Buffer, whose
  texts are UTF-16 code units. The two symbols that the chat window puts in front of messages are
  beyond that and stand for themselves (\<open>sent_mark\<close>, \<open>failed_mark\<close>). Numbers are exact;
  the bitwise operators convert to 32 bits where the code does.

  \<^bold>\<open>Not modelled.\<close>
  The wiring of express, health checks and static files in \<open>worker.js\<close>, the process control of
  SocketCluster itself and the other npm packages, which are not part of the repository; the PHP
  side; \<open>gulpfile.js\<close> and the minified copies it makes; the server in Go. Of the client
  library: engines passed as options (they may answer later), the module loader and the shims of
  \<open>ws\<close> and \<open>process\<close>, and stack traces; the client's \<open>subscribe\<close> and \<open>channel\<close> with a name that
  every object inherits (\<open>constructor\<close> and the like, \<open>Sc_Errors.inherited\<close>; the lookups of such
  names by messages, \<open>emit\<close>, \<open>isSubscribed\<close> and the others are modelled). Listeners of \<open>Emitter\<close>
  return. Of the Buffer: floating point numbers, \<open>noAssert\<close>, and two names for one memory.
\<close>

end
